(* ===== verification/Prelude.thy ===== *)
theory Prelude
  imports Main "HOL-Library.Word" "HOL-Library.Signed_Division"
begin

text \<open>
  Shared types, collections and generic lemmas of the development. The kernel is compiled for
  i386: \<^verbatim>\<open>char\<close> is a signed byte, \<^verbatim>\<open>short\<close> has 16 bits, \<^verbatim>\<open>int\<close>, \<^verbatim>\<open>long\<close> and pointers have 32
  (\<^verbatim>\<open>kernel/include/sys/types.h\<close>). All of them are words here; a signed reading is \<^const>\<open>sint\<close>.
\<close>

unbundle bit_operations_syntax

section \<open>Machine integers\<close>

type_synonym u8 = "8 word"
type_synonym u16 = "16 word"
type_synonym u32 = "32 word"

named_theorems op_defs "definitions of the modelled operations"
named_theorems frame "fields an operation leaves unchanged"

section \<open>Characters and C strings\<close>

text \<open>A literal of the source as the bytes it is stored as, without the terminating NUL.\<close>

definition bytes_of :: "string \<Rightarrow> u8 list" where
  "bytes_of cs = map of_char cs"

lemma bytes_of_simps [simp]:
  "bytes_of [] = []"
  "bytes_of (c # cs) = of_char c # bytes_of cs"
  by (simp_all add: bytes_of_def)

lemma length_bytes_of [simp]: "length (bytes_of cs) = length cs"
  by (simp add: bytes_of_def)

section \<open>Generic lemmas\<close>

lemma unat_less_256 [simp]: "unat (x :: u8) < 256"
  using unsigned_less [of x] by simp

lemma unat_u32_bound: "unat (x :: u32) < 4294967296"
  using unsigned_less [of x] by simp

text \<open>The bit masks of the source as runs of ones, the form \<open>bit_simps\<close> knows.\<close>

named_theorems masks "bit masks as shifted runs of ones"

lemma masks_u32 [masks]:
  "(0x0000ffff :: u32) = mask 16" "(0x000f0000 :: u32) = push_bit 16 (mask 4)"
  "(0x000fffff :: u32) = mask 20"
  "(0x00ff0000 :: u32) = push_bit 16 (mask 8)" "(0xff000000 :: u32) = push_bit 24 (mask 8)"
  "(0xffff0000 :: u32) = push_bit 16 (mask 16)"
  by (simp_all add: mask_eq_exp_minus_1 push_bit_eq_mult)

text \<open>
  The bits of a literal that is a power of two (the simplifier reads the bits of a word literal off
  the same integer literal).
\<close>

lemma bit_pow2: "x = 2 ^ k \<Longrightarrow> bit (x :: int) n \<longleftrightarrow> n = k"
  by (simp only: bit_exp_iff) auto

lemma map_nth_rev: "map (\<lambda>i. xs ! (length xs - Suc i)) [0..<length xs] = rev xs"
  by (rule nth_equalityI) (simp_all add: rev_nth)

lemma remove1_middle:
  "distinct (xs @ x # ys) \<Longrightarrow> remove1 x (xs @ x # ys) = xs @ ys"
  by (simp add: remove1_append)

lemma in_set_split_last:
  "x \<in> set xs \<Longrightarrow> \<exists>ys zs. xs = ys @ x # zs"
  by (rule split_list)

end
