(* ===== verification/Machine.thy ===== *)
theory Machine
  imports Prelude
begin

text \<open>
  The processor and the outside world as the kernel's C code sees them: the flat memory, the
  EFLAGS and task registers, and the I/O ports (\<^verbatim>\<open>kernel/include/io_port.h\<close>,
  \<^verbatim>\<open>kernel/include/cpu.h\<close>, \<^verbatim>\<open>kernel/lock.c\<close>).

  The devices behind the ports are not part of the repository. Every port access is recorded in
  \<open>trace\<close>, newest first, and the value a port read delivers is given by a parameter, a function of
  the trace so far and the port: an arbitrary deterministic device.
\<close>

section \<open>State\<close>

datatype event =
    OutB u8 u16 | OutW u16 u16 | OutL u32 u16
  | InB u16 u8 | InW u16 u16 | InL u16 u32
  | Ljmp u16      \<comment> \<open>a far jump to a task state segment: the hardware switches tasks\<close>
  | NullCall      \<comment> \<open>a call through a null function pointer\<close>
  | Hlt
  | Wait u32      \<comment> \<open>a busy wait of so many microseconds\<close>

type_synonym device = "event list \<Rightarrow> u16 \<Rightarrow> u32"

record machine =
  mem :: "u32 \<Rightarrow> u8"
  eflags :: u32
  tr :: u16
  trace :: "event list"

section \<open>Port I/O\<close>

definition outb_p :: "u8 \<Rightarrow> u16 \<Rightarrow> 'a machine_scheme \<Rightarrow> 'a machine_scheme" where
  "outb_p v port s = s\<lparr>trace := OutB v port # trace s\<rparr>"

definition outw_p :: "u16 \<Rightarrow> u16 \<Rightarrow> 'a machine_scheme \<Rightarrow> 'a machine_scheme" where
  "outw_p v port s = s\<lparr>trace := OutW v port # trace s\<rparr>"

definition outl_p :: "u32 \<Rightarrow> u16 \<Rightarrow> 'a machine_scheme \<Rightarrow> 'a machine_scheme" where
  "outl_p v port s = s\<lparr>trace := OutL v port # trace s\<rparr>"

definition inb_p :: "device \<Rightarrow> u16 \<Rightarrow> 'a machine_scheme \<Rightarrow> u8 \<times> 'a machine_scheme" where
  "inb_p dev port s = (let v = ucast (dev (trace s) port) in (v, s\<lparr>trace := InB port v # trace s\<rparr>))"

definition inw_p :: "device \<Rightarrow> u16 \<Rightarrow> 'a machine_scheme \<Rightarrow> u16 \<times> 'a machine_scheme" where
  "inw_p dev port s = (let v = ucast (dev (trace s) port) in (v, s\<lparr>trace := InW port v # trace s\<rparr>))"

definition inl_p :: "device \<Rightarrow> u16 \<Rightarrow> 'a machine_scheme \<Rightarrow> u32 \<times> 'a machine_scheme" where
  "inl_p dev port s = (let v = dev (trace s) port in (v, s\<lparr>trace := InL port v # trace s\<rparr>))"

section \<open>Processor control\<close>

definition X86_EFLAGS_IF :: u32 where
  "X86_EFLAGS_IF = 0x00000200"

definition sti :: "'a machine_scheme \<Rightarrow> 'a machine_scheme" where
  "sti s = s\<lparr>eflags := eflags s OR X86_EFLAGS_IF\<rparr>"

definition cli :: "'a machine_scheme \<Rightarrow> 'a machine_scheme" where
  "cli s = s\<lparr>eflags := eflags s AND NOT X86_EFLAGS_IF\<rparr>"

definition x86_get_eflags :: "'a machine_scheme \<Rightarrow> u32" where
  "x86_get_eflags s = eflags s"

definition x86_get_tr :: "'a machine_scheme \<Rightarrow> u16" where
  "x86_get_tr s = tr s"

definition x86_halt :: "'a machine_scheme \<Rightarrow> 'a machine_scheme" where
  "x86_halt s = s\<lparr>trace := Hlt # trace s\<rparr>"

text \<open>
  \<^verbatim>\<open>ljmp $sel, $0\<close> with the selector of a task state segment: the processor loads TR. The processor does
  this only for a descriptor of that type. \<open>System\<close> shows that every jump of the kernel goes to one while at
  most two programs have been started, and that the descriptors of later tasks have another type; what such
  a jump does is not modelled.
\<close>

definition ljmp_tss :: "u16 \<Rightarrow> 'a machine_scheme \<Rightarrow> 'a machine_scheme" where
  "ljmp_tss sel s = s\<lparr>tr := sel, trace := Ljmp sel # trace s\<rparr>"

section \<open>The kernel lock\<close>

text \<open>\<^verbatim>\<open>*if_bit\<close> is the caller's local: the value returned.\<close>

definition kern_lock :: "'a machine_scheme \<Rightarrow> u8 \<times> 'a machine_scheme" where
  "kern_lock s =
     (let if_bit = (if x86_get_eflags s AND X86_EFLAGS_IF \<noteq> 0 then 1 else 0)
      in (if_bit, if if_bit \<noteq> 0 then cli s else s))"

definition kern_unlock :: "u8 \<Rightarrow> 'a machine_scheme \<Rightarrow> 'a machine_scheme" where
  "kern_unlock if_bit s = (if if_bit \<noteq> 0 then sti s else s)"

definition interrupts_on :: "'a machine_scheme \<Rightarrow> bool" where
  "interrupts_on s \<longleftrightarrow> eflags s AND X86_EFLAGS_IF \<noteq> 0"

section \<open>Memory\<close>

definition read8 :: "(u32 \<Rightarrow> u8) \<Rightarrow> u32 \<Rightarrow> u8" where
  "read8 m p = m p"

definition write16 :: "u32 \<Rightarrow> u16 \<Rightarrow> (u32 \<Rightarrow> u8) \<Rightarrow> (u32 \<Rightarrow> u8)" where
  "write16 p v m = m(p := ucast v, p + 1 := ucast (drop_bit 8 v))"

definition read16 :: "(u32 \<Rightarrow> u8) \<Rightarrow> u32 \<Rightarrow> u16" where
  "read16 m p = ucast (m p) OR push_bit 8 (ucast (m (p + 1)))"

definition write32 :: "u32 \<Rightarrow> u32 \<Rightarrow> (u32 \<Rightarrow> u8) \<Rightarrow> (u32 \<Rightarrow> u8)" where
  "write32 p v m = m(p := ucast v, p + 1 := ucast (drop_bit 8 v),
     p + 2 := ucast (drop_bit 16 v), p + 3 := ucast (drop_bit 24 v))"

definition read32 :: "(u32 \<Rightarrow> u8) \<Rightarrow> u32 \<Rightarrow> u32" where
  "read32 m p = ucast (m p) OR push_bit 8 (ucast (m (p + 1)))
     OR push_bit 16 (ucast (m (p + 2))) OR push_bit 24 (ucast (m (p + 3)))"

section \<open>Lemmas\<close>

text \<open>The interrupt flag is bit 9.\<close>

lemma X86_EFLAGS_IF_eq: "X86_EFLAGS_IF = 2 ^ 9"
  by (simp add: X86_EFLAGS_IF_def)

lemma bit_IF: "bit X86_EFLAGS_IF n \<longleftrightarrow> n = 9"
  by (simp only: X86_EFLAGS_IF_eq bit_exp_iff) auto

lemma AND_IF_iff: "x AND X86_EFLAGS_IF \<noteq> 0 \<longleftrightarrow> bit x 9"
  by (simp only: X86_EFLAGS_IF_eq and_exp_eq_0_iff_not_bit not_not)

lemma OR_IF_idem: "bit x 9 \<Longrightarrow> x AND NOT X86_EFLAGS_IF OR X86_EFLAGS_IF = x"
  by (rule bit_word_eqI) (auto simp: bit_IF bit_simps)

lemma interrupts_on_iff: "interrupts_on s \<longleftrightarrow> bit (eflags s) 9"
  by (simp add: interrupts_on_def AND_IF_iff)

lemma interrupts_off_cli [simp]: "\<not> interrupts_on (cli s)"
  by (simp add: interrupts_on_iff cli_def bit_IF bit_simps)

lemma kern_lock_off: "\<not> interrupts_on (snd (kern_lock s))"
  by (auto simp: kern_lock_def Let_def x86_get_eflags_def)
    (simp add: interrupts_on_def)

text \<open>A lock and its unlock around code that leaves EFLAGS alone restore EFLAGS.\<close>

lemma unlock_lock_eflags:
  "kern_lock s = (b, s') \<Longrightarrow> eflags t = eflags s' \<Longrightarrow> eflags (kern_unlock b t) = eflags s"
  by (auto simp: kern_lock_def kern_unlock_def Let_def x86_get_eflags_def cli_def sti_def
      AND_IF_iff OR_IF_idem split: if_splits)

text \<open>The lock touches no other field.\<close>

lemma kern_lock_frame [frame]:
  "mem (snd (kern_lock s)) = mem s" "tr (snd (kern_lock s)) = tr s"
  "trace (snd (kern_lock s)) = trace s" "machine.more (snd (kern_lock s)) = machine.more s"
  by (simp_all add: kern_lock_def Let_def cli_def)

lemma kern_unlock_frame [frame]:
  "mem (kern_unlock b s) = mem s" "tr (kern_unlock b s) = tr s"
  "trace (kern_unlock b s) = trace s" "machine.more (kern_unlock b s) = machine.more s"
  by (simp_all add: kern_unlock_def sti_def)

text \<open>Stores and loads of the same width meet.\<close>

lemma read16_write16 [simp]: "read16 (write16 p v m) p = v"
  by (rule bit_word_eqI) (auto simp: read16_def write16_def bit_simps)

lemma plus_neq_u32 [simp]: "p + 1 \<noteq> (p :: u32)" "p + 2 \<noteq> (p :: u32)" "p + 3 \<noteq> (p :: u32)"
  "(p :: u32) \<noteq> p + 1" "(p :: u32) \<noteq> p + 2" "(p :: u32) \<noteq> p + 3"
  by simp_all

lemma read32_write32 [simp]: "read32 (write32 p v m) p = v"
proof (rule bit_word_eqI)
  fix n assume "n < LENGTH(32)"
  then consider "n < 8" | "8 \<le> n" "n < 16" | "16 \<le> n" "n < 24" | "24 \<le> n" "n < 32"
    by fastforce
  then show "bit (read32 (write32 p v m) p) n = bit v n"
    by cases (auto simp: read32_def write32_def bit_simps)
qed

end
