(* ===== verification/Cpu.thy ===== *)
theory Cpu
  imports Machine
begin

text \<open>
  The processor tables the kernel fills: segment descriptors and task state segments
  (\<^verbatim>\<open>kernel/include/cpu.h\<close>, \<^verbatim>\<open>kernel/cpu.c\<close>, the tables of \<^verbatim>\<open>kernel/sys.S\<close>) and the interrupt
  gates and interrupt controllers (\<^verbatim>\<open>kernel/intr.c\<close>).
\<close>

section \<open>Segment descriptors\<close>

text \<open>The bit fields of \<^verbatim>\<open>struct segment_descriptor\<close>, at their widths.\<close>

record segment_descriptor =
  limit0 :: u16
  base0 :: u16
  base1 :: u8
  sd_type :: "4 word"
  sd_s :: "1 word"
  sd_dpl :: "2 word"
  sd_p :: "1 word"
  limit1 :: "4 word"
  avl :: "1 word"
  sd_l :: "1 word"
  sd_d :: "1 word"
  sd_g :: "1 word"
  base2 :: u8

definition GDT_SIZE :: nat where
  "GDT_SIZE = 8"

text \<open>
  The table has \<^const>\<open>GDT_SIZE\<close> entries; a larger index writes past its end, which is \<^const>\<open>None\<close>.
\<close>

definition init_gdt ::
  "u32 \<Rightarrow> u32 \<Rightarrow> u32 \<Rightarrow> u8 \<Rightarrow> segment_descriptor list \<Rightarrow> segment_descriptor list option" where
  "init_gdt idx base limit dpl gdt =
     (if unat idx < length gdt then
        Some (gdt[unat idx := (gdt ! unat idx)
          \<lparr>limit0 := ucast (limit AND 0x0000ffff),
           limit1 := ucast (drop_bit 16 (limit AND 0x000f0000)),
           base0 := ucast (base AND 0x0000ffff),
           base1 := ucast (drop_bit 16 (base AND 0x00ff0000)),
           base2 := ucast (drop_bit 24 (base AND 0xff000000)),
           sd_dpl := ucast dpl,
           sd_type := 9,
           sd_p := 1\<rparr>])
      else None)"

text \<open>The two 32-bit words of the union, the form the processor reads.\<close>

definition descriptor_a :: "segment_descriptor \<Rightarrow> u32" where
  "descriptor_a d = ucast (limit0 d) OR push_bit 16 (ucast (base0 d))"

definition descriptor_b :: "segment_descriptor \<Rightarrow> u32" where
  "descriptor_b d = ucast (base1 d) OR push_bit 8 (ucast (sd_type d)) OR push_bit 12 (ucast (sd_s d))
     OR push_bit 13 (ucast (sd_dpl d)) OR push_bit 15 (ucast (sd_p d))
     OR push_bit 16 (ucast (limit1 d)) OR push_bit 20 (ucast (avl d)) OR push_bit 21 (ucast (sd_l d))
     OR push_bit 22 (ucast (sd_d d)) OR push_bit 23 (ucast (sd_g d)) OR push_bit 24 (ucast (base2 d))"

text \<open>A descriptor from the \<^verbatim>\<open>.quad\<close> of \<^verbatim>\<open>sys.S\<close> with high word \<open>b\<close> and low word \<open>a\<close>.\<close>

definition descriptor_of :: "u32 \<Rightarrow> u32 \<Rightarrow> segment_descriptor" where
  "descriptor_of b a =
     \<lparr>limit0 = ucast a, base0 = ucast (drop_bit 16 a), base1 = ucast b,
      sd_type = ucast (drop_bit 8 b), sd_s = ucast (drop_bit 12 b), sd_dpl = ucast (drop_bit 13 b),
      sd_p = ucast (drop_bit 15 b), limit1 = ucast (drop_bit 16 b), avl = ucast (drop_bit 20 b),
      sd_l = ucast (drop_bit 21 b), sd_d = ucast (drop_bit 22 b), sd_g = ucast (drop_bit 23 b),
      base2 = ucast (drop_bit 24 b)\<rparr>"

definition gdt_initial :: "segment_descriptor list" where
  "gdt_initial =
     [descriptor_of 0 0,
      descriptor_of 0x00cf9a00 0x0000ffff,
      descriptor_of 0x00cf9200 0x0000ffff,
      descriptor_of 0 0,
      descriptor_of 0 0,
      descriptor_of 0 0,
      descriptor_of 0x00cffa00 0x0000ffff,
      descriptor_of 0x00cff200 0x0000ffff]"

text \<open>What the processor reads out of a descriptor.\<close>

definition descriptor_base :: "segment_descriptor \<Rightarrow> u32" where
  "descriptor_base d = ucast (base0 d) OR push_bit 16 (ucast (base1 d)) OR push_bit 24 (ucast (base2 d))"

definition descriptor_limit :: "segment_descriptor \<Rightarrow> u32" where
  "descriptor_limit d = ucast (limit0 d) OR push_bit 16 (ucast (limit1 d))"

lemma length_gdt_initial [simp]: "length gdt_initial = GDT_SIZE"
  by (simp add: gdt_initial_def GDT_SIZE_def)

text \<open>An available 32-bit task state segment (the busy bit, which the processor sets, is left out).\<close>

definition is_tss :: "segment_descriptor \<Rightarrow> bool" where
  "is_tss d \<longleftrightarrow> sd_s d = 0 \<and> sd_type d = 9 \<and> sd_p d = 1"

section \<open>Task state segment\<close>

record tss =
  back_link :: u16
  blh :: u16
  tss_esp0 :: u32
  tss_ss0 :: u16
  ss0h :: u16
  tss_esp1 :: u32
  tss_ss1 :: u16
  ss1h :: u16
  tss_esp2 :: u32
  tss_ss2 :: u16
  ss2h :: u16
  tss_cr3 :: u32
  tss_eip :: u32
  tss_eflags :: u32
  tss_eax :: u32
  tss_ecx :: u32
  tss_edx :: u32
  tss_ebx :: u32
  tss_esp :: u32
  tss_ebp :: u32
  tss_esi :: u32
  tss_edi :: u32
  tss_es :: u16
  esh :: u16
  tss_cs :: u16
  csh :: u16
  tss_ss :: u16
  ssh :: u16
  tss_ds :: u16
  dsh :: u16
  tss_fs :: u16
  fsh :: u16
  tss_gs :: u16
  gsh :: u16
  tss_ldt :: u16
  ldth :: u16
  tss_trace :: u16
  io_bitmap_base :: u16

text \<open>\<^verbatim>\<open>sizeof(struct tss)\<close>: 24 shorts and 14 ints, without padding.\<close>

definition sizeof_tss :: u32 where
  "sizeof_tss = 104"

text \<open>A task state segment in zeroed static storage.\<close>

definition tss_zero :: tss where
  "tss_zero = tss.make 0 0 0 0 0 0 0 0 0 0 0 0 0 0 0 0 0 0 0 0 0 0 0 0 0 0 0 0 0 0 0 0 0 0 0 0 0 0"

section \<open>Interrupt gates\<close>

definition INTR_NUM_USER128 :: u8 where
  "INTR_NUM_USER128 = 0x80"

text \<open>The interrupt descriptor table: its words, two for each vector.\<close>

definition intr_set_handler :: "u8 \<Rightarrow> u32 \<Rightarrow> (nat \<Rightarrow> u32) \<Rightarrow> (nat \<Rightarrow> u32)" where
  "intr_set_handler intr_num handler_addr idt =
     (let bottom = handler_addr;
          top = 0x00080000;
          top = (top AND 0xffff0000) OR (bottom AND 0x0000ffff);
          bottom = (bottom AND 0xffff0000) OR 0x00008e00;
          bottom = (if intr_num = INTR_NUM_USER128 then bottom OR push_bit 13 3 else bottom);
          i = unat intr_num * 2
      in idt(i := top, i + 1 := bottom))"

text \<open>The fields of a gate, as the processor decodes the two words.\<close>

record gate =
  gate_offset :: u32
  gate_selector :: u16
  gate_type :: u8
  gate_dpl :: "2 word"
  gate_present :: bool

definition gate_of :: "(nat \<Rightarrow> u32) \<Rightarrow> u8 \<Rightarrow> gate" where
  "gate_of idt v =
     (let a = idt (unat v * 2); b = idt (unat v * 2 + 1)
      in \<lparr>gate_offset = (b AND 0xffff0000) OR (a AND 0x0000ffff),
          gate_selector = ucast (drop_bit 16 a),
          gate_type = ucast (drop_bit 8 b) AND 0x1f,
          gate_dpl = ucast (drop_bit 13 b),
          gate_present = bit b 15\<rparr>)"

section \<open>Interrupt controllers\<close>

definition IOADR_MPIC_OCW2 :: u16 where "IOADR_MPIC_OCW2 = 0x0020"
definition IOADR_MPIC_OCW2_BIT_MANUAL_EOI :: u8 where "IOADR_MPIC_OCW2_BIT_MANUAL_EOI = 0x60"
definition IOADR_MPIC_ICW1 :: u16 where "IOADR_MPIC_ICW1 = 0x0020"
definition IOADR_MPIC_ICW2 :: u16 where "IOADR_MPIC_ICW2 = 0x0021"
definition IOADR_MPIC_ICW3 :: u16 where "IOADR_MPIC_ICW3 = 0x0021"
definition IOADR_MPIC_ICW4 :: u16 where "IOADR_MPIC_ICW4 = 0x0021"
definition IOADR_MPIC_OCW1 :: u16 where "IOADR_MPIC_OCW1 = 0x0021"
definition IOADR_SPIC_ICW1 :: u16 where "IOADR_SPIC_ICW1 = 0x00a0"
definition IOADR_SPIC_ICW2 :: u16 where "IOADR_SPIC_ICW2 = 0x00a1"
definition IOADR_SPIC_ICW3 :: u16 where "IOADR_SPIC_ICW3 = 0x00a1"
definition IOADR_SPIC_ICW4 :: u16 where "IOADR_SPIC_ICW4 = 0x00a1"
definition IOADR_SPIC_OCW1 :: u16 where "IOADR_SPIC_OCW1 = 0x00a1"

definition intr_init :: "'a machine_scheme \<Rightarrow> 'a machine_scheme" where
  "intr_init s =
     (let s = outb_p 0x11 IOADR_MPIC_ICW1 s;
          s = outb_p 0x20 IOADR_MPIC_ICW2 s;
          s = outb_p 0x04 IOADR_MPIC_ICW3 s;
          s = outb_p 0x01 IOADR_MPIC_ICW4 s;
          s = outb_p 0xff IOADR_MPIC_OCW1 s;
          s = outb_p 0x11 IOADR_SPIC_ICW1 s;
          s = outb_p 0x28 IOADR_SPIC_ICW2 s;
          s = outb_p 0x02 IOADR_SPIC_ICW3 s;
          s = outb_p 0x01 IOADR_SPIC_ICW4 s
      in outb_p 0xff IOADR_SPIC_OCW1 s)"

definition intr_set_mask_master :: "u8 \<Rightarrow> 'a machine_scheme \<Rightarrow> 'a machine_scheme" where
  "intr_set_mask_master msk s = outb_p msk IOADR_MPIC_OCW1 s"

definition intr_get_mask_master :: "device \<Rightarrow> 'a machine_scheme \<Rightarrow> u8 \<times> 'a machine_scheme" where
  "intr_get_mask_master dev s = inb_p dev IOADR_MPIC_OCW1 s"

definition intr_set_mask_slave :: "u8 \<Rightarrow> 'a machine_scheme \<Rightarrow> 'a machine_scheme" where
  "intr_set_mask_slave msk s = outb_p msk IOADR_SPIC_OCW1 s"

definition intr_get_mask_slave :: "device \<Rightarrow> 'a machine_scheme \<Rightarrow> u8 \<times> 'a machine_scheme" where
  "intr_get_mask_slave dev s = inb_p dev IOADR_SPIC_OCW1 s"

section \<open>Lemmas\<close>

lemma descriptor_base_fields:
  assumes "base0 d = ucast (b AND 0x0000ffff)"
    and "base1 d = ucast (drop_bit 16 (b AND 0x00ff0000))"
    and "base2 d = ucast (drop_bit 24 (b AND 0xff000000))"
  shows "descriptor_base d = b"
proof (rule bit_word_eqI)
  fix n assume "n < LENGTH(32)"
  then consider "n < 16" | "16 \<le> n" "n < 24" | "24 \<le> n" "n < 32"
    by fastforce
  then show "bit (descriptor_base d) n = bit b n"
    by cases (auto simp: descriptor_base_def assms masks bit_simps)
qed

lemma descriptor_limit_fields:
  assumes "limit0 d = ucast (l AND 0x0000ffff)"
    and "limit1 d = ucast (drop_bit 16 (l AND 0x000f0000))"
  shows "descriptor_limit d = l AND 0x000fffff"
proof (rule bit_word_eqI)
  fix n assume "n < LENGTH(32)"
  then consider "n < 16" | "16 \<le> n" "n < 20" | "20 \<le> n" "n < 32"
    by fastforce
  then show "bit (descriptor_limit d) n = bit (l AND 0x000fffff) n"
    by cases (auto simp: descriptor_limit_def assms masks bit_simps)
qed

text \<open>The constants of a gate, as runs of ones.\<close>

lemma bit_0x8e00: "bit (0x8e00 :: int) n \<longleftrightarrow> n \<in> {9, 10, 11, 15}"
proof -
  have "(0x8e00 :: int) = 0x200 OR (0x400 OR (0x800 OR 0x8000))" by simp
  moreover have "bit (0x200 :: int) n \<longleftrightarrow> n = 9" "bit (0x400 :: int) n \<longleftrightarrow> n = 10"
    "bit (0x800 :: int) n \<longleftrightarrow> n = 11" "bit (0x8000 :: int) n \<longleftrightarrow> n = 15"
    by (rule bit_pow2; simp)+
  ultimately show ?thesis by (simp only: bit_or_iff) simp
qed

lemma bit_0x0e: "bit (0x0e :: int) n \<longleftrightarrow> n \<in> {1, 2, 3}"
proof -
  have "(0x0e :: int) = 2 OR (4 OR 8)" by simp
  moreover have "bit (2 :: int) n \<longleftrightarrow> n = 1" "bit (4 :: int) n \<longleftrightarrow> n = 2" "bit (8 :: int) n \<longleftrightarrow> n = 3"
    by (rule bit_pow2; simp)+
  ultimately show ?thesis by (simp only: bit_or_iff) simp
qed

lemma bit_0x80000: "bit (0x80000 :: int) n \<longleftrightarrow> n = 19"
  by (rule bit_pow2) simp_all

lemma bit_selector_8: "bit (8 :: int) n \<longleftrightarrow> n = 3"
  by (rule bit_pow2) simp_all

lemma gate_masks:
  "(3 :: u32) = mask 2" "(0x1f :: u8) = mask 5" "(3 :: 2 word) = mask 2"
  by (simp_all add: mask_eq_exp_minus_1)

lemmas gate_bits = bit_0x8e00 bit_0x0e bit_0x80000 bit_selector_8

text \<open>The two words \<^verbatim>\<open>intr_set_handler\<close> stores, and the fields the processor finds in them.\<close>

definition gate_top :: "u32 \<Rightarrow> u32" where
  "gate_top h = (0x00080000 AND 0xffff0000) OR (h AND 0x0000ffff)"

definition gate_bottom :: "bool \<Rightarrow> u32 \<Rightarrow> u32" where
  "gate_bottom user h = (let b = (h AND 0xffff0000) OR 0x00008e00
     in if user then b OR push_bit 13 3 else b)"

lemma intr_set_handler_words:
  "intr_set_handler v h idt =
     idt(unat v * 2 := gate_top h, unat v * 2 + 1 := gate_bottom (v = INTR_NUM_USER128) h)"
  by (simp add: intr_set_handler_def gate_top_def gate_bottom_def Let_def)

lemma gate_offset_join: "(gate_bottom u h AND 0xffff0000) OR (gate_top h AND 0x0000ffff) = h"
  unfolding gate_bottom_def gate_top_def Let_def masks gate_masks
  by (rule bit_word_eqI) (auto simp: bit_simps gate_bits)

lemma gate_selector_bits: "ucast (drop_bit 16 (gate_top h)) = (8 :: u16)"
  unfolding gate_top_def masks gate_masks
  by (rule bit_word_eqI) (auto simp: bit_simps gate_bits)

lemma gate_type_bits: "ucast (drop_bit 8 (gate_bottom u h)) AND 0x1f = (0x0e :: u8)"
  unfolding gate_bottom_def Let_def masks gate_masks
  by (rule bit_word_eqI) (auto simp: bit_simps gate_bits)

lemma gate_dpl_bits: "ucast (drop_bit 13 (gate_bottom u h)) = (if u then 3 else 0 :: 2 word)"
  unfolding gate_bottom_def Let_def masks gate_masks
  by (rule bit_word_eqI) (auto simp: bit_simps gate_bits)

lemma gate_present_bit: "bit (gate_bottom u h) 15"
  unfolding gate_bottom_def Let_def masks gate_masks
  by (simp add: bit_simps gate_bits)

text \<open>
  \<^verbatim>\<open>init_gdt\<close> on an index inside the table makes the entry a present one of type 9: the
  processor reads back the base, the low twenty bits of the limit and the privilege level that were
  passed. It does not write the S bit, so that the entry is an available task state segment only where
  it was a system descriptor before. No other entry changes.
\<close>

lemma init_gdt_decodes:
  assumes "unat idx < length gdt"
  shows "\<exists>gdt'. init_gdt idx base limit dpl gdt = Some gdt'
    \<and> descriptor_base (gdt' ! unat idx) = base
    \<and> descriptor_limit (gdt' ! unat idx) = limit AND 0x000fffff
    \<and> sd_dpl (gdt' ! unat idx) = ucast dpl
    \<and> sd_type (gdt' ! unat idx) = 9 \<and> sd_p (gdt' ! unat idx) = 1
    \<and> sd_s (gdt' ! unat idx) = sd_s (gdt ! unat idx)
    \<and> length gdt' = length gdt \<and> (\<forall>j. j \<noteq> unat idx \<longrightarrow> gdt' ! j = gdt ! j)"
  using assms
  by (auto simp: init_gdt_def intro!: descriptor_base_fields descriptor_limit_fields)

text \<open>
  \<^verbatim>\<open>intr_set_handler\<close> installs an interrupt gate that the processor decodes as the handler's
  address in the kernel code segment (selector 8), present, of type 14, callable from user mode
  exactly for the system call vector 0x80; every other vector keeps its gate.
\<close>

lemma intr_set_handler_gate:
  "gate_of (intr_set_handler v h idt) w =
     (if w = v then \<lparr>gate_offset = h, gate_selector = 8, gate_type = 0x0e,
        gate_dpl = (if v = INTR_NUM_USER128 then 3 else 0), gate_present = True\<rparr>
      else gate_of idt w)"
proof (cases "w = v")
  case True
  then show ?thesis
    by (simp add: gate_of_def intr_set_handler_words Let_def gate_offset_join gate_selector_bits
        gate_type_bits gate_dpl_bits gate_present_bit)
next
  case False
  then have "unat w \<noteq> unat v" by (simp add: word_unat_eq_iff)
  then have "unat w * 2 \<noteq> unat v * 2" "unat w * 2 + 1 \<noteq> unat v * 2"
    "unat w * 2 \<noteq> unat v * 2 + 1" "unat w * 2 + 1 \<noteq> unat v * 2 + 1"
    by presburger+
  with False show ?thesis by (simp add: gate_of_def intr_set_handler_words)
qed

end
