(* ===== verification/Dlist_Chain.thy ===== *)
theory Dlist_Chain
  imports Prelude
begin

text \<open>
  Circular doubly linked lists over an arbitrary pointer store: the shape both \<^verbatim>\<open>queue.c\<close> (a list
  with a separate head) and \<^verbatim>\<open>sched.c\<close> (a ring of tasks) maintain. \<open>chain nx pv a xs b\<close> says that
  the \<open>next\<close> pointers lead from \<open>a\<close> through exactly \<open>xs\<close> to \<open>b\<close> and the \<open>prev\<close> pointers lead back.
\<close>

section \<open>Chains\<close>

fun chain :: "('p \<Rightarrow> 'p) \<Rightarrow> ('p \<Rightarrow> 'p) \<Rightarrow> 'p \<Rightarrow> 'p list \<Rightarrow> 'p \<Rightarrow> bool" where
  "chain nx pv a [] b \<longleftrightarrow> nx a = b \<and> pv b = a"
| "chain nx pv a (x # xs) b \<longleftrightarrow> nx a = x \<and> pv x = a \<and> chain nx pv x xs b"

lemma chain_append:
  "chain nx pv a (xs @ y # ys) b \<longleftrightarrow> chain nx pv a xs y \<and> chain nx pv y ys b"
  by (induction xs arbitrary: a) auto

lemma chain_cong:
  "chain nx pv a xs b \<Longrightarrow> (\<And>x. x \<in> set (a # xs) \<Longrightarrow> nx' x = nx x)
   \<Longrightarrow> (\<And>x. x \<in> set (b # xs) \<Longrightarrow> pv' x = pv x) \<Longrightarrow> chain nx' pv' a xs b"
  by (induction xs arbitrary: a) auto

text \<open>A chain is determined by its links and its ends.\<close>

lemma chain_unique:
  "chain nx pv a xs z \<Longrightarrow> chain nx pv a ys z \<Longrightarrow> z \<notin> set xs \<Longrightarrow> z \<notin> set ys \<Longrightarrow> xs = ys"
proof (induction xs arbitrary: a ys)
  case Nil
  then show ?case by (cases ys) auto
next
  case (Cons x xs)
  then show ?case by (cases ys) auto
qed

lemma chain_first: "chain nx pv a xs b \<Longrightarrow> nx a = hd (xs @ [b])"
  by (cases xs) auto

lemma chain_last: "chain nx pv a xs b \<Longrightarrow> pv b = last (a # xs)"
  by (induction xs arbitrary: a) auto

lemma chain_rotate: "chain nx pv h (y # ys) h \<longleftrightarrow> chain nx pv y (ys @ [h]) y"
  using chain_append [of nx pv y ys h "[]" y] by auto

text \<open>Linking \<open>t\<close> in before \<open>h\<close>, that is, at the end of the ring that starts at \<open>h\<close>.\<close>

lemma chain_link_end:
  assumes c: "chain nx pv h xs h" and d: "distinct (h # xs)" and t: "t \<notin> set (h # xs)"
  shows "chain ((nx(t := h))(pv h := t)) ((pv(t := pv h))(h := t)) h (xs @ [t]) h"
proof -
  let ?nx = "(nx(t := h))(pv h := t)" and ?pv = "(pv(t := pv h))(h := t)"
  have "chain ?nx ?pv h xs t"
  proof (cases xs rule: rev_cases)
    case Nil
    with c t show ?thesis by auto
  next
    case (snoc ys z)
    with c have z: "pv h = z" and ys: "chain nx pv h ys z"
      using chain_append [of nx pv h ys z "[]" h] by auto
    have "chain ?nx ?pv h ys z"
      by (rule chain_cong [OF ys]) (use snoc d t z in auto)
    with snoc z t d show ?thesis by (auto simp: chain_append)
  qed
  moreover have "pv h \<in> set (h # xs)" using chain_last [OF c] by (metis last_in_set list.discI)
  ultimately show ?thesis using t by (auto simp: chain_append)
qed

text \<open>Unlinking \<open>t\<close>.\<close>

lemma chain_unlink:
  assumes c: "chain nx pv h (ys @ t # zs) h" and d: "distinct (h # ys @ t # zs)"
  shows "chain (nx(pv t := nx t)) (pv(nx t := pv t)) h (ys @ zs) h"
proof -
  from c have y: "chain nx pv h ys t" and z: "chain nx pv t zs h"
    by (simp_all add: chain_append)
  let ?p = "last (h # ys)" and ?n = "hd (zs @ [h])"
  have p: "pv t = ?p" using chain_last [OF y] .
  have n: "nx t = ?n" using chain_first [OF z] .
  have "chain (nx(?p := ?n)) (pv(?n := ?p)) h ys ?n"
  proof (cases ys rule: rev_cases)
    case Nil
    then show ?thesis by simp
  next
    case (snoc us u)
    with y have us: "chain nx pv h us u" by (simp add: chain_append)
    have "chain (nx(u := ?n)) (pv(?n := u)) h us u"
      by (rule chain_cong [OF us]) (use snoc d in \<open>cases zs; auto\<close>)+
    with snoc show ?thesis by (simp add: chain_append)
  qed
  then show ?thesis
  proof (cases zs)
    case Nil
    then show ?thesis using \<open>chain _ _ h ys ?n\<close> p n by simp
  next
    case (Cons v vs)
    with z have vs: "chain nx pv v vs h" by simp
    have "chain (nx(?p := v)) (pv(v := ?p)) v vs h"
      by (rule chain_cong [OF vs]) (use Cons d in \<open>cases ys rule: rev_cases; auto\<close>)+
    with Cons \<open>chain _ _ h ys ?n\<close> show ?thesis by (simp add: p n chain_append)
  qed
qed

section \<open>The store interface\<close>

text \<open>
  What a client of linked nodes uses of its store: the two pointers of a node and their setters.
  The setters write one pointer of one node and nothing else.
\<close>

locale link_store =
  fixes nxt :: "'s \<Rightarrow> 'p \<Rightarrow> 'p" and prv :: "'s \<Rightarrow> 'p \<Rightarrow> 'p"
    and set_nxt :: "'p \<Rightarrow> 'p \<Rightarrow> 's \<Rightarrow> 's" and set_prv :: "'p \<Rightarrow> 'p \<Rightarrow> 's \<Rightarrow> 's"
  assumes nxt_set_nxt: "nxt (set_nxt p v s) = (nxt s)(p := v)"
    and prv_set_nxt: "prv (set_nxt p v s) = prv s"
    and nxt_set_prv: "nxt (set_prv p v s) = nxt s"
    and prv_set_prv: "prv (set_prv p v s) = (prv s)(p := v)"
begin

lemmas set_links = nxt_set_nxt prv_set_nxt nxt_set_prv prv_set_prv

text \<open>The four assignments of an enqueue.\<close>

lemma link_end:
  assumes "chain (nxt s) (prv s) h xs h" and "distinct (h # xs)" and "t \<notin> set (h # xs)"
  defines "s1 \<equiv> set_nxt t h (set_prv t (prv s h) s)"
  defines "s2 \<equiv> set_nxt (prv s1 h) t s1"
  shows "chain (nxt (set_prv h t s2)) (prv (set_prv h t s2)) h (xs @ [t]) h"
proof -
  from assms(3) have "prv s1 h = prv s h" by (simp add: s1_def set_links)
  then show ?thesis
    using chain_link_end [OF assms(1-3)] by (simp add: s1_def s2_def set_links)
qed

text \<open>The two assignments of a delete.\<close>

lemma unlink:
  assumes "chain (nxt s) (prv s) h (ys @ t # zs) h" and "distinct (h # ys @ t # zs)"
  defines "s1 \<equiv> set_nxt (prv s t) (nxt s t) s"
  shows "chain (nxt (set_prv (nxt s1 t) (prv s1 t) s1))
    (prv (set_prv (nxt s1 t) (prv s1 t) s1)) h (ys @ zs) h"
proof -
  have c: "chain (nxt s) (prv s) h ys t" using assms(1) by (simp add: chain_append)
  then have "prv s t = last (h # ys)" by (rule chain_last)
  with assms(2) have "prv s t \<noteq> t" using last_in_set [of "h # ys"] by auto
  then have "nxt s1 t = nxt s t" and "prv s1 t = prv s t" by (simp_all add: s1_def set_links)
  then show ?thesis
    using chain_unlink [OF assms(1,2)] by (simp add: s1_def set_links)
qed

text \<open>The empty ring after \<^verbatim>\<open>queue_init\<close>, the ring of one after an enqueue to an empty queue.\<close>

lemma self_link:
  "chain (nxt (set_prv h h (set_nxt h h s))) (prv (set_prv h h (set_nxt h h s))) h [] h"
  "chain (nxt (set_nxt h h (set_prv h h s))) (prv (set_nxt h h (set_prv h h s))) h [] h"
  by (simp_all add: set_links)

end

section \<open>The queue interface\<close>

text \<open>
  What the kernel promises of every queue of linked nodes: \<open>holds s xs\<close> relates the state to the
  entries in order, \<open>ok\<close> says which nodes may be entries at all. An enqueue appends, a delete takes
  out one entry wherever it is. Provided by \<^verbatim>\<open>queue.c\<close> and by the three queues of \<^verbatim>\<open>sched.c\<close>.
\<close>

locale list_queue =
  fixes holds :: "'s \<Rightarrow> 'p list \<Rightarrow> bool" and ok :: "'p \<Rightarrow> bool"
    and enq :: "'p \<Rightarrow> 's \<Rightarrow> 's" and del :: "'p \<Rightarrow> 's \<Rightarrow> 's"
  assumes holds_distinct: "holds s xs \<Longrightarrow> distinct xs"
    and holds_enq: "holds s xs \<Longrightarrow> ok t \<Longrightarrow> t \<notin> set xs \<Longrightarrow> holds (enq t s) (xs @ [t])"
    and holds_del: "holds s (ys @ t # zs) \<Longrightarrow> holds (del t s) (ys @ zs)"
begin

lemma holds_del_remove1:
  assumes "holds s xs" and "t \<in> set xs"
  shows "holds (del t s) (remove1 t xs)"
proof -
  from assms(2) obtain ys zs where xs: "xs = ys @ t # zs" by (blast dest: split_list)
  with assms(1) have "distinct (ys @ t # zs)" by (blast dest: holds_distinct)
  then have "remove1 t xs = ys @ zs" unfolding xs by (rule remove1_middle)
  with assms(1) holds_del xs show ?thesis by simp
qed

lemma holds_enq_all:
  "holds s xs \<Longrightarrow> list_all ok ts \<Longrightarrow> distinct (xs @ ts) \<Longrightarrow> holds (fold enq ts s) (xs @ ts)"
proof (induction ts arbitrary: s xs)
  case Nil
  then show ?case by simp
next
  case (Cons t ts)
  from Cons.prems have "holds (enq t s) (xs @ [t])" by (intro holds_enq) auto
  from Cons.IH [OF this] Cons.prems show ?case by simp
qed

lemma holds_del_all: "holds s (ts @ xs) \<Longrightarrow> holds (fold del ts s) xs"
proof (induction ts arbitrary: s)
  case Nil
  then show ?case by simp
next
  case (Cons t ts)
  from Cons.prems have "holds (del t s) (ts @ xs)" using holds_del [of s "[]"] by simp
  from Cons.IH [OF this] show ?case by simp
qed

text \<open>First in, first out: what was queued behind \<open>xs\<close> is left when \<open>xs\<close> has been served.\<close>

lemma fifo:
  assumes "holds s xs" and "list_all ok ts" and "distinct (xs @ ts)"
  shows "holds (fold del xs (fold enq ts s)) ts"
  using holds_del_all holds_enq_all [OF assms] .

end

end
