(* ===== verification/Sched.thy ===== *)
theory Sched
  imports Cpu Dlist_Chain
begin

text \<open>
  The scheduler, \<^verbatim>\<open>kernel/sched.c\<close>: the run queue, the two wait queues (for time and for events),
  the round robin switch, and the wake-up loops called from the timer and keyboard interrupts.

  A \<^verbatim>\<open>struct task *\<close> is null, the address of the static \<^verbatim>\<open>dummy_task\<close>, of an element of
  \<^verbatim>\<open>task_instance_table\<close>, or of a page from \<^verbatim>\<open>mem_alloc\<close> (\<open>THeap\<close> of its address). The tasks
  themselves are in the field \<open>tasks\<close>, a store from pointers to task structures.
\<close>

section \<open>State\<close>

datatype tptr = TNull | TDummy | TInst nat | THeap u32

text \<open>The function pointer \<^verbatim>\<open>context_switch\<close>: null, the kernel task's function, or the task's own code.\<close>

datatype ctx_fn = CtxNull | CtxKern | CtxOwn

record task =
  t_prev :: tptr
  t_next :: tptr
  task_id :: u16
  tss_of :: tss
  context_switch :: ctx_fn
  context_switch_func :: "u8 list"
  task_switched_in_time_slice :: u8
  wakeup_msec :: u32
  wakeup_event :: u8

record tqueue =
  q_head :: tptr
  q_len :: u32

record sched_state = machine +
  current_task :: tptr
  run_queue :: tqueue
  wakeup_queue :: tqueue
  wakeup_event_queue :: tqueue
  tasks :: "tptr \<Rightarrow> task"

definition KERN_TASK_ID :: nat where "KERN_TASK_ID = 0"
definition SCHED_CAUSE_TIMER :: u8 where "SCHED_CAUSE_TIMER = 0"
definition SCHED_CAUSE_SYSCALL :: u8 where "SCHED_CAUSE_SYSCALL = 1"
definition TIMER_TICK_MS :: u32 where "TIMER_TICK_MS = 10"
definition INTR_IR_TIMER :: u8 where "INTR_IR_TIMER = 0"

section \<open>Writing one field of one task\<close>

type_synonym tstore = "tptr \<Rightarrow> task"

definition set_t_next :: "tptr \<Rightarrow> tptr \<Rightarrow> tstore \<Rightarrow> tstore" where
  "set_t_next t v T = T(t := (T t)\<lparr>t_next := v\<rparr>)"

definition set_t_prev :: "tptr \<Rightarrow> tptr \<Rightarrow> tstore \<Rightarrow> tstore" where
  "set_t_prev t v T = T(t := (T t)\<lparr>t_prev := v\<rparr>)"

definition set_switched :: "tptr \<Rightarrow> u8 \<Rightarrow> tstore \<Rightarrow> tstore" where
  "set_switched t v T = T(t := (T t)\<lparr>task_switched_in_time_slice := v\<rparr>)"

definition set_msec :: "tptr \<Rightarrow> u32 \<Rightarrow> tstore \<Rightarrow> tstore" where
  "set_msec t v T = T(t := (T t)\<lparr>wakeup_msec := v\<rparr>)"

definition set_event :: "tptr \<Rightarrow> u8 \<Rightarrow> tstore \<Rightarrow> tstore" where
  "set_event t v T = T(t := (T t)\<lparr>wakeup_event := v\<rparr>)"

section \<open>Queue operations\<close>

text \<open>The body of the three enqueue functions, between lock and unlock, on one queue.\<close>

definition tq_enq :: "tptr \<Rightarrow> tstore \<times> tqueue \<Rightarrow> tstore \<times> tqueue" where
  "tq_enq t = (\<lambda>(T, q).
     let (T, q) =
       (if q_head q \<noteq> TNull then
          (let T = set_t_prev t (t_prev (T (q_head q))) T;
               T = set_t_next t (q_head q) T;
               T = set_t_next (t_prev (T (q_head q))) t T;
               T = set_t_prev (q_head q) t T
           in (T, q))
        else
          (let T = set_t_prev t t T;
               T = set_t_next t t T
           in (T, q\<lparr>q_head := t\<rparr>)))
     in (T, q\<lparr>q_len := q_len q + 1\<rparr>))"

text \<open>The body of the three delete functions, between lock and unlock.\<close>

definition tq_del :: "tptr \<Rightarrow> tstore \<times> tqueue \<Rightarrow> tstore \<times> tqueue" where
  "tq_del t = (\<lambda>(T, q).
     let (T, q) =
       (if t_next (T (q_head q)) \<noteq> q_head q then
          (let q = (if q_head q = t then q\<lparr>q_head := t_next (T (q_head q))\<rparr> else q);
               T = set_t_next (t_prev (T t)) (t_next (T t)) T;
               T = set_t_prev (t_next (T t)) (t_prev (T t)) T
           in (T, q))
        else (T, q\<lparr>q_head := TNull\<rparr>))
     in (T, q\<lparr>q_len := q_len q - 1\<rparr>))"

definition sched_runq_enq :: "tptr \<Rightarrow> 'a sched_state_scheme \<Rightarrow> int \<times> 'a sched_state_scheme" where
  "sched_runq_enq t s =
     (let (if_bit, s) = kern_lock s;
          (T, q) = tq_enq t (tasks s, run_queue s);
          s = s\<lparr>tasks := T, run_queue := q\<rparr>
      in (0, kern_unlock if_bit s))"

definition sched_runq_del :: "tptr \<Rightarrow> 'a sched_state_scheme \<Rightarrow> int \<times> 'a sched_state_scheme" where
  "sched_runq_del t s =
     (if q_head (run_queue s) = TNull then (- 1, s)
      else let (if_bit, s) = kern_lock s;
               (T, q) = tq_del t (tasks s, run_queue s);
               s = s\<lparr>tasks := T, run_queue := q\<rparr>
           in (0, kern_unlock if_bit s))"

definition sched_wakeupq_enq :: "tptr \<Rightarrow> 'a sched_state_scheme \<Rightarrow> int \<times> 'a sched_state_scheme" where
  "sched_wakeupq_enq t s =
     (let (if_bit, s) = kern_lock s;
          (T, q) = tq_enq t (tasks s, wakeup_queue s);
          s = s\<lparr>tasks := T, wakeup_queue := q\<rparr>
      in (0, kern_unlock if_bit s))"

definition sched_wakeupq_del :: "tptr \<Rightarrow> 'a sched_state_scheme \<Rightarrow> int \<times> 'a sched_state_scheme" where
  "sched_wakeupq_del t s =
     (if q_head (wakeup_queue s) = TNull then (- 1, s)
      else let (if_bit, s) = kern_lock s;
               (T, q) = tq_del t (tasks s, wakeup_queue s);
               s = s\<lparr>tasks := T, wakeup_queue := q\<rparr>
           in (0, kern_unlock if_bit s))"

definition sched_wakeupevq_enq :: "tptr \<Rightarrow> 'a sched_state_scheme \<Rightarrow> int \<times> 'a sched_state_scheme" where
  "sched_wakeupevq_enq t s =
     (let (if_bit, s) = kern_lock s;
          (T, q) = tq_enq t (tasks s, wakeup_event_queue s);
          s = s\<lparr>tasks := T, wakeup_event_queue := q\<rparr>
      in (0, kern_unlock if_bit s))"

definition sched_wakeupevq_del :: "tptr \<Rightarrow> 'a sched_state_scheme \<Rightarrow> int \<times> 'a sched_state_scheme" where
  "sched_wakeupevq_del t s =
     (if q_head (wakeup_event_queue s) = TNull then (- 1, s)
      else let (if_bit, s) = kern_lock s;
               (T, q) = tq_del t (tasks s, wakeup_event_queue s);
               s = s\<lparr>tasks := T, wakeup_event_queue := q\<rparr>
           in (0, kern_unlock if_bit s))"

section \<open>Switching\<close>

definition sched_get_current :: "'a sched_state_scheme \<Rightarrow> u16" where
  "sched_get_current s = x86_get_tr s div 8"

text \<open>
  \<^verbatim>\<open>t->context_switch()\<close>. The task's own code is \<^verbatim>\<open>ljmp\<close> at byte 3, whose selector is in bytes 8
  and 9; the kernel task's function jumps to selector 0x18 (\<^verbatim>\<open>kern_task_init.c\<close>).
\<close>

definition kern_task_context_switch :: "'a machine_scheme \<Rightarrow> 'a machine_scheme" where
  "kern_task_context_switch s = ljmp_tss 0x18 s"

declare kern_task_context_switch_def [simp]

definition run_context_switch :: "tptr \<Rightarrow> 'a sched_state_scheme \<Rightarrow> 'a sched_state_scheme" where
  "run_context_switch t s =
     (case context_switch (tasks s t) of
        CtxNull \<Rightarrow> s\<lparr>trace := NullCall # trace s\<rparr>
      | CtxKern \<Rightarrow> kern_task_context_switch s
      | CtxOwn \<Rightarrow>
          ljmp_tss (ucast (context_switch_func (tasks s t) ! 8)
            OR push_bit 8 (ucast (context_switch_func (tasks s t) ! 9))) s)"

definition timer_eoi :: "'a sched_state_scheme \<Rightarrow> 'a sched_state_scheme" where
  "timer_eoi s = outb_p (IOADR_MPIC_OCW2_BIT_MANUAL_EOI OR INTR_IR_TIMER) IOADR_MPIC_OCW2 s"

definition schedule :: "u8 \<Rightarrow> 'a sched_state_scheme \<Rightarrow> 'a sched_state_scheme" where
  "schedule cause_id s =
     (if cause_id = SCHED_CAUSE_TIMER \<and> current_task s \<noteq> TNull
         \<and> task_switched_in_time_slice (tasks s (current_task s)) \<noteq> 0 then
        timer_eoi (s\<lparr>tasks := set_switched (current_task s) 0 (tasks s)\<rparr>)
      else
        (let s = (if current_task s \<noteq> TNull
                  then s\<lparr>tasks := set_switched (current_task s) 0 (tasks s)\<rparr> else s)
         in if q_head (run_queue s) = TNull then
              (if current_task s = TNull then timer_eoi s
               else run_context_switch (TInst KERN_TASK_ID) (timer_eoi (s\<lparr>current_task := TNull\<rparr>)))
            else if current_task s \<noteq> TNull then
              (if current_task s \<noteq> t_next (tasks s (current_task s)) then
                 (let s = s\<lparr>current_task := t_next (tasks s (current_task s))\<rparr>;
                      s = (if cause_id = SCHED_CAUSE_SYSCALL
                           then s\<lparr>tasks := set_switched (current_task s) 1 (tasks s)\<rparr> else s)
                  in run_context_switch (current_task s) (timer_eoi s))
               else timer_eoi s)
            else
              (let s = s\<lparr>current_task := q_head (run_queue s)\<rparr>;
                   s = (if cause_id = SCHED_CAUSE_SYSCALL
                        then s\<lparr>tasks := set_switched (current_task s) 1 (tasks s)\<rparr> else s)
               in run_context_switch (current_task s) (timer_eoi s))))"

section \<open>Waking and blocking\<close>

text \<open>
  The \<^verbatim>\<open>do ... while\<close> of \<^verbatim>\<open>sched_update_wakeupq\<close> from task \<open>t\<close>; \<^const>\<open>None\<close> if it never ends (which
  a damaged ring could cause).
\<close>

partial_function (option) wakeupq_loop ::
  "tptr \<Rightarrow> 'a sched_state_scheme \<Rightarrow> 'a sched_state_scheme option" where
  "wakeupq_loop t s =
     (let nxt = t_next (tasks s t);
          s = (if wakeup_msec (tasks s t) > TIMER_TICK_MS then
                 s\<lparr>tasks := set_msec t (wakeup_msec (tasks s t) - TIMER_TICK_MS) (tasks s)\<rparr>
               else
                 (let s = s\<lparr>tasks := set_msec t 0 (tasks s)\<rparr>;
                      s = snd (sched_wakeupq_del t s)
                  in snd (sched_runq_enq t s)))
      in if q_head (wakeup_queue s) \<noteq> TNull \<and> nxt \<noteq> q_head (wakeup_queue s)
         then wakeupq_loop nxt s else Some s)"

definition sched_update_wakeupq ::
  "'a sched_state_scheme \<Rightarrow> (int \<times> 'a sched_state_scheme) option" where
  "sched_update_wakeupq s =
     (if q_head (wakeup_queue s) = TNull then Some (- 1, s)
      else let (if_bit, s) = kern_lock s
           in case wakeupq_loop (q_head (wakeup_queue s)) s of
                None \<Rightarrow> None
              | Some s \<Rightarrow> Some (0, kern_unlock if_bit s))"

partial_function (option) wakeupevq_loop ::
  "u8 \<Rightarrow> tptr \<Rightarrow> 'a sched_state_scheme \<Rightarrow> 'a sched_state_scheme option" where
  "wakeupevq_loop event_type t s =
     (let nxt = t_next (tasks s t);
          s = (if wakeup_event (tasks s t) = event_type then
                 (let s = s\<lparr>tasks := set_event t 0 (tasks s)\<rparr>;
                      s = snd (sched_wakeupevq_del t s)
                  in snd (sched_runq_enq t s))
               else s)
      in if q_head (wakeup_event_queue s) \<noteq> TNull \<and> nxt \<noteq> q_head (wakeup_event_queue s)
         then wakeupevq_loop event_type nxt s else Some s)"

definition sched_update_wakeupevq ::
  "u8 \<Rightarrow> 'a sched_state_scheme \<Rightarrow> (int \<times> 'a sched_state_scheme) option" where
  "sched_update_wakeupevq event_type s =
     (if q_head (wakeup_event_queue s) = TNull then Some (- 1, s)
      else let (if_bit, s) = kern_lock s
           in case wakeupevq_loop event_type (q_head (wakeup_event_queue s)) s of
                None \<Rightarrow> None
              | Some s \<Rightarrow> Some (0, kern_unlock if_bit s))"

text \<open>
  The calling task gives up the processor: everything up to and including the switch in
  \<^verbatim>\<open>schedule\<close>. The value returned is the local \<^verbatim>\<open>if_bit\<close>; the rest of the function,
  \<^verbatim>\<open>kern_unlock(&if_bit)\<close>, runs when the task is switched to again (\<open>wakeup_resume\<close>). With no
  current task the first access goes through a null pointer: \<^const>\<open>None\<close>.
\<close>

definition wakeup_after_msec ::
  "u32 \<Rightarrow> 'a sched_state_scheme \<Rightarrow> (u8 \<times> 'a sched_state_scheme) option" where
  "wakeup_after_msec msec s =
     (let (if_bit, s) = kern_lock s
      in if current_task s = TNull then None
         else
           (let cur = current_task s;
                s = (if t_next (tasks s cur) \<noteq> cur
                     then s\<lparr>tasks := set_t_next TDummy (t_next (tasks s cur)) (tasks s)\<rparr> else s);
                s = s\<lparr>tasks := set_msec cur msec (tasks s)\<rparr>;
                s = snd (sched_runq_del cur s);
                s = snd (sched_wakeupq_enq cur s);
                s = s\<lparr>current_task := TDummy\<rparr>
            in Some (if_bit, schedule SCHED_CAUSE_SYSCALL s)))"

definition wakeup_after_event ::
  "u8 \<Rightarrow> 'a sched_state_scheme \<Rightarrow> (u8 \<times> 'a sched_state_scheme) option" where
  "wakeup_after_event event_type s =
     (let (if_bit, s) = kern_lock s
      in if current_task s = TNull then None
         else
           (let cur = current_task s;
                s = (if t_next (tasks s cur) \<noteq> cur
                     then s\<lparr>tasks := set_t_next TDummy (t_next (tasks s cur)) (tasks s)\<rparr> else s);
                s = s\<lparr>tasks := set_event cur event_type (tasks s)\<rparr>;
                s = snd (sched_runq_del cur s);
                s = snd (sched_wakeupevq_enq cur s);
                s = s\<lparr>current_task := TDummy\<rparr>
            in Some (if_bit, schedule SCHED_CAUSE_SYSCALL s)))"

definition wakeup_resume :: "u8 \<Rightarrow> 'a sched_state_scheme \<Rightarrow> 'a sched_state_scheme" where
  "wakeup_resume if_bit s = kern_unlock if_bit s"

section \<open>Lemmas on one queue\<close>

interpretation ts: link_store "\<lambda>T p. t_next (T p)" "\<lambda>T p. t_prev (T p)" set_t_next set_t_prev
  by unfold_locales (auto simp: set_t_next_def set_t_prev_def)

text \<open>The tasks of a queue, first to last.\<close>

definition ring :: "tstore \<Rightarrow> tptr list \<Rightarrow> bool" where
  "ring T xs \<longleftrightarrow> (case xs of [] \<Rightarrow> True
     | h # r \<Rightarrow> chain (\<lambda>p. t_next (T p)) (\<lambda>p. t_prev (T p)) h r h)"

definition tq_holds :: "tstore \<times> tqueue \<Rightarrow> tptr list \<Rightarrow> bool" where
  "tq_holds = (\<lambda>(T, q) xs. distinct xs \<and> TNull \<notin> set xs \<and> TDummy \<notin> set xs
     \<and> q_len q = of_nat (length xs) \<and> q_head q = (case xs of [] \<Rightarrow> TNull | h # _ \<Rightarrow> h) \<and> ring T xs)"

lemma tq_holds_Nil: "tq_holds (T, q) [] \<longleftrightarrow> q_len q = 0 \<and> q_head q = TNull"
  by (simp add: tq_holds_def ring_def)

lemma tq_holds_Cons:
  "tq_holds (T, q) (h # r) \<longleftrightarrow> distinct (h # r) \<and> TNull \<notin> set (h # r) \<and> TDummy \<notin> set (h # r)
     \<and> q_len q = of_nat (Suc (length r)) \<and> q_head q = h
     \<and> chain (\<lambda>p. t_next (T p)) (\<lambda>p. t_prev (T p)) h r h"
  by (simp add: tq_holds_def ring_def)

lemma tq_holds_unique: "tq_holds (T, q) xs \<Longrightarrow> tq_holds (T, q) ys \<Longrightarrow> xs = ys"
proof (cases xs; cases ys)
  fix h r k u assume *: "tq_holds (T, q) xs" "tq_holds (T, q) ys" "xs = h # r" "ys = k # u"
  then have "k = h" by (simp add: tq_holds_Cons)
  with * chain_unique [of "\<lambda>p. t_next (T p)" "\<lambda>p. t_prev (T p)" h r h u] show ?thesis by (simp add: tq_holds_Cons)
qed (auto simp: tq_holds_Cons tq_holds_Nil)

lemma tq_holds_enq:
  assumes "tq_holds Tq xs" and "t \<noteq> TNull \<and> t \<noteq> TDummy" and "t \<notin> set xs"
  shows "tq_holds (tq_enq t Tq) (xs @ [t])"
proof (cases Tq)
  case (Pair T q)
  show ?thesis
  proof (cases xs)
    case Nil
    with assms Pair show ?thesis
      using ts.self_link(2) [of t T] by (auto simp: tq_enq_def tq_holds_Nil tq_holds_Cons Let_def)
  next
    case (Cons h r)
    with assms(1) Pair have h: "tq_holds (T, q) (h # r)" by simp
    with assms Pair Cons show ?thesis
      using ts.link_end [of T h r t]
      by (auto simp: tq_enq_def tq_holds_Cons Let_def)
  qed
qed

lemma tq_holds_del_other:
  assumes "tq_holds (T, q) (h # ys @ t # zs)"
  shows "tq_holds (tq_del t (T, q)) (h # ys @ zs)"
  using assms ts.unlink [of T h ys t zs] chain_first [of "\<lambda>p. t_next (T p)" _ h "ys @ t # zs" h]
  by (cases ys) (auto simp: tq_del_def tq_holds_Cons Let_def)

lemma tq_holds_del_head:
  assumes h: "tq_holds (T, q) (t # zs)"
  shows "tq_holds (tq_del t (T, q)) zs"
proof (cases zs)
  case Nil
  with h show ?thesis by (simp add: tq_del_def tq_holds_Nil tq_holds_Cons Let_def)
next
  case (Cons y ys)
  with h have c: "chain (\<lambda>p. t_next (T p)) (\<lambda>p. t_prev (T p)) y (ys @ [t]) y" and "t \<noteq> y"
    and n: "t_next (T t) = y"
    using chain_rotate [of "\<lambda>p. t_next (T p)" "\<lambda>p. t_prev (T p)" t y ys]
    by (auto simp: tq_holds_Cons)
  with h Cons show ?thesis
    using ts.unlink [of T y ys t "[]"]
    by (auto simp: tq_del_def tq_holds_Cons Let_def)
qed

lemma tq_holds_del: "tq_holds Tq (ys @ t # zs) \<Longrightarrow> tq_holds (tq_del t Tq) (ys @ zs)"
  by (cases Tq; cases ys) (auto intro: tq_holds_del_other tq_holds_del_head)

lemma tq_holds_distinct: "tq_holds Tq xs \<Longrightarrow> distinct xs"
  by (simp add: tq_holds_def split: prod.splits)

interpretation tq: list_queue tq_holds "\<lambda>t. t \<noteq> TNull \<and> t \<noteq> TDummy" tq_enq tq_del
  by unfold_locales (rule tq_holds_distinct tq_holds_enq tq_holds_del; assumption)+

end
