(* ===== verification/Sched_Queues.thy ===== *)
theory Sched_Queues
  imports Sched
begin

text \<open>
  The three queues of the scheduler together: each operation on one of them is the queue operation
  on its abstract list and leaves the two others, the payload of every task and the rest of the
  state alone.
\<close>

section \<open>What a queue operation leaves alone\<close>

text \<open>The payload of a task: everything but its links.\<close>

definition payload :: "task \<Rightarrow> task" where
  "payload k = k\<lparr>t_prev := TNull, t_next := TNull\<rparr>"

lemma payload_links [simp]:
  "payload (k\<lparr>t_next := v\<rparr>) = payload k" "payload (k\<lparr>t_prev := v\<rparr>) = payload k"
  by (simp_all add: payload_def)

lemma payload_fields [simp]:
  "wakeup_msec (payload k) = wakeup_msec k" "wakeup_event (payload k) = wakeup_event k"
  "context_switch (payload k) = context_switch k"
  "context_switch_func (payload k) = context_switch_func k"
  "task_switched_in_time_slice (payload k) = task_switched_in_time_slice k"
  "task_id (payload k) = task_id k" "tss_of (payload k) = tss_of k"
  by (simp_all add: payload_def)

lemma payload_set_links [simp]:
  "payload (set_t_next t v T p) = payload (T p)" "payload (set_t_prev t v T p) = payload (T p)"
  by (simp_all add: set_t_next_def set_t_prev_def)

lemma payload_tq_enq [simp]: "payload (fst (tq_enq t Tq) p) = payload (fst Tq p)"
  by (auto simp: tq_enq_def Let_def split: prod.splits if_splits)

lemma payload_tq_del [simp]: "payload (fst (tq_del t Tq) p) = payload (fst Tq p)"
  by (auto simp: tq_del_def Let_def split: prod.splits if_splits)

lemma tq_enq_outside:
  assumes "tq_holds (T, q) xs" and "p \<notin> insert t (set xs)"
  shows "fst (tq_enq t (T, q)) p = T p"
proof (cases xs)
  case Nil
  with assms show ?thesis
    by (simp add: tq_enq_def tq_holds_Nil Let_def set_t_next_def set_t_prev_def)
next
  case (Cons h r)
  with assms(1) have "t_prev (T h) \<in> set xs"
    using chain_last [of _ "\<lambda>p. t_prev (T p)" h r h] by (auto simp: tq_holds_Cons)
  with assms Cons show ?thesis
    by (auto simp: tq_enq_def tq_holds_Cons Let_def set_t_next_def set_t_prev_def)
qed

lemma ring_links_in:
  assumes "ring T xs" and "t \<in> set xs"
  shows "t_next (T t) \<in> set xs \<and> t_prev (T t) \<in> set xs"
proof -
  let ?nx = "\<lambda>p. t_next (T p)" and ?pv = "\<lambda>p. t_prev (T p)"
  from assms(1) obtain h r where xs: "xs = h # r" and c: "chain ?nx ?pv h r h"
    using assms(2) by (cases xs) (auto simp: ring_def)
  show ?thesis
  proof (cases "t = h")
    case True
    with xs c show ?thesis
      using chain_first [OF c] chain_last [OF c] by (cases r) auto
  next
    case False
    with assms(2) xs obtain ys zs where r: "r = ys @ t # zs" by (auto dest: split_list)
    with c have "chain ?nx ?pv h ys t" "chain ?nx ?pv t zs h" by (simp_all add: chain_append)
    then have "t_prev (T t) = last (h # ys)" "t_next (T t) = hd (zs @ [h])"
      by (auto dest: chain_last chain_first)
    with xs r show ?thesis using last_in_set [of "h # ys"] by (cases zs) auto
  qed
qed

lemma tq_del_outside:
  assumes "tq_holds (T, q) xs" and "t \<in> set xs" and "p \<notin> set xs"
  shows "fst (tq_del t (T, q)) p = T p"
proof -
  from assms(1) have "ring T xs" by (simp add: tq_holds_def)
  with assms(2) have l: "t_next (T t) \<in> set xs" "t_prev (T t) \<in> set xs"
    using ring_links_in by auto
  have "t_next (set_t_next (t_prev (T t)) (t_next (T t)) T t) \<in> set xs"
    using l by (auto simp: set_t_next_def)
  with l assms(2,3) show ?thesis
    by (auto simp: tq_del_def Let_def set_t_next_def set_t_prev_def)
qed

lemma tq_holds_cong:
  assumes "tq_holds (T, q) xs"
    and "\<And>p. p \<in> set xs \<Longrightarrow> t_next (T' p) = t_next (T p) \<and> t_prev (T' p) = t_prev (T p)"
  shows "tq_holds (T', q) xs"
  using assms by (cases xs) (auto simp: tq_holds_Nil tq_holds_Cons intro: chain_cong)

text \<open>A queue operation does not disturb a queue of other tasks in the same store.\<close>

lemma tq_enq_other:
  assumes "tq_holds (T, q) xs" and "tq_holds (T, q') ys"
    and "t \<notin> set ys" and "set xs \<inter> set ys = {}"
  shows "tq_holds (fst (tq_enq t (T, q)), q') ys"
proof (rule tq_holds_cong [OF assms(2)])
  fix p assume "p \<in> set ys"
  with assms(3,4) have "p \<notin> insert t (set xs)" by blast
  with assms(1) show "t_next (fst (tq_enq t (T, q)) p) = t_next (T p)
      \<and> t_prev (fst (tq_enq t (T, q)) p) = t_prev (T p)"
    by (simp add: tq_enq_outside)
qed

lemma tq_del_other:
  assumes "tq_holds (T, q) xs" and "tq_holds (T, q') ys"
    and "t \<in> set xs" and "set xs \<inter> set ys = {}"
  shows "tq_holds (fst (tq_del t (T, q)), q') ys"
proof (rule tq_holds_cong [OF assms(2)])
  fix p assume "p \<in> set ys"
  with assms(4) have "p \<notin> set xs" by blast
  with assms(1,3) show "t_next (fst (tq_del t (T, q)) p) = t_next (T p)
      \<and> t_prev (fst (tq_del t (T, q)) p) = t_prev (T p)"
    by (simp add: tq_del_outside)
qed

section \<open>The operations under the lock\<close>

lemma sti_cli_eflags: "interrupts_on s \<Longrightarrow> eflags s AND NOT X86_EFLAGS_IF OR X86_EFLAGS_IF = eflags s"
  by (simp add: interrupts_on_iff OR_IF_idem)

text \<open>A state change that leaves EFLAGS alone may be moved out of the lock.\<close>

lemma locked_update:
  assumes "kern_lock s = (b, s1)"
  shows "kern_unlock b (s1\<lparr>tasks := T, run_queue := q\<rparr>) = s\<lparr>tasks := T, run_queue := q\<rparr>"
    "kern_unlock b (s1\<lparr>tasks := T, wakeup_queue := q\<rparr>) = s\<lparr>tasks := T, wakeup_queue := q\<rparr>"
    "kern_unlock b (s1\<lparr>tasks := T, wakeup_event_queue := q\<rparr>) = s\<lparr>tasks := T, wakeup_event_queue := q\<rparr>"
    "tasks s1 = tasks s" "run_queue s1 = run_queue s" "wakeup_queue s1 = wakeup_queue s"
    "wakeup_event_queue s1 = wakeup_event_queue s" "current_task s1 = current_task s"
  using assms
  by (auto simp: kern_lock_def kern_unlock_def Let_def cli_def sti_def x86_get_eflags_def
      AND_IF_iff OR_IF_idem split: if_splits)

lemma sched_runq_enq_eq:
  "sched_runq_enq t s = (0, s\<lparr>tasks := fst (tq_enq t (tasks s, run_queue s)),
     run_queue := snd (tq_enq t (tasks s, run_queue s))\<rparr>)"
  by (simp add: sched_runq_enq_def locked_update Let_def split: prod.splits)

lemma sched_wakeupq_enq_eq:
  "sched_wakeupq_enq t s = (0, s\<lparr>tasks := fst (tq_enq t (tasks s, wakeup_queue s)),
     wakeup_queue := snd (tq_enq t (tasks s, wakeup_queue s))\<rparr>)"
  by (simp add: sched_wakeupq_enq_def locked_update Let_def split: prod.splits)

lemma sched_wakeupevq_enq_eq:
  "sched_wakeupevq_enq t s = (0, s\<lparr>tasks := fst (tq_enq t (tasks s, wakeup_event_queue s)),
     wakeup_event_queue := snd (tq_enq t (tasks s, wakeup_event_queue s))\<rparr>)"
  by (simp add: sched_wakeupevq_enq_def locked_update Let_def split: prod.splits)

lemma sched_runq_del_eq:
  "q_head (run_queue s) \<noteq> TNull \<Longrightarrow>
   sched_runq_del t s = (0, s\<lparr>tasks := fst (tq_del t (tasks s, run_queue s)),
     run_queue := snd (tq_del t (tasks s, run_queue s))\<rparr>)"
  by (simp add: sched_runq_del_def locked_update Let_def split: prod.splits)

lemma sched_wakeupq_del_eq:
  "q_head (wakeup_queue s) \<noteq> TNull \<Longrightarrow>
   sched_wakeupq_del t s = (0, s\<lparr>tasks := fst (tq_del t (tasks s, wakeup_queue s)),
     wakeup_queue := snd (tq_del t (tasks s, wakeup_queue s))\<rparr>)"
  by (simp add: sched_wakeupq_del_def locked_update Let_def split: prod.splits)

lemma sched_wakeupevq_del_eq:
  "q_head (wakeup_event_queue s) \<noteq> TNull \<Longrightarrow>
   sched_wakeupevq_del t s = (0, s\<lparr>tasks := fst (tq_del t (tasks s, wakeup_event_queue s)),
     wakeup_event_queue := snd (tq_del t (tasks s, wakeup_event_queue s))\<rparr>)"
  by (simp add: sched_wakeupevq_del_def locked_update Let_def split: prod.splits)

section \<open>Well-formed scheduler states\<close>

text \<open>
  The run queue holds \<open>rs\<close>, the two wait queues \<open>ws\<close> and \<open>es\<close>, and no task is in two places: what
  the comment on \<^verbatim>\<open>struct task\<close> in \<^verbatim>\<open>task.h\<close> asks for.
\<close>

definition sched_wf :: "'a sched_state_scheme \<Rightarrow> tptr list \<Rightarrow> tptr list \<Rightarrow> tptr list \<Rightarrow> bool" where
  "sched_wf s rs ws es \<longleftrightarrow> tq_holds (tasks s, run_queue s) rs
     \<and> tq_holds (tasks s, wakeup_queue s) ws
     \<and> tq_holds (tasks s, wakeup_event_queue s) es
     \<and> distinct (rs @ ws @ es)"

lemma sched_wfD:
  assumes "sched_wf s rs ws es"
  shows "tq_holds (tasks s, run_queue s) rs" "tq_holds (tasks s, wakeup_queue s) ws"
    "tq_holds (tasks s, wakeup_event_queue s) es"
    "distinct rs" "distinct ws" "distinct es"
    "set rs \<inter> set ws = {}" "set rs \<inter> set es = {}" "set ws \<inter> set es = {}"
    "set ws \<inter> set rs = {}" "set es \<inter> set rs = {}" "set es \<inter> set ws = {}"
  using assms by (auto simp: sched_wf_def)

lemma tq_holds_head: "tq_holds (T, q) (ys @ t # zs) \<Longrightarrow> q_head q \<noteq> TNull"
  by (cases ys) (auto simp: tq_holds_Cons)

lemma sched_wf_runq_enq:
  assumes wf: "sched_wf s rs ws es" and ok: "t \<noteq> TNull \<and> t \<noteq> TDummy" and new: "t \<notin> set (rs @ ws @ es)"
  shows "sched_wf (snd (sched_runq_enq t s)) (rs @ [t]) ws es"
proof -
  note D = sched_wfD [OF wf]
  from new have "t \<notin> set rs" by simp
  with tq_holds_enq [OF D(1) ok] tq_enq_other [OF D(1) D(2), of t] tq_enq_other [OF D(1) D(3), of t]
  show ?thesis using new D(4-) by (auto simp: sched_wf_def sched_runq_enq_eq)
qed

lemma sched_wf_wakeupq_enq:
  assumes wf: "sched_wf s rs ws es" and ok: "t \<noteq> TNull \<and> t \<noteq> TDummy" and new: "t \<notin> set (rs @ ws @ es)"
  shows "sched_wf (snd (sched_wakeupq_enq t s)) rs (ws @ [t]) es"
proof -
  note D = sched_wfD [OF wf]
  from new have "t \<notin> set ws" by simp
  with tq_holds_enq [OF D(2) ok] tq_enq_other [OF D(2) D(1), of t] tq_enq_other [OF D(2) D(3), of t]
  show ?thesis using new D(4-) by (auto simp: sched_wf_def sched_wakeupq_enq_eq)
qed

lemma sched_wf_wakeupevq_enq:
  assumes wf: "sched_wf s rs ws es" and ok: "t \<noteq> TNull \<and> t \<noteq> TDummy" and new: "t \<notin> set (rs @ ws @ es)"
  shows "sched_wf (snd (sched_wakeupevq_enq t s)) rs ws (es @ [t])"
proof -
  note D = sched_wfD [OF wf]
  from new have "t \<notin> set es" by simp
  with tq_holds_enq [OF D(3) ok] tq_enq_other [OF D(3) D(1), of t] tq_enq_other [OF D(3) D(2), of t]
  show ?thesis using new D(4-) by (auto simp: sched_wf_def sched_wakeupevq_enq_eq)
qed

lemma sched_wf_runq_del:
  assumes wf: "sched_wf s (ys @ t # zs) ws es"
  shows "sched_wf (snd (sched_runq_del t s)) (ys @ zs) ws es"
proof -
  note D = sched_wfD [OF wf]
  have "t \<in> set (ys @ t # zs)" by simp
  note O = tq_del_other [OF D(1) _ this]
  show ?thesis
    using tq_holds_del [OF D(1)] O [OF D(2)] O [OF D(3)] tq_holds_head [OF D(1)] D(4-)
    by (auto simp: sched_wf_def sched_runq_del_eq)
qed

lemma sched_wf_wakeupq_del:
  assumes wf: "sched_wf s rs (ys @ t # zs) es"
  shows "sched_wf (snd (sched_wakeupq_del t s)) rs (ys @ zs) es"
proof -
  note D = sched_wfD [OF wf]
  have "t \<in> set (ys @ t # zs)" by simp
  note O = tq_del_other [OF D(2) _ this]
  show ?thesis
    using tq_holds_del [OF D(2)] O [OF D(1)] O [OF D(3)] tq_holds_head [OF D(2)] D(4-)
    by (auto simp: sched_wf_def sched_wakeupq_del_eq)
qed

lemma sched_wf_wakeupevq_del:
  assumes wf: "sched_wf s rs ws (ys @ t # zs)"
  shows "sched_wf (snd (sched_wakeupevq_del t s)) rs ws (ys @ zs)"
proof -
  note D = sched_wfD [OF wf]
  have "t \<in> set (ys @ t # zs)" by simp
  note O = tq_del_other [OF D(3) _ this]
  show ?thesis
    using tq_holds_del [OF D(3)] O [OF D(1)] O [OF D(2)] tq_holds_head [OF D(3)] D(4-)
    by (auto simp: sched_wf_def sched_wakeupevq_del_eq)
qed

end
