(* ===== verification/Sched_Wake.thy ===== *)
theory Sched_Wake
  imports Sched_Queues
begin

text \<open>
  The wake-up loops of \<^verbatim>\<open>sched.c\<close>. Both walk a wait queue once from its head, move the tasks that
  are due to the run queue, and stop when they come back to the head. The common argument is the
  locale \<open>wake_ring\<close>; the two loops of the code are its interpretations.
\<close>

section \<open>The three queues as instances of the queue interface\<close>

interpretation rq: list_queue "\<lambda>s rs. sched_wf s rs ws es"
  "\<lambda>t. t \<noteq> TNull \<and> t \<noteq> TDummy \<and> t \<notin> set (ws @ es)"
  "\<lambda>t s. snd (sched_runq_enq t s)" "\<lambda>t s. snd (sched_runq_del t s)"
  for ws es
  by unfold_locales (auto intro: sched_wf_runq_del sched_wf_runq_enq dest: sched_wfD(4))

interpretation wq: list_queue "\<lambda>s ws. sched_wf s rs ws es"
  "\<lambda>t. t \<noteq> TNull \<and> t \<noteq> TDummy \<and> t \<notin> set (rs @ es)"
  "\<lambda>t s. snd (sched_wakeupq_enq t s)" "\<lambda>t s. snd (sched_wakeupq_del t s)"
  for rs es
  by unfold_locales (auto intro: sched_wf_wakeupq_del sched_wf_wakeupq_enq dest: sched_wfD(5))

interpretation eq: list_queue "\<lambda>s es. sched_wf s rs ws es"
  "\<lambda>t. t \<noteq> TNull \<and> t \<noteq> TDummy \<and> t \<notin> set (rs @ ws)"
  "\<lambda>t s. snd (sched_wakeupevq_enq t s)" "\<lambda>t s. snd (sched_wakeupevq_del t s)"
  for rs ws
  by unfold_locales (auto intro: sched_wf_wakeupevq_del sched_wf_wakeupevq_enq dest: sched_wfD(6))

section \<open>The wake-up loop\<close>

text \<open>
  The walk stops where the queue head changes: if the head is due, only the head is woken and no
  other task is looked at; otherwise every task is.
\<close>

fun woken :: "('d \<Rightarrow> bool) \<Rightarrow> (tptr \<Rightarrow> 'd) \<Rightarrow> tptr list \<Rightarrow> tptr list" where
  "woken due v [] = []"
| "woken due v (h # r) = (if due (v h) then [h] else filter (\<lambda>u. due (v u)) r)"

fun still_waiting :: "('d \<Rightarrow> bool) \<Rightarrow> (tptr \<Rightarrow> 'd) \<Rightarrow> tptr list \<Rightarrow> tptr list" where
  "still_waiting due v [] = []"
| "still_waiting due v (h # r) = (if due (v h) then r else h # filter (\<lambda>u. \<not> due (v u)) r)"

fun visited :: "('d \<Rightarrow> bool) \<Rightarrow> (tptr \<Rightarrow> 'd) \<Rightarrow> tptr list \<Rightarrow> tptr set" where
  "visited due v [] = {}"
| "visited due v (h # r) = (if due (v h) then {h} else set (h # r))"

lemma set_woken_waiting: "set (woken due v W) \<union> set (still_waiting due v W) = set W"
  by (cases W) auto

definition update_view :: "('d \<Rightarrow> 'd) \<Rightarrow> tptr set \<Rightarrow> (tptr \<Rightarrow> 'd) \<Rightarrow> tptr \<Rightarrow> 'd" where
  "update_view upd V v u = (if u \<in> V then upd (v u) else v u)"

text \<open>
  \<open>holds s R W\<close>: run queue \<open>R\<close>, wait queue \<open>W\<close>. One iteration on \<open>t\<close> updates the payload of \<open>t\<close> by
  \<open>upd\<close> and moves \<open>t\<close> to the end of the run queue if it was due.
\<close>

locale wake_ring =
  fixes holds :: "'s \<Rightarrow> tptr list \<Rightarrow> tptr list \<Rightarrow> bool"
    and view :: "'s \<Rightarrow> tptr \<Rightarrow> 'd" and due :: "'d \<Rightarrow> bool" and upd :: "'d \<Rightarrow> 'd"
    and head :: "'s \<Rightarrow> tptr" and succ :: "'s \<Rightarrow> tptr \<Rightarrow> tptr"
    and step :: "tptr \<Rightarrow> 's \<Rightarrow> 's" and loop :: "tptr \<Rightarrow> 's \<Rightarrow> 's option"
  assumes loop_unfold: "loop t s =
      (if head (step t s) \<noteq> TNull \<and> succ s t \<noteq> head (step t s)
       then loop (succ s t) (step t s) else Some (step t s))"
    and holds_wait: "holds s R W \<Longrightarrow> distinct W \<and> TNull \<notin> set W"
    and head_eq: "holds s R W \<Longrightarrow> head s = (case W of [] \<Rightarrow> TNull | h # _ \<Rightarrow> h)"
    and succ_eq: "holds s R (ys @ t # zs) \<Longrightarrow> succ s t = hd (zs @ ys @ [t])"
    and step_due: "holds s R (ys @ t # zs) \<Longrightarrow> due (view s t) \<Longrightarrow> holds (step t s) (R @ [t]) (ys @ zs)"
    and step_keep: "holds s R (ys @ t # zs) \<Longrightarrow> \<not> due (view s t) \<Longrightarrow> holds (step t s) R (ys @ t # zs)"
    and view_step: "holds s R (ys @ t # zs) \<Longrightarrow> view (step t s) = (view s)(t := upd (view s t))"
begin

text \<open>Past the head, every remaining task is visited.\<close>

lemma loop_tail:
  "holds s R (h # ys @ t # zs) \<Longrightarrow>
   \<exists>s'. loop t s = Some s'
     \<and> holds s' (R @ filter (\<lambda>u. due (view s u)) (t # zs))
         (h # ys @ filter (\<lambda>u. \<not> due (view s u)) (t # zs))
     \<and> view s' = (\<lambda>u. if u \<in> set (t # zs) then upd (view s u) else view s u)"
proof (induction zs arbitrary: s R ys t)
  case Nil
  have succ: "succ s t = h" using succ_eq [of s R "h # ys" t "[]"] Nil by simp
  show ?case
  proof (cases "due (view s t)")
    case True
    with step_due [of s R "h # ys" t "[]"] Nil have st: "holds (step t s) (R @ [t]) (h # ys)" by simp
    then have "head (step t s) = h" using head_eq by fastforce
    then have "loop t s = Some (step t s)" by (subst loop_unfold) (simp add: succ)
    with st True show ?thesis using view_step [of s R "h # ys" t "[]"] Nil by (auto simp: fun_eq_iff)
  next
    case False
    with step_keep [of s R "h # ys" t "[]"] Nil have st: "holds (step t s) R (h # ys @ [t])" by simp
    then have "head (step t s) = h" using head_eq by fastforce
    then have "loop t s = Some (step t s)" by (subst loop_unfold) (simp add: succ)
    with st False show ?thesis using view_step [of s R "h # ys" t "[]"] Nil by (auto simp: fun_eq_iff)
  qed
next
  case (Cons z zs)
  have succ: "succ s t = z" using succ_eq [of s R "h # ys" t "z # zs"] Cons.prems by simp
  from holds_wait [OF Cons.prems] have d: "distinct (h # ys @ t # z # zs)" "h \<noteq> TNull" by auto
  have view: "view (step t s) = (view s)(t := upd (view s t))"
    using view_step [of s R "h # ys" t "z # zs"] Cons.prems by simp
  have same: "filter (\<lambda>u. P (view (step t s) u)) (z # zs) = filter (\<lambda>u. P (view s u)) (z # zs)" for P
    using d view by (auto intro!: filter_cong)
  show ?case
  proof (cases "due (view s t)")
    case True
    with step_due [of s R "h # ys" t "z # zs"] Cons.prems
    have st: "holds (step t s) (R @ [t]) (h # ys @ z # zs)" by simp
    then have "head (step t s) = h" using head_eq by fastforce
    with d have "loop t s = loop z (step t s)" by (subst loop_unfold) (auto simp: succ)
    with Cons.IH [OF st, unfolded same [of due] same [of "\<lambda>d. \<not> due d"]] True
    show ?thesis using d by (auto simp: view fun_eq_iff)
  next
    case False
    with step_keep [of s R "h # ys" t "z # zs"] Cons.prems
    have st: "holds (step t s) R (h # (ys @ [t]) @ z # zs)" by simp
    then have "head (step t s) = h" using head_eq by fastforce
    with d have "loop t s = loop z (step t s)" by (subst loop_unfold) (auto simp: succ)
    with Cons.IH [OF st, unfolded same [of due] same [of "\<lambda>d. \<not> due d"]] False
    show ?thesis using d by (auto simp: view fun_eq_iff)
  qed
qed

text \<open>
  From the head. If the head is not due the whole queue is visited. If it is due, its removal makes
  its successor the new head, which is also the next task to visit: the loop stops there.
\<close>

lemma loop_from_head:
  assumes "holds s R (h # r)"
  shows "\<exists>s'. loop h s = Some s' \<and>
    (if due (view s h) then holds s' (R @ [h]) r \<and> view s' = (view s)(h := upd (view s h))
     else holds s' (R @ filter (\<lambda>u. due (view s u)) r) (h # filter (\<lambda>u. \<not> due (view s u)) r)
       \<and> view s' = (\<lambda>u. if u \<in> set (h # r) then upd (view s u) else view s u))"
proof (cases "due (view s h)")
  case True
  with step_due [of s R "[]" h r] assms have st: "holds (step h s) (R @ [h]) r" by simp
  then have "head (step h s) = (case r of [] \<Rightarrow> TNull | x # _ \<Rightarrow> x)" by (rule head_eq)
  moreover have "succ s h = hd (r @ [h])" using succ_eq [of s R "[]" h r] assms by simp
  ultimately have "loop h s = Some (step h s)"
    by (subst loop_unfold) (auto split: list.splits)
  with True st show ?thesis using view_step [of s R "[]" h r] assms by simp
next
  case False
  have view: "view (step h s) = (view s)(h := upd (view s h))"
    using view_step [of s R "[]" h r] assms by simp
  have st: "holds (step h s) R (h # r)" using step_keep [of s R "[]" h r] assms False by simp
  then have hd: "head (step h s) = h" using head_eq by fastforce
  show ?thesis
  proof (cases r)
    case Nil
    then have "succ s h = h" using succ_eq [of s R "[]" h r] assms by simp
    with hd have "loop h s = Some (step h s)" by (subst loop_unfold) simp
    with False Nil st view show ?thesis by (auto simp: fun_eq_iff)
  next
    case (Cons z zs)
    from holds_wait [OF assms] Cons have d: "distinct (h # z # zs)" "h \<noteq> TNull" by auto
    have same: "filter (\<lambda>u. P (view (step h s) u)) (z # zs) = filter (\<lambda>u. P (view s u)) (z # zs)" for P
      using d view by (auto intro!: filter_cong)
    have "succ s h = z" using succ_eq [of s R "[]" h r] assms Cons by simp
    with hd d have "loop h s = loop z (step h s)" by (subst loop_unfold) auto
    moreover have "holds (step h s) R (h # [] @ z # zs)" using st Cons by simp
    note loop_tail [OF this, unfolded same [of due] same [of "\<lambda>d. \<not> due d"]]
    ultimately show ?thesis using Cons False d by (auto simp: view fun_eq_iff)
  qed
qed

lemma loop_effect:
  assumes "holds s R (h # r)"
  shows "\<exists>s'. loop h s = Some s'
    \<and> holds s' (R @ woken due (view s) (h # r)) (still_waiting due (view s) (h # r))
    \<and> view s' = update_view upd (visited due (view s) (h # r)) (view s)"
proof (cases "due (view s h)")
  case True
  with loop_from_head [OF assms] show ?thesis by (auto simp: update_view_def fun_eq_iff)
next
  case False
  with loop_from_head [OF assms] show ?thesis by (auto simp: update_view_def fun_eq_iff)
qed

end

section \<open>The two loops of the code\<close>

text \<open>The state besides the tasks and the queues.\<close>

definition sched_frame ::
  "'a sched_state_scheme \<Rightarrow> tptr \<times> (u32 \<Rightarrow> u8) \<times> u32 \<times> u16 \<times> event list \<times> 'a" where
  "sched_frame s = (current_task s, mem s, eflags s, tr s, trace s, sched_state.more s)"

definition payloads :: "'a sched_state_scheme \<Rightarrow> tptr \<Rightarrow> task" where
  "payloads s t = payload (tasks s t)"

lemma payloads_frame [frame]:
  "payloads (snd (sched_runq_enq t s)) = payloads s"
  "payloads (snd (sched_wakeupq_enq t s)) = payloads s"
  "payloads (snd (sched_wakeupevq_enq t s)) = payloads s"
  by (simp_all add: payloads_def fun_eq_iff sched_runq_enq_eq sched_wakeupq_enq_eq
      sched_wakeupevq_enq_eq)

lemma payloads_del_frame [frame]:
  "q_head (run_queue s) \<noteq> TNull \<Longrightarrow> payloads (snd (sched_runq_del t s)) = payloads s"
  "q_head (wakeup_queue s) \<noteq> TNull \<Longrightarrow> payloads (snd (sched_wakeupq_del t s)) = payloads s"
  "q_head (wakeup_event_queue s) \<noteq> TNull \<Longrightarrow> payloads (snd (sched_wakeupevq_del t s)) = payloads s"
  by (simp_all add: payloads_def fun_eq_iff sched_runq_del_eq sched_wakeupq_del_eq
      sched_wakeupevq_del_eq)

lemma sched_frame_enq [frame]:
  "sched_frame (snd (sched_runq_enq t s)) = sched_frame s"
  "sched_frame (snd (sched_wakeupq_enq t s)) = sched_frame s"
  "sched_frame (snd (sched_wakeupevq_enq t s)) = sched_frame s"
  by (simp_all add: sched_frame_def sched_runq_enq_eq sched_wakeupq_enq_eq sched_wakeupevq_enq_eq)

lemma sched_frame_del [frame]:
  "q_head (run_queue s) \<noteq> TNull \<Longrightarrow> sched_frame (snd (sched_runq_del t s)) = sched_frame s"
  "q_head (wakeup_queue s) \<noteq> TNull \<Longrightarrow> sched_frame (snd (sched_wakeupq_del t s)) = sched_frame s"
  "q_head (wakeup_event_queue s) \<noteq> TNull \<Longrightarrow> sched_frame (snd (sched_wakeupevq_del t s)) = sched_frame s"
  by (simp_all add: sched_frame_def sched_runq_del_eq sched_wakeupq_del_eq sched_wakeupevq_del_eq)

text \<open>Writing a payload field keeps every queue.\<close>

lemma tq_holds_payload_upd:
  assumes "\<And>p. t_next (T' p) = t_next (T p) \<and> t_prev (T' p) = t_prev (T p)"
  shows "tq_holds (T', q) xs \<longleftrightarrow> tq_holds (T, q) xs"
  using tq_holds_cong [of T q xs T'] tq_holds_cong [of T' q xs T] assms by auto

lemma sched_wf_payload_upd:
  assumes "\<And>p. t_next (T' p) = t_next (tasks s p) \<and> t_prev (T' p) = t_prev (tasks s p)"
  shows "sched_wf (s\<lparr>tasks := T'\<rparr>) rs ws es \<longleftrightarrow> sched_wf s rs ws es"
  using tq_holds_payload_upd [of T' "tasks s"] assms by (simp add: sched_wf_def)

lemma sched_wf_setters [simp]:
  "sched_wf (s\<lparr>tasks := set_msec t v (tasks s)\<rparr>) rs ws es \<longleftrightarrow> sched_wf s rs ws es"
  "sched_wf (s\<lparr>tasks := set_event t e (tasks s)\<rparr>) rs ws es \<longleftrightarrow> sched_wf s rs ws es"
  "sched_wf (s\<lparr>tasks := set_switched t e (tasks s)\<rparr>) rs ws es \<longleftrightarrow> sched_wf s rs ws es"
  by (rule sched_wf_payload_upd; simp add: set_msec_def set_event_def set_switched_def)+

lemma payloads_setters [simp]:
  "payloads (s\<lparr>tasks := set_msec t v (tasks s)\<rparr>) = (payloads s)(t := (payloads s t)\<lparr>wakeup_msec := v\<rparr>)"
  "payloads (s\<lparr>tasks := set_event t e (tasks s)\<rparr>) = (payloads s)(t := (payloads s t)\<lparr>wakeup_event := e\<rparr>)"
  "payloads (s\<lparr>tasks := set_switched t e (tasks s)\<rparr>) =
     (payloads s)(t := (payloads s t)\<lparr>task_switched_in_time_slice := e\<rparr>)"
  by (simp_all add: payloads_def payload_def set_msec_def set_event_def set_switched_def fun_eq_iff)

lemma sched_frame_setters [simp]: "sched_frame (s\<lparr>tasks := T\<rparr>) = sched_frame s"
  by (simp add: sched_frame_def)

text \<open>The successor of a task in a ring.\<close>

lemma ring_next: "ring T (ys @ t # zs) \<Longrightarrow> t_next (T t) = hd (zs @ ys @ [t])"
proof (cases ys)
  case Nil
  then show "ring T (ys @ t # zs) \<Longrightarrow> ?thesis" by (simp add: ring_def) (metis chain_first)
next
  case (Cons h us)
  assume "ring T (ys @ t # zs)"
  with Cons have "chain (\<lambda>p. t_next (T p)) (\<lambda>p. t_prev (T p)) t zs h"
    by (simp add: ring_def chain_append)
  from chain_first [OF this] Cons show ?thesis by (cases zs) auto
qed

lemma tq_holds_next: "tq_holds (T, q) (ys @ t # zs) \<Longrightarrow> t_next (T t) = hd (zs @ ys @ [t])"
  by (simp add: tq_holds_def ring_next)

lemma tq_holds_head_eq: "tq_holds (T, q) xs \<Longrightarrow> q_head q = (case xs of [] \<Rightarrow> TNull | h # _ \<Rightarrow> h)"
  by (simp add: tq_holds_def)

lemma tq_holds_ok: "tq_holds (T, q) xs \<Longrightarrow> t \<in> set xs \<Longrightarrow> t \<noteq> TNull \<and> t \<noteq> TDummy"
  by (auto simp: tq_holds_def)

paragraph \<open>Time.\<close>

definition msec_due :: "task \<Rightarrow> bool" where
  "msec_due k \<longleftrightarrow> wakeup_msec k \<le> TIMER_TICK_MS"

definition msec_upd :: "task \<Rightarrow> task" where
  "msec_upd k = k\<lparr>wakeup_msec := if msec_due k then 0 else wakeup_msec k - TIMER_TICK_MS\<rparr>"

definition wakeupq_step :: "tptr \<Rightarrow> 'a sched_state_scheme \<Rightarrow> 'a sched_state_scheme" where
  "wakeupq_step t s =
     (if wakeup_msec (tasks s t) > TIMER_TICK_MS then
        s\<lparr>tasks := set_msec t (wakeup_msec (tasks s t) - TIMER_TICK_MS) (tasks s)\<rparr>
      else snd (sched_runq_enq t (snd (sched_wakeupq_del t (s\<lparr>tasks := set_msec t 0 (tasks s)\<rparr>)))))"

lemma wakeupq_loop_unfold:
  "wakeupq_loop t s =
     (if q_head (wakeup_queue (wakeupq_step t s)) \<noteq> TNull
         \<and> t_next (tasks s t) \<noteq> q_head (wakeup_queue (wakeupq_step t s))
      then wakeupq_loop (t_next (tasks s t)) (wakeupq_step t s) else Some (wakeupq_step t s))"
  by (subst wakeupq_loop.simps) (simp add: wakeupq_step_def Let_def)

lemma wakeupq_step_due:
  assumes wf: "sched_wf s R (ys @ t # zs) es" and due: "msec_due (payloads s t)"
  shows "sched_wf (wakeupq_step t s) (R @ [t]) (ys @ zs) es
    \<and> sched_frame (wakeupq_step t s) = sched_frame s
    \<and> payloads (wakeupq_step t s) = (payloads s)(t := msec_upd (payloads s t))"
proof -
  let ?s0 = "s\<lparr>tasks := set_msec t 0 (tasks s)\<rparr>"
  let ?s1 = "snd (sched_wakeupq_del t ?s0)"
  have h: "q_head (wakeup_queue ?s0) \<noteq> TNull"
    using sched_wfD(2) [OF wf] tq_holds_head by simp
  have s1: "sched_wf ?s1 R (ys @ zs) es" using wf by (simp add: sched_wf_wakeupq_del)
  have "t \<noteq> TNull \<and> t \<noteq> TDummy" using sched_wfD(2) [OF wf] by (rule tq_holds_ok) simp
  moreover have "t \<notin> set (R @ (ys @ zs) @ es)" using wf by (auto simp: sched_wf_def)
  ultimately have "sched_wf (snd (sched_runq_enq t ?s1)) (R @ [t]) (ys @ zs) es"
    using s1 sched_wf_runq_enq by blast
  moreover have "wakeupq_step t s = snd (sched_runq_enq t ?s1)"
    using due by (simp add: wakeupq_step_def msec_due_def payloads_def not_less)
  ultimately show ?thesis
    using h due by (simp add: frame msec_upd_def)
qed

lemma wakeupq_step_keep:
  assumes "sched_wf s R W es" and "\<not> msec_due (payloads s t)"
  shows "sched_wf (wakeupq_step t s) R W es \<and> sched_frame (wakeupq_step t s) = sched_frame s
    \<and> payloads (wakeupq_step t s) = (payloads s)(t := msec_upd (payloads s t))"
  using assms
  by (auto simp: wakeupq_step_def msec_due_def msec_upd_def payloads_def [of s t] dest: leD)

lemma sched_wf_wait_head:
  "sched_wf s R W es \<Longrightarrow> q_head (wakeup_queue s) = (case W of [] \<Rightarrow> TNull | h # _ \<Rightarrow> h)"
  "sched_wf s R W es \<Longrightarrow> distinct W \<and> TNull \<notin> set W"
  "sched_wf s R ws W \<Longrightarrow> q_head (wakeup_event_queue s) = (case W of [] \<Rightarrow> TNull | h # _ \<Rightarrow> h)"
  "sched_wf s R ws W \<Longrightarrow> distinct W \<and> TNull \<notin> set W"
  by (simp_all add: sched_wf_def tq_holds_def)

interpretation msec: wake_ring
  "\<lambda>s R W. sched_wf s R W es \<and> sched_frame s = fr" payloads msec_due msec_upd
  "\<lambda>s. q_head (wakeup_queue s)" "\<lambda>s t. t_next (tasks s t)" wakeupq_step wakeupq_loop
  for es fr
proof (unfold_locales, goal_cases)
  case 1 then show ?case by (rule wakeupq_loop_unfold)
next
  case 2 then show ?case using sched_wf_wait_head(2) by blast
next
  case 3 then show ?case using sched_wf_wait_head(1) by blast
next
  case 4 then show ?case using sched_wfD(2) tq_holds_next by blast
next
  case 5 then show ?case using wakeupq_step_due by blast
next
  case 6 then show ?case using wakeupq_step_keep by blast
next
  case 7 then show ?case using wakeupq_step_due wakeupq_step_keep by blast
qed

paragraph \<open>Events.\<close>

definition event_due :: "u8 \<Rightarrow> task \<Rightarrow> bool" where
  "event_due e k \<longleftrightarrow> wakeup_event k = e"

definition event_upd :: "u8 \<Rightarrow> task \<Rightarrow> task" where
  "event_upd e k = (if event_due e k then k\<lparr>wakeup_event := 0\<rparr> else k)"

definition wakeupevq_step :: "u8 \<Rightarrow> tptr \<Rightarrow> 'a sched_state_scheme \<Rightarrow> 'a sched_state_scheme" where
  "wakeupevq_step e t s =
     (if wakeup_event (tasks s t) = e then
        snd (sched_runq_enq t (snd (sched_wakeupevq_del t (s\<lparr>tasks := set_event t 0 (tasks s)\<rparr>))))
      else s)"

lemma wakeupevq_loop_unfold:
  "wakeupevq_loop e t s =
     (if q_head (wakeup_event_queue (wakeupevq_step e t s)) \<noteq> TNull
         \<and> t_next (tasks s t) \<noteq> q_head (wakeup_event_queue (wakeupevq_step e t s))
      then wakeupevq_loop e (t_next (tasks s t)) (wakeupevq_step e t s)
      else Some (wakeupevq_step e t s))"
  by (subst wakeupevq_loop.simps) (simp add: wakeupevq_step_def Let_def)

lemma wakeupevq_step_due:
  assumes wf: "sched_wf s R ws (ys @ t # zs)" and due: "event_due e (payloads s t)"
  shows "sched_wf (wakeupevq_step e t s) (R @ [t]) ws (ys @ zs)
    \<and> sched_frame (wakeupevq_step e t s) = sched_frame s
    \<and> payloads (wakeupevq_step e t s) = (payloads s)(t := event_upd e (payloads s t))"
proof -
  let ?s0 = "s\<lparr>tasks := set_event t 0 (tasks s)\<rparr>"
  let ?s1 = "snd (sched_wakeupevq_del t ?s0)"
  have h: "q_head (wakeup_event_queue ?s0) \<noteq> TNull"
    using sched_wfD(3) [OF wf] tq_holds_head by simp
  have s1: "sched_wf ?s1 R ws (ys @ zs)" using wf by (simp add: sched_wf_wakeupevq_del)
  have "t \<noteq> TNull \<and> t \<noteq> TDummy" using sched_wfD(3) [OF wf] by (rule tq_holds_ok) simp
  moreover have "t \<notin> set (R @ ws @ ys @ zs)" using wf by (auto simp: sched_wf_def)
  ultimately have "sched_wf (snd (sched_runq_enq t ?s1)) (R @ [t]) ws (ys @ zs)"
    using s1 sched_wf_runq_enq by blast
  moreover have "wakeupevq_step e t s = snd (sched_runq_enq t ?s1)"
    using due by (simp add: wakeupevq_step_def event_due_def payloads_def)
  ultimately show ?thesis
    using h due by (simp add: frame event_upd_def)
qed

lemma wakeupevq_step_keep:
  assumes "\<not> event_due e (payloads s t)"
  shows "wakeupevq_step e t s = s \<and> payloads s = (payloads s)(t := event_upd e (payloads s t))"
  using assms by (simp add: wakeupevq_step_def event_due_def event_upd_def payloads_def fun_eq_iff)

interpretation event: wake_ring
  "\<lambda>s R W. sched_wf s R ws W \<and> sched_frame s = fr" payloads "event_due e" "event_upd e"
  "\<lambda>s. q_head (wakeup_event_queue s)" "\<lambda>s t. t_next (tasks s t)"
  "wakeupevq_step e" "wakeupevq_loop e"
  for ws fr e
proof (unfold_locales, goal_cases)
  case 1 then show ?case by (rule wakeupevq_loop_unfold)
next
  case 2 then show ?case using sched_wf_wait_head(4) by blast
next
  case 3 then show ?case using sched_wf_wait_head(3) by blast
next
  case 4 then show ?case using sched_wfD(3) tq_holds_next by blast
next
  case 5 then show ?case using wakeupevq_step_due by blast
next
  case 6 then show ?case using wakeupevq_step_keep by metis
next
  case 7 then show ?case using wakeupevq_step_due wakeupevq_step_keep by metis
qed

end
