(* ===== verification/Timer.thy ===== *)
theory Timer
  imports Sched
begin

text \<open>
  The clock, \<^verbatim>\<open>kernel/timer.c\<close>: the millisecond counter, the timer interrupt, and the busy waits.
\<close>

record timer_state = sched_state +
  global_counter :: u32

definition IOADR_PIT_COUNTER0 :: u16 where "IOADR_PIT_COUNTER0 = 0x0040"
definition IOADR_PIT_CONTROL_WORD :: u16 where "IOADR_PIT_CONTROL_WORD = 0x0043"
definition PIT_BIT_COUNTER0 :: u8 where "PIT_BIT_COUNTER0 = 0x00"
definition PIT_BIT_16BIT_READ_LOAD :: u8 where "PIT_BIT_16BIT_READ_LOAD = 0x30"
definition PIT_BIT_MODE2 :: u8 where "PIT_BIT_MODE2 = 0x04"

text \<open>\<^const>\<open>None\<close>: the wake-up loop inside does not end.\<close>

definition do_ir_timer :: "'a timer_state_scheme \<Rightarrow> 'a timer_state_scheme option" where
  "do_ir_timer s =
     (let s = s\<lparr>global_counter := global_counter s + TIMER_TICK_MS\<rparr>
      in case sched_update_wakeupq s of
           None \<Rightarrow> None
         | Some (_, s) \<Rightarrow> Some (schedule SCHED_CAUSE_TIMER s))"

definition timer_init :: "'a machine_scheme \<Rightarrow> 'a machine_scheme" where
  "timer_init s =
     (let s = outb_p (PIT_BIT_COUNTER0 OR PIT_BIT_16BIT_READ_LOAD OR PIT_BIT_MODE2)
                IOADR_PIT_CONTROL_WORD s;
          s = outb_p 0x9c IOADR_PIT_COUNTER0 s
      in outb_p 0x2e IOADR_PIT_COUNTER0 s)"

definition timer_get_global_counter :: "'a timer_state_scheme \<Rightarrow> u32" where
  "timer_get_global_counter s = global_counter s"

text \<open>
  The busy waits only read the volatile counter, which the timer interrupt advances meanwhile:
  \<open>reads k\<close> is the value the \<open>k\<close>-th read delivers. The result is the index of the read that ended
  the wait, \<^const>\<open>None\<close> if none does.
\<close>

partial_function (option) wait_until :: "(nat \<Rightarrow> u32) \<Rightarrow> u32 \<Rightarrow> nat \<Rightarrow> nat option" where
  "wait_until reads until k = (if reads k < until then wait_until reads until (Suc k) else Some k)"

definition timer_wait_loop_sec :: "(nat \<Rightarrow> u32) \<Rightarrow> u32 \<Rightarrow> nat option" where
  "timer_wait_loop_sec reads sec =
     (let old = reads 0;
          until = old + sec * 1000 + 1
      in wait_until reads until 1)"

definition timer_wait_loop_usec :: "(nat \<Rightarrow> u32) \<Rightarrow> u32 \<Rightarrow> nat option" where
  "timer_wait_loop_usec reads usec =
     (let old = reads 0;
          until = old + usec div 1000 + 1
      in wait_until reads until 1)"

section \<open>Lemmas\<close>

lemma wait_until_first:
  assumes "k \<le> m" and "\<And>j. k \<le> j \<Longrightarrow> j < m \<Longrightarrow> reads j < until" and "\<not> reads m < until"
  shows "wait_until reads until k = Some m"
  using assms
proof (induction "m - k" arbitrary: k)
  case 0
  then show ?case by (subst wait_until.simps) simp
next
  case (Suc n)
  then have "reads k < until" by simp
  moreover have "wait_until reads until (Suc k) = Some m" by (rule Suc.hyps(1)) (use Suc in auto)
  ultimately show ?case by (subst wait_until.simps) simp
qed

end
