(* ===== verification/Sched_Inv.thy ===== *)
theory Sched_Inv
  imports Sched_Wake Timer
begin

text \<open>
  The scheduler as a state machine: every entry into it (timer interrupt, keyboard event, a task
  blocking, a task resuming, a new task) keeps the invariant that the three queues hold every
  started task exactly once and that the processor runs the task \<^verbatim>\<open>current_task\<close> names.
\<close>

section \<open>Switching\<close>

text \<open>The selector the own code of a task jumps to, and the selector of the running task.\<close>

definition own_selector :: "task \<Rightarrow> u16" where
  "own_selector k = ucast (context_switch_func k ! 8) OR push_bit 8 (ucast (context_switch_func k ! 9))"

definition current_selector :: "'a sched_state_scheme \<Rightarrow> u16" where
  "current_selector s =
     (if current_task s = TNull then 0x18 else own_selector (tasks s (current_task s)))"

text \<open>The state after \<^verbatim>\<open>schedule\<close> has left the old task, and after it has entered the new one.\<close>

definition leave :: "'a sched_state_scheme \<Rightarrow> 'a sched_state_scheme" where
  "leave s = (if current_task s \<noteq> TNull
     then s\<lparr>tasks := set_switched (current_task s) 0 (tasks s)\<rparr> else s)"

definition enter :: "u8 \<Rightarrow> tptr \<Rightarrow> 'a sched_state_scheme \<Rightarrow> 'a sched_state_scheme" where
  "enter cause t s =
     (let s = s\<lparr>current_task := t\<rparr>;
          s = (if cause = SCHED_CAUSE_SYSCALL then s\<lparr>tasks := set_switched t 1 (tasks s)\<rparr> else s)
      in run_context_switch t (timer_eoi s))"

lemma schedule_eq:
  "schedule cause s =
     (if cause = SCHED_CAUSE_TIMER \<and> current_task s \<noteq> TNull
         \<and> task_switched_in_time_slice (tasks s (current_task s)) \<noteq> 0 then timer_eoi (leave s)
      else if q_head (run_queue s) = TNull then
        (if current_task s = TNull then timer_eoi (leave s)
         else run_context_switch (TInst KERN_TASK_ID) (timer_eoi ((leave s)\<lparr>current_task := TNull\<rparr>)))
      else if current_task s = TNull then enter cause (q_head (run_queue s)) (leave s)
      else if t_next (tasks s (current_task s)) \<noteq> current_task s
        then enter cause (t_next (tasks s (current_task s))) (leave s)
      else timer_eoi (leave s))"
  by (auto simp: schedule_def leave_def enter_def Let_def set_switched_def)

lemma timer_eoi_fields [simp]:
  "current_task (timer_eoi s) = current_task s" "tasks (timer_eoi s) = tasks s"
  "run_queue (timer_eoi s) = run_queue s" "wakeup_queue (timer_eoi s) = wakeup_queue s"
  "wakeup_event_queue (timer_eoi s) = wakeup_event_queue s" "tr (timer_eoi s) = tr s"
  "eflags (timer_eoi s) = eflags s" "mem (timer_eoi s) = mem s"
  "sched_state.more (timer_eoi s) = sched_state.more s"
  "trace (timer_eoi s) = OutB 0x60 0x20 # trace s"
  by (simp_all add: timer_eoi_def outb_p_def IOADR_MPIC_OCW2_BIT_MANUAL_EOI_def INTR_IR_TIMER_def
      IOADR_MPIC_OCW2_def)

lemma leave_fields [simp]:
  "current_task (leave s) = current_task s" "run_queue (leave s) = run_queue s"
  "wakeup_queue (leave s) = wakeup_queue s" "wakeup_event_queue (leave s) = wakeup_event_queue s"
  "tr (leave s) = tr s" "trace (leave s) = trace s" "eflags (leave s) = eflags s"
  "mem (leave s) = mem s" "sched_state.more (leave s) = sched_state.more s"
  "t_next (tasks (leave s) p) = t_next (tasks s p)"
  "context_switch (tasks (leave s) p) = context_switch (tasks s p)"
  "context_switch_func (tasks (leave s) p) = context_switch_func (tasks s p)"
  by (simp_all add: leave_def set_switched_def)

lemma run_context_switch_fields [simp]:
  "current_task (run_context_switch t s) = current_task s"
  "tasks (run_context_switch t s) = tasks s" "run_queue (run_context_switch t s) = run_queue s"
  "wakeup_queue (run_context_switch t s) = wakeup_queue s"
  "wakeup_event_queue (run_context_switch t s) = wakeup_event_queue s"
  "eflags (run_context_switch t s) = eflags s" "mem (run_context_switch t s) = mem s"
  "sched_state.more (run_context_switch t s) = sched_state.more s"
  by (simp_all add: run_context_switch_def ljmp_tss_def split: ctx_fn.splits)

lemma run_context_switch_own:
  "context_switch (tasks s t) = CtxOwn \<Longrightarrow>
   run_context_switch t s = ljmp_tss (own_selector (tasks s t)) s"
  by (simp add: run_context_switch_def own_selector_def)

lemma ljmp_tss_fields [simp]:
  "tr (ljmp_tss sel s) = sel" "trace (ljmp_tss sel s) = Ljmp sel # trace s"
  "tasks (ljmp_tss sel t) = tasks t" "current_task (ljmp_tss sel t) = current_task t"
  by (simp_all add: ljmp_tss_def)

lemma enter_fields [simp]:
  "current_task (enter c t s) = t" "run_queue (enter c t s) = run_queue s"
  "wakeup_queue (enter c t s) = wakeup_queue s"
  "wakeup_event_queue (enter c t s) = wakeup_event_queue s"
  "eflags (enter c t s) = eflags s" "mem (enter c t s) = mem s"
  "sched_state.more (enter c t s) = sched_state.more s"
  "t_next (tasks (enter c t s) p) = t_next (tasks s p)"
  "context_switch (tasks (enter c t s) p) = context_switch (tasks s p)"
  "context_switch_func (tasks (enter c t s) p) = context_switch_func (tasks s p)"
  by (simp_all add: enter_def Let_def set_switched_def)

lemma sched_wf_leave [simp]: "sched_wf (leave s) rs ws es \<longleftrightarrow> sched_wf s rs ws es"
  by (simp add: leave_def)

lemma sched_wf_timer_eoi [simp]: "sched_wf (timer_eoi s) rs ws es \<longleftrightarrow> sched_wf s rs ws es"
  by (simp add: sched_wf_def)

lemma sched_wf_run_context_switch [simp]:
  "sched_wf (run_context_switch t s) rs ws es \<longleftrightarrow> sched_wf s rs ws es"
  by (simp add: sched_wf_def)

lemma sched_wf_current [simp]: "sched_wf (s\<lparr>current_task := t\<rparr>) rs ws es \<longleftrightarrow> sched_wf s rs ws es"
  by (simp add: sched_wf_def)

lemma sched_wf_enter [simp]: "sched_wf (enter c t s) rs ws es \<longleftrightarrow> sched_wf s rs ws es"
proof -
  have "sched_wf (s\<lparr>current_task := t, tasks := set_switched t 1 (tasks s)\<rparr>) rs ws es \<longleftrightarrow>
      sched_wf (s\<lparr>current_task := t\<rparr>) rs ws es"
    using sched_wf_setters(3) [of t 1 "s\<lparr>current_task := t\<rparr>"] by simp
  then show ?thesis by (simp add: enter_def Let_def)
qed

lemma sched_wf_schedule [simp]: "sched_wf (schedule c s) rs ws es \<longleftrightarrow> sched_wf s rs ws es"
proof -
  have "sched_wf ((leave s)\<lparr>current_task := TNull\<rparr>) rs ws es \<longleftrightarrow> sched_wf s rs ws es"
    using sched_wf_current [of TNull "leave s"] by simp
  then show ?thesis by (simp add: schedule_eq)
qed

lemma schedule_frame [simp]:
  "context_switch (tasks (schedule c s) p) = context_switch (tasks s p)"
  "context_switch_func (tasks (schedule c s) p) = context_switch_func (tasks s p)"
  "eflags (schedule c s) = eflags s" "mem (schedule c s) = mem s"
  "sched_state.more (schedule c s) = sched_state.more s"
  by (simp_all add: schedule_eq)

section \<open>The invariant\<close>

text \<open>
  Every task jumps through its own code, the kernel task through its function, no null function
  pointer was ever called; the current task is none or in the run queue, and the task register
  holds its selector.
\<close>

definition ctx_ok :: "'a sched_state_scheme \<Rightarrow> tptr set \<Rightarrow> bool" where
  "ctx_ok s A \<longleftrightarrow> context_switch (tasks s (TInst KERN_TASK_ID)) = CtxKern
     \<and> (\<forall>t \<in> A. context_switch (tasks s t) = CtxOwn) \<and> NullCall \<notin> set (trace s)"

definition running_ok :: "'a sched_state_scheme \<Rightarrow> tptr list \<Rightarrow> bool" where
  "running_ok s rs \<longleftrightarrow> (current_task s = TNull \<or> current_task s \<in> set rs) \<and> tr s = current_selector s"

definition sched_inv :: "'a sched_state_scheme \<Rightarrow> tptr list \<Rightarrow> tptr list \<Rightarrow> tptr list \<Rightarrow> bool" where
  "sched_inv s rs ws es \<longleftrightarrow>
     sched_wf s rs ws es \<and> ctx_ok s (set (rs @ ws @ es)) \<and> running_ok s rs"

text \<open>The task \<^verbatim>\<open>schedule\<close> picks.\<close>

definition next_task :: "u8 \<Rightarrow> 'a sched_state_scheme \<Rightarrow> tptr list \<Rightarrow> tptr" where
  "next_task cause s rs =
     (if cause = SCHED_CAUSE_TIMER \<and> current_task s \<noteq> TNull
         \<and> task_switched_in_time_slice (tasks s (current_task s)) \<noteq> 0 then current_task s
      else if rs = [] then TNull
      else if current_task s = TNull then hd rs
      else t_next (tasks s (current_task s)))"

lemma schedule_current:
  "sched_wf s rs ws es \<Longrightarrow> current_task (schedule cause s) = next_task cause s rs"
  by (cases rs) (auto simp: schedule_eq next_task_def sched_wf_def tq_holds_Nil tq_holds_Cons)

lemma enter_own:
  assumes "context_switch (tasks s t) = CtxOwn"
  shows "tr (enter c t s) = own_selector (tasks (enter c t s) t)"
    "trace (enter c t s) = Ljmp (own_selector (tasks s t)) # OutB 0x60 0x20 # trace s"
  using assms
  by (simp_all add: enter_def Let_def run_context_switch_own own_selector_def set_switched_def)

lemma own_selector_leave [simp]:
  "own_selector (tasks (leave s) t) = own_selector (tasks s t)"
  "own_selector (tasks (enter c u s) t) = own_selector (tasks s t)"
  by (simp_all add: own_selector_def)

lemma sched_wf_next_in:
  assumes "sched_wf s rs ws es" and "t \<in> set rs"
  shows "t_next (tasks s t) \<in> set rs"
proof -
  from assms(1) have "ring (tasks s) rs" by (simp add: sched_wf_def tq_holds_def)
  then show ?thesis using assms(2) by (simp add: ring_links_in)
qed

lemma sched_wf_run_head:
  "sched_wf s rs ws es \<Longrightarrow> q_head (run_queue s) = (case rs of [] \<Rightarrow> TNull | h # _ \<Rightarrow> h)
     \<and> TNull \<notin> set rs \<and> TDummy \<notin> set rs"
  by (simp add: sched_wf_def tq_holds_def)

text \<open>
  From a state whose current task is none, in the run queue, or the dummy task with its \<^verbatim>\<open>next\<close>
  pointing into the run queue, \<^verbatim>\<open>schedule\<close> leads to a state where the processor runs the current
  task.
\<close>

lemma schedule_running:
  assumes wf: "sched_wf s rs ws es" and ctx: "ctx_ok s (set (rs @ ws @ es))"
    and cur: "running_ok s rs \<or> cause = SCHED_CAUSE_SYSCALL \<and> current_task s = TDummy
      \<and> (rs \<noteq> [] \<longrightarrow> t_next (tasks s TDummy) \<in> set rs)"
  shows "sched_inv (schedule cause s) rs ws es"
proof -
  have noskip: "SCHED_CAUSE_SYSCALL \<noteq> SCHED_CAUSE_TIMER"
    by (simp add: SCHED_CAUSE_SYSCALL_def SCHED_CAUSE_TIMER_def)
  note H = sched_wf_run_head [OF wf]
  have own: "context_switch (tasks s t) = CtxOwn" if "t \<in> set rs" for t
    using ctx that by (simp add: ctx_ok_def)
  have nxt: "current_task s \<in> set rs \<Longrightarrow> t_next (tasks s (current_task s)) \<in> set rs"
    using sched_wf_next_in [OF wf] by simp
  have kern: "context_switch (tasks s (TInst KERN_TASK_ID)) = CtxKern"
    using ctx by (simp add: ctx_ok_def)
  have "running_ok (schedule cause s) rs \<and> NullCall \<notin> set (trace (schedule cause s))"
  proof (cases rs)
    case Nil
    with H cur ctx kern noskip show ?thesis
      by (auto simp: schedule_eq running_ok_def current_selector_def run_context_switch_def ctx_ok_def)
  next
    case (Cons h r)
    with H have hd: "q_head (run_queue s) = h" "h \<noteq> TNull" and hin: "h \<in> set rs" by auto
    have "t_next (tasks s (current_task s)) \<in> set rs" if "current_task s \<noteq> TNull"
      using cur that nxt Cons by (auto simp: running_ok_def)
    with H have nx: "t_next (tasks s (current_task s)) \<in> set rs \<and>
        t_next (tasks s (current_task s)) \<noteq> TNull" if "current_task s \<noteq> TNull" using that by auto
    show ?thesis
    proof (cases "current_task s = TDummy")
      case True
      with cur H have "cause = SCHED_CAUSE_SYSCALL" by (auto simp: running_ok_def)
      moreover have "t_next (tasks s TDummy) \<noteq> TDummy" using nx True H by auto
      ultimately show ?thesis
        using True nx hd noskip ctx
        by (auto simp: schedule_eq running_ok_def current_selector_def enter_own own ctx_ok_def)
    next
      case False
      with cur have "running_ok s rs" by blast
      then show ?thesis
        using nx hd hin ctx
        by (auto simp: schedule_eq running_ok_def current_selector_def enter_own own ctx_ok_def)
    qed
  qed
  with wf ctx show ?thesis by (simp add: sched_inv_def ctx_ok_def)
qed

section \<open>Blocking\<close>

text \<open>Contexts seen through the payloads.\<close>

lemma ctx_ok_payloads:
  "ctx_ok s A \<longleftrightarrow> context_switch (payloads s (TInst KERN_TASK_ID)) = CtxKern
     \<and> (\<forall>t \<in> A. context_switch (payloads s t) = CtxOwn) \<and> NullCall \<notin> set (trace s)"
  by (simp add: ctx_ok_def payloads_def)

lemma sched_frameD:
  "sched_frame s' = sched_frame s \<Longrightarrow> current_task s' = current_task s \<and> mem s' = mem s
     \<and> eflags s' = eflags s \<and> tr s' = tr s \<and> trace s' = trace s
     \<and> sched_state.more s' = sched_state.more s"
  by (simp add: sched_frame_def)

lemma sched_wf_dummy [simp]:
  "sched_wf (s\<lparr>tasks := set_t_next TDummy v (tasks s)\<rparr>) rs ws es \<longleftrightarrow> sched_wf s rs ws es"
proof -
  have same: "TDummy \<notin> set xs \<Longrightarrow> p \<in> set xs \<Longrightarrow> set_t_next TDummy v T p = T p" for T xs p
    by (auto simp: set_t_next_def)
  have out: "tq_holds (T, q) xs \<Longrightarrow> TDummy \<notin> set xs" for T q xs
    by (simp add: tq_holds_def)
  have "tq_holds (set_t_next TDummy v T, q) xs \<longleftrightarrow> tq_holds (T, q) xs" for T q xs
    by (rule iffI; frule out; erule tq_holds_cong) (simp_all add: same)
  then show ?thesis by (simp add: sched_wf_def)
qed

text \<open>
  The state in which a blocking task \<open>c\<close> leaves the run queue: \<open>u\<close> writes what it waits for. The
  dummy task inherits the place of \<open>c\<close> in the ring if there is another runnable task.
\<close>

definition block_state ::
  "tptr \<Rightarrow> (tstore \<Rightarrow> tstore) \<Rightarrow> 'a sched_state_scheme \<Rightarrow> 'a sched_state_scheme" where
  "block_state c u s =
     (let s = (if t_next (tasks s c) \<noteq> c
               then s\<lparr>tasks := set_t_next TDummy (t_next (tasks s c)) (tasks s)\<rparr> else s);
          s = s\<lparr>tasks := u (tasks s)\<rparr>
      in snd (sched_runq_del c s))"

text \<open>Writing a wake-up field of one task: the links and the contexts stay.\<close>

definition wait_write :: "(tstore \<Rightarrow> tstore) \<Rightarrow> bool" where
  "wait_write u \<longleftrightarrow> (\<forall>T p. t_next (u T p) = t_next (T p) \<and> t_prev (u T p) = t_prev (T p)
     \<and> context_switch (u T p) = context_switch (T p)
     \<and> context_switch_func (u T p) = context_switch_func (T p))"

lemma wait_write_setters: "wait_write (set_msec c m)" "wait_write (set_event c e)"
  by (simp_all add: wait_write_def set_msec_def set_event_def)

lemma block_state_inv:
  assumes wf: "sched_wf s (a @ c # b) ws es" and u: "wait_write u"
  shows "sched_wf (block_state c u s) (a @ b) ws es
    \<and> sched_frame (block_state c u s) = sched_frame s
    \<and> (\<forall>p. context_switch (tasks (block_state c u s) p) = context_switch (tasks s p))
    \<and> (a @ b \<noteq> [] \<longrightarrow> t_next (tasks (block_state c u s) TDummy) = hd (b @ a))"
proof -
  let ?s1 = "if t_next (tasks s c) \<noteq> c
    then s\<lparr>tasks := set_t_next TDummy (t_next (tasks s c)) (tasks s)\<rparr> else s"
  let ?s2 = "?s1\<lparr>tasks := u (tasks ?s1)\<rparr>"
  have eq: "block_state c u s = snd (sched_runq_del c ?s2)" by (simp add: block_state_def Let_def)
  have "sched_wf ?s1 (a @ c # b) ws es" using wf by simp
  then have w2: "sched_wf ?s2 (a @ c # b) ws es"
    using u sched_wf_payload_upd [of "u (tasks ?s1)" ?s1] by (simp add: wait_write_def)
  then have w3: "sched_wf (block_state c u s) (a @ b) ws es"
    unfolding eq by (rule sched_wf_runq_del)
  have hd: "q_head (run_queue ?s2) \<noteq> TNull" using sched_wfD(1) [OF w2] by (rule tq_holds_head)
  then have fr: "sched_frame (block_state c u s) = sched_frame s"
    unfolding eq by (subst sched_frame_del(1)) (simp_all add: sched_frame_def)
  have pay: "payload (tasks (block_state c u s) p) = payload (tasks ?s2 p)" for p
    using hd unfolding eq by (simp add: sched_runq_del_eq)
  have ctx: "context_switch (tasks (block_state c u s) p) = context_switch (tasks s p)" for p
  proof -
    have "context_switch (tasks (block_state c u s) p) = context_switch (tasks ?s2 p)"
      using arg_cong [OF pay, of context_switch p] by simp
    also have "\<dots> = context_switch (tasks s p)"
      using u by (simp add: wait_write_def set_t_next_def)
    finally show ?thesis .
  qed
  have "t_next (tasks (block_state c u s) TDummy) = hd (b @ a)" if "a @ b \<noteq> []"
  proof -
    have "t_next (tasks s c) = hd (b @ a @ [c])"
      using sched_wfD(1) [OF wf] by (rule tq_holds_next)
    moreover have "distinct (a @ c # b)" using sched_wfD(4) [OF wf] .
    ultimately have n: "t_next (tasks s c) = hd (b @ a)" "t_next (tasks s c) \<noteq> c"
      using that by (cases b; cases a; auto)+
    have "TDummy \<notin> set (a @ c # b)" using sched_wf_run_head [OF wf] by simp
    then have "tasks (block_state c u s) TDummy = tasks ?s2 TDummy"
      unfolding eq using hd tq_del_outside [OF sched_wfD(1) [OF w2], of c TDummy]
      by (simp add: sched_runq_del_eq)
    then show ?thesis using u n by (simp add: wait_write_def set_t_next_def)
  qed
  with w3 fr ctx show ?thesis by blast
qed

lemma kern_lock_sched:
  assumes "kern_lock s = (b, s1)"
  shows "sched_wf s1 rs ws es \<longleftrightarrow> sched_wf s rs ws es" "ctx_ok s1 A \<longleftrightarrow> ctx_ok s A"
    "running_ok s1 rs \<longleftrightarrow> running_ok s rs" "current_task s1 = current_task s"
    "tasks s1 = tasks s" "sched_inv s1 rs ws es \<longleftrightarrow> sched_inv s rs ws es"
    "payloads s1 = payloads s" "trace s1 = trace s" "tr s1 = tr s"
proof -
  note L = locked_update(4-8) [OF assms]
  have T: "trace s1 = trace s" "tr s1 = tr s" using kern_lock_frame(2,3) [of s] assms by simp_all
  show "sched_wf s1 rs ws es \<longleftrightarrow> sched_wf s rs ws es" "ctx_ok s1 A \<longleftrightarrow> ctx_ok s A"
    "running_ok s1 rs \<longleftrightarrow> running_ok s rs" "current_task s1 = current_task s" "tasks s1 = tasks s"
    "sched_inv s1 rs ws es \<longleftrightarrow> sched_inv s rs ws es" "payloads s1 = payloads s"
    "trace s1 = trace s" "tr s1 = tr s"
    by (simp_all add: sched_inv_def sched_wf_def ctx_ok_def running_ok_def current_selector_def
        payloads_def fun_eq_iff L T)
qed

end
