(* ===== verification/Sched_Block.thy ===== *)
theory Sched_Block
  imports Sched_Inv
begin

text \<open>
  What the entries into the scheduler do to the abstract queues: the two wake-up calls of the
  interrupt handlers, and a task that blocks on time or on an event.
\<close>

section \<open>Waking up\<close>

lemma unlock_same:
  assumes "kern_lock s = (b, s1)" and "sched_frame s2 = sched_frame s1"
  shows "sched_frame (kern_unlock b s2) = sched_frame s"
    "tasks (kern_unlock b s2) = tasks s2" "run_queue (kern_unlock b s2) = run_queue s2"
    "wakeup_queue (kern_unlock b s2) = wakeup_queue s2"
    "wakeup_event_queue (kern_unlock b s2) = wakeup_event_queue s2"
  using assms
  by (auto simp: kern_lock_def kern_unlock_def Let_def cli_def sti_def x86_get_eflags_def
      AND_IF_iff OR_IF_idem sched_frame_def split: if_splits)

lemma unlock_wf:
  assumes "kern_lock s = (b, s1)" and "sched_frame s2 = sched_frame s1"
  shows "sched_wf (kern_unlock b s2) rs ws es \<longleftrightarrow> sched_wf s2 rs ws es"
    "payloads (kern_unlock b s2) = payloads s2"
  by (simp_all only: sched_wf_def payloads_def [abs_def] unlock_same(2-) [OF assms])

lemma update_wakeupq_spec:
  assumes wf: "sched_wf s rs ws es"
  shows "\<exists>s'. sched_update_wakeupq s = Some (if ws = [] then - 1 else 0, s')
    \<and> sched_wf s' (rs @ woken msec_due (payloads s) ws) (still_waiting msec_due (payloads s) ws) es
    \<and> sched_frame s' = sched_frame s
    \<and> payloads s' = update_view msec_upd (visited msec_due (payloads s) ws) (payloads s)"
proof (cases ws)
  case Nil
  with wf have "q_head (wakeup_queue s) = TNull" using sched_wf_wait_head(1) by fastforce
  with wf Nil show ?thesis by (simp add: sched_update_wakeupq_def update_view_def fun_eq_iff)
next
  case (Cons h r)
  obtain b s1 where L: "kern_lock s = (b, s1)" by fastforce
  have wf1: "sched_wf s1 rs (h # r) es" and hd: "q_head (wakeup_queue s) = h" "h \<noteq> TNull"
    and hd1: "q_head (wakeup_queue s1) = h" and p1: "payloads s1 = payloads s"
    using wf Cons kern_lock_sched [OF L] sched_wf_wait_head [of s rs ws es]
      locked_update(6) [OF L] by auto
  from msec.loop_effect [of s1 rs h r es "sched_frame s1"] wf1
  obtain s2 where lp: "wakeupq_loop h s1 = Some s2" and fr: "sched_frame s2 = sched_frame s1"
    and r: "sched_wf s2 (rs @ woken msec_due (payloads s) ws)
        (still_waiting msec_due (payloads s) ws) es"
    and v: "payloads s2 = update_view msec_upd (visited msec_due (payloads s) ws) (payloads s)"
    unfolding p1 Cons by blast
  have "sched_update_wakeupq s = Some (0, kern_unlock b s2)"
    using hd by (simp add: sched_update_wakeupq_def L hd1 lp)
  with Cons r v unlock_wf [OF L fr] unlock_same(1) [OF L fr] show ?thesis by simp
qed

lemma update_wakeupevq_spec:
  assumes wf: "sched_wf s rs ws es"
  shows "\<exists>s'. sched_update_wakeupevq e s = Some (if es = [] then - 1 else 0, s')
    \<and> sched_wf s' (rs @ woken (event_due e) (payloads s) es) ws
        (still_waiting (event_due e) (payloads s) es)
    \<and> sched_frame s' = sched_frame s
    \<and> payloads s' = update_view (event_upd e) (visited (event_due e) (payloads s) es) (payloads s)"
proof (cases es)
  case Nil
  with wf have "q_head (wakeup_event_queue s) = TNull" using sched_wf_wait_head(3) by fastforce
  with wf Nil show ?thesis by (simp add: sched_update_wakeupevq_def update_view_def fun_eq_iff)
next
  case (Cons h r)
  obtain b s1 where L: "kern_lock s = (b, s1)" by fastforce
  have wf1: "sched_wf s1 rs ws (h # r)" and hd: "q_head (wakeup_event_queue s) = h" "h \<noteq> TNull"
    and hd1: "q_head (wakeup_event_queue s1) = h" and p1: "payloads s1 = payloads s"
    using wf Cons kern_lock_sched [OF L] sched_wf_wait_head [of s rs ws es]
      locked_update(7) [OF L] by auto
  from event.loop_effect [of s1 rs ws h r "sched_frame s1" e] wf1
  obtain s2 where lp: "wakeupevq_loop e h s1 = Some s2" and fr: "sched_frame s2 = sched_frame s1"
    and r: "sched_wf s2 (rs @ woken (event_due e) (payloads s) es) ws
        (still_waiting (event_due e) (payloads s) es)"
    and v: "payloads s2 = update_view (event_upd e) (visited (event_due e) (payloads s) es) (payloads s)"
    unfolding p1 Cons by blast
  have "sched_update_wakeupevq e s = Some (0, kern_unlock b s2)"
    using hd by (simp add: sched_update_wakeupevq_def L hd1 lp)
  with Cons r v unlock_wf [OF L fr] unlock_same(1) [OF L fr] show ?thesis by simp
qed

text \<open>Waking keeps the invariant.\<close>

lemma wake_inv:
  assumes inv: "sched_inv s rs ws es" and wf: "sched_wf s' (rs @ a) ws' es'"
    and fr: "sched_frame s' = sched_frame s"
    and pay: "payloads s' = update_view upd V (payloads s)"
    and upd: "\<And>k. context_switch (upd k) = context_switch k
      \<and> context_switch_func (upd k) = context_switch_func k"
    and all: "set (rs @ a @ ws' @ es') \<subseteq> set (rs @ ws @ es)"
  shows "sched_inv s' (rs @ a) ws' es'"
proof -
  have c: "context_switch (payloads s' t) = context_switch (payloads s t)
      \<and> context_switch_func (payloads s' t) = context_switch_func (payloads s t)" for t
    using upd by (simp add: pay update_view_def)
  then have "own_selector (tasks s' t) = own_selector (tasks s t)" for t
    by (simp add: own_selector_def payloads_def)
  then have "running_ok s' (rs @ a)"
    using inv sched_frameD [OF fr] by (auto simp: sched_inv_def running_ok_def current_selector_def)
  moreover have "ctx_ok s' (set ((rs @ a) @ ws' @ es'))"
    using inv all c sched_frameD [OF fr] by (auto simp: sched_inv_def ctx_ok_payloads)
  ultimately show ?thesis using wf by (simp add: sched_inv_def)
qed

section \<open>Blocking\<close>

text \<open>The two blocking calls with the bookkeeping of \<open>block_state\<close> split off.\<close>

lemma wakeup_after_msec_eq:
  assumes "kern_lock s = (b, s1)"
  shows "wakeup_after_msec m s = (if current_task s = TNull then None
    else Some (b, schedule SCHED_CAUSE_SYSCALL
      ((snd (sched_wakeupq_enq (current_task s)
          (block_state (current_task s) (set_msec (current_task s) m) s1)))
        \<lparr>current_task := TDummy\<rparr>)))"
  using assms kern_lock_sched(4) [OF assms]
  by (simp add: wakeup_after_msec_def block_state_def Let_def)

lemma wakeup_after_event_eq:
  assumes "kern_lock s = (b, s1)"
  shows "wakeup_after_event e s = (if current_task s = TNull then None
    else Some (b, schedule SCHED_CAUSE_SYSCALL
      ((snd (sched_wakeupevq_enq (current_task s)
          (block_state (current_task s) (set_event (current_task s) e) s1)))
        \<lparr>current_task := TDummy\<rparr>)))"
  using assms kern_lock_sched(4) [OF assms]
  by (simp add: wakeup_after_event_def block_state_def Let_def)

text \<open>
  After the task \<open>c\<close> has left the run queue and joined a wait queue (state \<open>s2\<close>), \<^verbatim>\<open>schedule\<close> starts
  from the dummy task, whose \<^verbatim>\<open>next\<close> is the successor of \<open>c\<close>.
\<close>

lemma switch_from_dummy:
  assumes wf: "sched_wf s2 (a @ b) ws es" and ctx: "ctx_ok s2 (set ((a @ b) @ ws @ es))"
    and dummy: "a @ b \<noteq> [] \<longrightarrow> t_next (tasks s2 TDummy) = hd (b @ a)"
  shows "sched_inv (schedule SCHED_CAUSE_SYSCALL (s2\<lparr>current_task := TDummy\<rparr>)) (a @ b) ws es
    \<and> current_task (schedule SCHED_CAUSE_SYSCALL (s2\<lparr>current_task := TDummy\<rparr>))
      = (if a @ b = [] then TNull else hd (b @ a))"
proof -
  let ?s = "s2\<lparr>current_task := TDummy\<rparr>"
  have wf': "sched_wf ?s (a @ b) ws es" using wf by simp
  have "ctx_ok ?s (set ((a @ b) @ ws @ es))" using ctx by (simp add: ctx_ok_def)
  moreover have "a @ b \<noteq> [] \<Longrightarrow> hd (b @ a) \<in> set (a @ b)" by (cases b; cases a; simp)
  ultimately have "sched_inv (schedule SCHED_CAUSE_SYSCALL ?s) (a @ b) ws es"
    using dummy by (intro schedule_running [OF wf']) simp_all
  moreover have "current_task (schedule SCHED_CAUSE_SYSCALL ?s)
      = (if a @ b = [] then TNull else hd (b @ a))"
    using schedule_current [OF wf', of SCHED_CAUSE_SYSCALL] dummy
    by (auto simp: next_task_def SCHED_CAUSE_SYSCALL_def SCHED_CAUSE_TIMER_def)
  ultimately show ?thesis by simp
qed

lemma schedule_wait_fields [simp]:
  "wakeup_msec (tasks (schedule c s) p) = wakeup_msec (tasks s p)"
  "wakeup_event (tasks (schedule c s) p) = wakeup_event (tasks s p)"
  by (simp_all add: schedule_def Let_def set_switched_def)

lemma enq_fields:
  "context_switch (tasks (snd (sched_wakeupq_enq t s)) p) = context_switch (tasks s p)"
  "context_switch (tasks (snd (sched_wakeupevq_enq t s)) p) = context_switch (tasks s p)"
  "wakeup_msec (tasks (snd (sched_wakeupq_enq t s)) p) = wakeup_msec (tasks s p)"
  "wakeup_event (tasks (snd (sched_wakeupevq_enq t s)) p) = wakeup_event (tasks s p)"
  using payloads_frame [of t s] by (metis payloads_def payload_fields)+

text \<open>
  The common part of the two blocking calls: \<open>enq\<close> puts \<open>c\<close> on its wait queue, giving queues
  \<open>ws'\<close> and \<open>es'\<close>.
\<close>

lemma block_switch:
  assumes inv: "sched_inv s (a @ c # b) ws es" and u: "wait_write u"
    and enq: "sched_wf (block_state c u s) (a @ b) ws es \<Longrightarrow>
      sched_wf (enq (block_state c u s)) (a @ b) ws' es'"
    and fr: "sched_frame (enq (block_state c u s)) = sched_frame (block_state c u s)"
    and ctx: "\<And>p. context_switch (tasks (enq (block_state c u s)) p)
      = context_switch (tasks (block_state c u s) p)"
    and dum: "tasks (enq (block_state c u s)) TDummy = tasks (block_state c u s) TDummy"
    and all: "set (ws' @ es') \<subseteq> insert c (set (ws @ es))"
  shows "sched_inv (schedule SCHED_CAUSE_SYSCALL ((enq (block_state c u s))\<lparr>current_task := TDummy\<rparr>))
      (a @ b) ws' es'
    \<and> current_task (schedule SCHED_CAUSE_SYSCALL ((enq (block_state c u s))\<lparr>current_task := TDummy\<rparr>))
      = (if a @ b = [] then TNull else hd (b @ a))"
proof (rule switch_from_dummy)
  have "sched_wf s (a @ c # b) ws es" using inv by (simp add: sched_inv_def)
  note B = block_state_inv [OF this u]
  show "sched_wf (enq (block_state c u s)) (a @ b) ws' es'" using B enq by blast
  show "a @ b \<noteq> [] \<longrightarrow> t_next (tasks (enq (block_state c u s)) TDummy) = hd (b @ a)"
    using B dum by simp
  have "trace (enq (block_state c u s)) = trace s" using B fr by (simp add: sched_frame_def)
  then show "ctx_ok (enq (block_state c u s)) (set ((a @ b) @ ws' @ es'))"
    using inv all B ctx by (auto simp: sched_inv_def ctx_ok_def)
qed

lemma wait_enq_dummy:
  assumes "sched_wf s rs ws es" and "t \<noteq> TDummy"
  shows "tasks (snd (sched_wakeupq_enq t s)) TDummy = tasks s TDummy"
    "tasks (snd (sched_wakeupevq_enq t s)) TDummy = tasks s TDummy"
proof -
  note D = sched_wfD(2,3) [OF assms(1)]
  from D have "TDummy \<notin> insert t (set ws)" "TDummy \<notin> insert t (set es)"
    using assms(2) by (auto simp: tq_holds_def)
  with tq_enq_outside [OF D(1)] tq_enq_outside [OF D(2)]
  show "tasks (snd (sched_wakeupq_enq t s)) TDummy = tasks s TDummy"
    "tasks (snd (sched_wakeupevq_enq t s)) TDummy = tasks s TDummy"
    by (simp_all add: sched_wakeupq_enq_eq sched_wakeupevq_enq_eq)
qed

lemma runq_del_payloads: "payloads (snd (sched_runq_del c s)) = payloads s"
proof (cases "q_head (run_queue s) = TNull")
  case True
  then show ?thesis by (simp add: sched_runq_del_def)
qed (rule payloads_del_frame(1))

lemma runq_del_fields:
  "wakeup_msec (tasks (snd (sched_runq_del c s)) p) = wakeup_msec (tasks s p)"
  "wakeup_event (tasks (snd (sched_runq_del c s)) p) = wakeup_event (tasks s p)"
  using runq_del_payloads [of c s] by (metis payloads_def payload_fields)+

lemma block_state_written:
  "wakeup_msec (tasks (block_state c (set_msec c m) s) c) = m"
  "wakeup_event (tasks (block_state c (set_event c e) s) c) = e"
  unfolding block_state_def Let_def runq_del_fields by (simp_all add: set_msec_def set_event_def)

lemma wakeup_after_msec_spec:
  assumes inv: "sched_inv s (a @ c # b) ws es" and cur: "current_task s = c"
  shows "\<exists>i s'. wakeup_after_msec m s = Some (i, s') \<and> sched_inv s' (a @ b) (ws @ [c]) es
    \<and> current_task s' = (if a @ b = [] then TNull else hd (b @ a))
    \<and> wakeup_msec (tasks s' c) = m"
proof -
  obtain i s1 where L: "kern_lock s = (i, s1)" by fastforce
  have inv1: "sched_inv s1 (a @ c # b) ws es" using inv kern_lock_sched(6) [OF L] by simp
  then have wf1: "sched_wf s1 (a @ c # b) ws es" by (simp add: sched_inv_def)
  have c: "c \<noteq> TNull \<and> c \<noteq> TDummy" "c \<notin> set ((a @ b) @ ws @ es)"
    using wf1 by (auto simp: sched_wf_def tq_holds_def)
  let ?B = "block_state c (set_msec c m) s1"
  have wfB: "sched_wf ?B (a @ b) ws es"
    using block_state_inv [OF wf1 wait_write_setters(1)] by blast
  have "sched_inv (schedule SCHED_CAUSE_SYSCALL ((snd (sched_wakeupq_enq c ?B))\<lparr>current_task := TDummy\<rparr>))
      (a @ b) (ws @ [c]) es
    \<and> current_task (schedule SCHED_CAUSE_SYSCALL ((snd (sched_wakeupq_enq c ?B))\<lparr>current_task := TDummy\<rparr>))
      = (if a @ b = [] then TNull else hd (b @ a))"
    by (rule block_switch [OF inv1 wait_write_setters(1), where enq = "\<lambda>s. snd (sched_wakeupq_enq c s)"])
      (use c wfB in \<open>auto simp: sched_frame_enq enq_fields wait_enq_dummy intro: sched_wf_wakeupq_enq\<close>)
  with cur c show ?thesis
    by (simp add: wakeup_after_msec_eq [OF L] enq_fields block_state_written)
qed

lemma wakeup_after_event_spec:
  assumes inv: "sched_inv s (a @ c # b) ws es" and cur: "current_task s = c"
  shows "\<exists>i s'. wakeup_after_event e s = Some (i, s') \<and> sched_inv s' (a @ b) ws (es @ [c])
    \<and> current_task s' = (if a @ b = [] then TNull else hd (b @ a))
    \<and> wakeup_event (tasks s' c) = e"
proof -
  obtain i s1 where L: "kern_lock s = (i, s1)" by fastforce
  have inv1: "sched_inv s1 (a @ c # b) ws es" using inv kern_lock_sched(6) [OF L] by simp
  then have wf1: "sched_wf s1 (a @ c # b) ws es" by (simp add: sched_inv_def)
  have c: "c \<noteq> TNull \<and> c \<noteq> TDummy" "c \<notin> set ((a @ b) @ ws @ es)"
    using wf1 by (auto simp: sched_wf_def tq_holds_def)
  let ?B = "block_state c (set_event c e) s1"
  have wfB: "sched_wf ?B (a @ b) ws es"
    using block_state_inv [OF wf1 wait_write_setters(2)] by blast
  have "sched_inv (schedule SCHED_CAUSE_SYSCALL ((snd (sched_wakeupevq_enq c ?B))\<lparr>current_task := TDummy\<rparr>))
      (a @ b) ws (es @ [c])
    \<and> current_task (schedule SCHED_CAUSE_SYSCALL ((snd (sched_wakeupevq_enq c ?B))\<lparr>current_task := TDummy\<rparr>))
      = (if a @ b = [] then TNull else hd (b @ a))"
    by (rule block_switch [OF inv1 wait_write_setters(2), where enq = "\<lambda>s. snd (sched_wakeupevq_enq c s)"])
      (use c wfB in \<open>auto simp: sched_frame_enq enq_fields wait_enq_dummy intro: sched_wf_wakeupevq_enq\<close>)
  with cur c show ?thesis
    by (simp add: wakeup_after_event_eq [OF L] enq_fields block_state_written)
qed

end
