(* ===== verification/Sched_Steps.thy ===== *)
theory Sched_Steps
  imports Sched_Block
begin

text \<open>
  The scheduler as a transition system. A step is one entry of the kernel into it: the timer
  interrupt, the event a keyboard interrupt reports, a task that blocks or comes back from
  blocking, a task that is started. The system's state carries the set of started tasks.
\<close>

section \<open>Steps\<close>

inductive sched_step ::
  "tptr set \<times> 'a timer_state_scheme \<Rightarrow> tptr set \<times> 'a timer_state_scheme \<Rightarrow> bool" where
  step_timer: "do_ir_timer s = Some s' \<Longrightarrow> sched_step (A, s) (A, s')"
| step_event: "sched_update_wakeupevq e s = Some (r, s') \<Longrightarrow> sched_step (A, s) (A, s')"
| step_sleep: "wakeup_after_msec m s = Some (i, s') \<Longrightarrow> sched_step (A, s) (A, s')"
| step_wait: "wakeup_after_event e s = Some (i, s') \<Longrightarrow> sched_step (A, s) (A, s')"
| step_resume: "sched_step (A, s) (A, wakeup_resume i s)"
| step_start: "t \<notin> A \<Longrightarrow> t \<notin> {TNull, TDummy, TInst KERN_TASK_ID} \<Longrightarrow> context_switch k = CtxOwn \<Longrightarrow>
    sched_step (A, s) (insert t A, snd (sched_runq_enq t (s\<lparr>tasks := (tasks s)(t := k)\<rparr>)))"

text \<open>At boot the kernel task runs and all queues are empty.\<close>

definition sched_boot :: "'a sched_state_scheme \<Rightarrow> bool" where
  "sched_boot s \<longleftrightarrow> run_queue s = \<lparr>q_head = TNull, q_len = 0\<rparr>
     \<and> wakeup_queue s = \<lparr>q_head = TNull, q_len = 0\<rparr>
     \<and> wakeup_event_queue s = \<lparr>q_head = TNull, q_len = 0\<rparr>
     \<and> current_task s = TNull \<and> tr s = 0x18
     \<and> context_switch (tasks s (TInst KERN_TASK_ID)) = CtxKern \<and> NullCall \<notin> set (trace s)"

inductive sched_reach :: "tptr set \<times> 'a timer_state_scheme \<Rightarrow> bool" where
  reach_boot: "sched_boot s \<Longrightarrow> sched_reach ({}, s)"
| reach_step: "sched_reach c \<Longrightarrow> sched_step c c' \<Longrightarrow> sched_reach c'"

inductive_cases sched_stepE: "sched_step (A, s) (A', s')"

section \<open>Every step keeps the invariant\<close>

lemma counter_fields [simp]:
  "tasks (s\<lparr>global_counter := n\<rparr>) = tasks s" "run_queue (s\<lparr>global_counter := n\<rparr>) = run_queue s"
  "wakeup_queue (s\<lparr>global_counter := n\<rparr>) = wakeup_queue s"
  "wakeup_event_queue (s\<lparr>global_counter := n\<rparr>) = wakeup_event_queue s"
  "current_task (s\<lparr>global_counter := n\<rparr>) = current_task s" "tr (s\<lparr>global_counter := n\<rparr>) = tr s"
  "trace (s\<lparr>global_counter := n\<rparr>) = trace s" "payloads (s\<lparr>global_counter := n\<rparr>) = payloads s"
  by (simp_all add: payloads_def fun_eq_iff)

lemma sched_inv_counter [simp]:
  "sched_inv (s\<lparr>global_counter := n\<rparr>) rs ws es \<longleftrightarrow> sched_inv s rs ws es"
  by (simp add: sched_inv_def sched_wf_def ctx_ok_def running_ok_def current_selector_def)

lemma upd_contexts [simp]:
  "context_switch (msec_upd k) = context_switch k"
  "context_switch_func (msec_upd k) = context_switch_func k"
  "context_switch (event_upd e k) = context_switch k"
  "context_switch_func (event_upd e k) = context_switch_func k"
  by (simp_all add: msec_upd_def event_upd_def)

lemma update_wakeupq_inv:
  assumes inv: "sched_inv s rs ws es"
  shows "\<exists>r s'. sched_update_wakeupq s = Some (r, s')
    \<and> sched_inv s' (rs @ woken msec_due (payloads s) ws) (still_waiting msec_due (payloads s) ws) es"
proof -
  have "sched_wf s rs ws es" using inv by (simp add: sched_inv_def)
  from update_wakeupq_spec [OF this] obtain r s' where u: "sched_update_wakeupq s = Some (r, s')"
    and "sched_wf s' (rs @ woken msec_due (payloads s) ws) (still_waiting msec_due (payloads s) ws) es"
    and "sched_frame s' = sched_frame s"
    and "payloads s' = update_view msec_upd (visited msec_due (payloads s) ws) (payloads s)" by blast
  note inv' = wake_inv [OF inv this(2-4)]
  have "set (woken msec_due (payloads s) ws @ still_waiting msec_due (payloads s) ws) = set ws"
    using set_woken_waiting by simp
  with u inv' show ?thesis by auto
qed

lemma update_wakeupevq_inv:
  assumes inv: "sched_inv s rs ws es"
  shows "\<exists>r s'. sched_update_wakeupevq e s = Some (r, s')
    \<and> sched_inv s' (rs @ woken (event_due e) (payloads s) es) ws
        (still_waiting (event_due e) (payloads s) es)"
proof -
  have "sched_wf s rs ws es" using inv by (simp add: sched_inv_def)
  from update_wakeupevq_spec [OF this, of e] obtain r s'
    where u: "sched_update_wakeupevq e s = Some (r, s')"
    and "sched_wf s' (rs @ woken (event_due e) (payloads s) es) ws
      (still_waiting (event_due e) (payloads s) es)"
    and "sched_frame s' = sched_frame s"
    and "payloads s' = update_view (event_upd e) (visited (event_due e) (payloads s) es) (payloads s)"
    by blast
  note inv' = wake_inv [OF inv this(2-4)]
  have "set (woken (event_due e) (payloads s) es @ still_waiting (event_due e) (payloads s) es) = set es"
    using set_woken_waiting by simp
  with u inv' show ?thesis by auto
qed

lemma schedule_inv: "sched_inv s rs ws es \<Longrightarrow> sched_inv (schedule c s) rs ws es"
  by (rule schedule_running) (simp_all add: sched_inv_def)

text \<open>The timer interrupt: wake, then switch.\<close>

lemma do_ir_timer_inv:
  assumes inv: "sched_inv s rs ws es"
  shows "\<exists>s'. do_ir_timer s = Some s'
    \<and> sched_inv s' (rs @ woken msec_due (payloads s) ws) (still_waiting msec_due (payloads s) ws) es"
proof -
  let ?s = "s\<lparr>global_counter := global_counter s + TIMER_TICK_MS\<rparr>"
  have "sched_inv ?s rs ws es" using inv by simp
  from update_wakeupq_inv [OF this] obtain r s' where u: "sched_update_wakeupq ?s = Some (r, s')"
    and i: "sched_inv s' (rs @ woken msec_due (payloads s) ws) (still_waiting msec_due (payloads s) ws) es"
    by auto
  from u have "do_ir_timer s = Some (schedule SCHED_CAUSE_TIMER s')" by (simp add: do_ir_timer_def)
  with schedule_inv [OF i] show ?thesis by blast
qed

lemma unlock_inv [simp]: "sched_inv (wakeup_resume i s) rs ws es \<longleftrightarrow> sched_inv s rs ws es"
  by (simp add: wakeup_resume_def kern_unlock_def sti_def sched_inv_def sched_wf_def ctx_ok_def
      running_ok_def current_selector_def)

lemma start_inv:
  assumes inv: "sched_inv s rs ws es" and new: "t \<notin> set (rs @ ws @ es)"
    and ok: "t \<notin> {TNull, TDummy, TInst KERN_TASK_ID}" and k: "context_switch k = CtxOwn"
  shows "sched_inv (snd (sched_runq_enq t (s\<lparr>tasks := (tasks s)(t := k)\<rparr>))) (rs @ [t]) ws es"
proof -
  let ?s = "s\<lparr>tasks := (tasks s)(t := k)\<rparr>"
  have q: "t \<notin> set xs \<Longrightarrow> tq_holds (tasks s, q) xs \<Longrightarrow> tq_holds (tasks ?s, q) xs" for q xs
    by (erule tq_holds_cong) auto
  have wf: "sched_wf s rs ws es" using inv by (simp add: sched_inv_def)
  then have "sched_wf ?s rs ws es" using q new by (auto simp: sched_wf_def)
  then have wf': "sched_wf (snd (sched_runq_enq t ?s)) (rs @ [t]) ws es"
    using ok new by (auto intro: sched_wf_runq_enq)
  have pay: "payloads (snd (sched_runq_enq t ?s)) = payloads ?s" by (rule payloads_frame)
  have cs: "context_switch (tasks (snd (sched_runq_enq t ?s)) p) = context_switch (tasks ?s p)"
    "context_switch_func (tasks (snd (sched_runq_enq t ?s)) p) = context_switch_func (tasks ?s p)" for p
    using pay by (metis payloads_def payload_fields)+
  have fr: "sched_frame (snd (sched_runq_enq t ?s)) = sched_frame s"
    by (simp add: sched_frame_enq)
  have "current_task s \<noteq> t" if "current_task s \<noteq> TNull"
    using that inv new by (auto simp: sched_inv_def running_ok_def)
  then have "running_ok (snd (sched_runq_enq t ?s)) (rs @ [t])"
    using inv sched_frameD [OF fr] cs
    by (auto simp: sched_inv_def running_ok_def current_selector_def own_selector_def)
  moreover have "ctx_ok (snd (sched_runq_enq t ?s)) (set ((rs @ [t]) @ ws @ es))"
    using inv sched_frameD [OF fr] cs ok k by (auto simp: sched_inv_def ctx_ok_def)
  ultimately show ?thesis using wf' by (simp add: sched_inv_def)
qed

lemma boot_inv: "sched_boot s \<Longrightarrow> sched_inv s [] [] []"
  by (simp add: sched_boot_def sched_inv_def sched_wf_def tq_holds_Nil ctx_ok_def running_ok_def
      current_selector_def)

lemma block_member:
  assumes "sched_inv s rs ws es" and "current_task s \<noteq> TNull"
  obtains a b where "rs = a @ current_task s # b"
  using assms split_list [of "current_task s" rs] by (auto simp: sched_inv_def running_ok_def)

lemma blocked_current:
  "wakeup_after_msec m s = Some r \<Longrightarrow> current_task s \<noteq> TNull"
  "wakeup_after_event e s = Some r \<Longrightarrow> current_task s \<noteq> TNull"
  by (cases "kern_lock s"; simp add: wakeup_after_msec_eq wakeup_after_event_eq split: if_splits)+

lemma step_inv:
  assumes step: "sched_step (A, s) (A', s')" and inv: "sched_inv s rs ws es"
    and A: "set (rs @ ws @ es) = A"
  shows "\<exists>rs' ws' es'. sched_inv s' rs' ws' es' \<and> set (rs' @ ws' @ es') = A'"
proof (rule sched_stepE [OF step], goal_cases)
  case 1
  then show ?case
    using do_ir_timer_inv [OF inv] A set_woken_waiting [of msec_due "payloads s" ws] by fastforce
next
  case (2 e r)
  then show ?case
    using update_wakeupevq_inv [OF inv, of e] A set_woken_waiting [of "event_due e" "payloads s" es]
    by fastforce
next
  case (3 m i)
  then have cur: "current_task s \<noteq> TNull" by (auto dest: blocked_current)
  from block_member [OF inv cur] obtain a b where rs: "rs = a @ current_task s # b" .
  with inv wakeup_after_msec_spec [of s a "current_task s" b ws es m] 3 A show ?case by fastforce
next
  case (4 e i)
  then have cur: "current_task s \<noteq> TNull" by (auto dest: blocked_current)
  from block_member [OF inv cur] obtain a b where rs: "rs = a @ current_task s # b" .
  with inv wakeup_after_event_spec [of s a "current_task s" b ws es e] 4 A show ?case by fastforce
next
  case (5 i)
  with inv A show ?case by auto
next
  case (6 t k)
  with A have "t \<notin> set (rs @ ws @ es)" by simp
  from start_inv [OF inv this, of k] 6 A show ?case by fastforce
qed

lemma reach_inv:
  assumes "sched_reach (A, s)"
  shows "\<exists>rs ws es. sched_inv s rs ws es \<and> set (rs @ ws @ es) = A"
  using assms
proof (induction "(A, s)" arbitrary: A s rule: sched_reach.induct)
  case (reach_boot s)
  then show ?case using boot_inv by fastforce
next
  case (reach_step c)
  obtain B u where c: "c = (B, u)" by fastforce
  with reach_step(2) obtain rs ws es where "sched_inv u rs ws es" "set (rs @ ws @ es) = B" by blast
  with step_inv reach_step(3) c show ?case by blast
qed

end
