(* ===== verification/Sched_Props.thy ===== *)
theory Sched_Props
  imports Sched_Steps
begin

text \<open>
  The properties of the scheduler: the queues, waking, blocking, the round robin, and the
  invariant of every reachable state. The witnesses run the model from a boot state with up to
  three tasks.
\<close>

section \<open>The round robin\<close>

lemma hd_rotate:
  "i < length rs \<Longrightarrow> hd (drop (Suc i) rs @ take i rs @ [rs ! i]) = rs ! (Suc i mod length rs)"
proof (cases "Suc i < length rs")
  case True
  then show ?thesis by (simp add: hd_append hd_drop_conv_nth)
next
  case False
  assume i: "i < length rs"
  with False have "Suc i = length rs" by simp
  then show ?thesis using i by (cases "i = 0") (auto simp: hd_append hd_conv_nth)
qed

lemma sched_wf_next_nth:
  assumes "sched_wf s rs ws es" and i: "i < length rs"
  shows "t_next (tasks s (rs ! i)) = rs ! (Suc i mod length rs)"
proof -
  have "tq_holds (tasks s, run_queue s) (take i rs @ rs ! i # drop (Suc i) rs)"
    using assms sched_wfD(1) by (simp add: id_take_nth_drop [symmetric])
  from tq_holds_next [OF this] show ?thesis using hd_rotate [OF i] by simp
qed

lemma sched_inv_current:
  "sched_inv s rs ws es \<Longrightarrow> i < length rs \<Longrightarrow> rs ! i \<noteq> TNull"
  using sched_wf_run_head [of s rs ws es] by (metis nth_mem sched_inv_def)

text \<open>One tick of a task whose flag is clear hands over to its successor; a set flag is cleared first.\<close>

lemma tick_moves:
  assumes inv: "sched_inv s rs ws es" and i: "i < length rs" "current_task s = rs ! i"
    and flag: "task_switched_in_time_slice (tasks s (rs ! i)) = 0"
  shows "current_task (schedule SCHED_CAUSE_TIMER s) = rs ! (Suc i mod length rs)"
proof -
  have wf: "sched_wf s rs ws es" using inv by (simp add: sched_inv_def)
  from i have "rs \<noteq> []" by auto
  then show ?thesis
    using schedule_current [OF wf, of SCHED_CAUSE_TIMER] sched_inv_current [OF inv i(1)] i flag
      sched_wf_next_nth [OF wf i(1)] by (simp add: next_task_def)
qed

lemma tick_clears:
  assumes "current_task s \<noteq> TNull"
    and "task_switched_in_time_slice (tasks s (current_task s)) \<noteq> 0"
  shows "current_task (schedule SCHED_CAUSE_TIMER s) = current_task s"
    "task_switched_in_time_slice (tasks (schedule SCHED_CAUSE_TIMER s) (current_task s)) = 0"
  using assms by (simp_all add: schedule_eq leave_def set_switched_def)

lemma tick_flags:
  "task_switched_in_time_slice (tasks s p) = 0 \<Longrightarrow>
   task_switched_in_time_slice (tasks (schedule SCHED_CAUSE_TIMER s) p) = 0"
  by (auto simp: schedule_def Let_def set_switched_def SCHED_CAUSE_TIMER_def SCHED_CAUSE_SYSCALL_def)

lemma first_turn:
  assumes inv: "sched_inv s rs ws es" and "rs \<noteq> []" and "current_task s = TNull"
  shows "current_task (schedule SCHED_CAUSE_TIMER s) = rs ! 0"
proof -
  have "sched_wf s rs ws es" using inv by (simp add: sched_inv_def)
  from schedule_current [OF this, of SCHED_CAUSE_TIMER] assms(2,3) show ?thesis
    by (simp add: next_task_def hd_conv_nth)
qed

section \<open>A concrete run\<close>

text \<open>The zeroed \<^verbatim>\<open>struct task\<close>, a task of the given GDT selector, and the state at boot.\<close>

definition task_zero :: task where
  "task_zero = \<lparr>t_prev = TNull, t_next = TNull, task_id = 0, tss_of = tss_zero,
     context_switch = CtxNull, context_switch_func = replicate 12 0,
     task_switched_in_time_slice = 0, wakeup_msec = 0, wakeup_event = 0\<rparr>"

definition app_task :: "u8 \<Rightarrow> task" where
  "app_task sel = task_zero\<lparr>context_switch := CtxOwn, context_switch_func := (replicate 12 0)[8 := sel]\<rparr>"

definition boot_state :: timer_state where
  "boot_state = \<lparr>mem = (\<lambda>_. 0), eflags = 0x202, tr = 0x18, trace = [], current_task = TNull,
     run_queue = \<lparr>q_head = TNull, q_len = 0\<rparr>, wakeup_queue = \<lparr>q_head = TNull, q_len = 0\<rparr>,
     wakeup_event_queue = \<lparr>q_head = TNull, q_len = 0\<rparr>,
     tasks = (\<lambda>_. task_zero)(TInst KERN_TASK_ID := task_zero\<lparr>context_switch := CtxKern\<rparr>),
     global_counter = 0\<rparr>"

definition start_task :: "tptr \<Rightarrow> task \<Rightarrow> 'a sched_state_scheme \<Rightarrow> 'a sched_state_scheme" where
  "start_task t k s = snd (sched_runq_enq t (s\<lparr>tasks := (tasks s)(t := k)\<rparr>))"

definition two_tasks :: timer_state where
  "two_tasks = start_task (THeap 0x2000) (app_task 0x28) (start_task (THeap 0x1000) (app_task 0x20) boot_state)"

lemma boot_state_boot: "sched_boot boot_state"
  by (simp add: sched_boot_def boot_state_def KERN_TASK_ID_def)

lemma app_task_own [simp]: "context_switch (app_task sel) = CtxOwn"
  by (simp add: app_task_def)

lemma start_task_inv:
  "sched_inv s rs ws es \<Longrightarrow> t \<notin> set (rs @ ws @ es) \<Longrightarrow> t \<notin> {TNull, TDummy, TInst KERN_TASK_ID} \<Longrightarrow>
   sched_inv (start_task t (app_task sel) s) (rs @ [t]) ws es"
  unfolding start_task_def by (rule start_inv) simp_all

lemma start_task_reach:
  "sched_reach (A, s) \<Longrightarrow> t \<notin> A \<Longrightarrow> t \<notin> {TNull, TDummy, TInst KERN_TASK_ID} \<Longrightarrow>
   sched_reach (insert t A, start_task t (app_task sel) s)"
  unfolding start_task_def by (rule reach_step, assumption, rule step_start) simp_all

lemma two_tasks_inv: "sched_inv two_tasks [THeap 0x1000, THeap 0x2000] [] []"
proof -
  have "sched_inv (start_task (THeap 0x1000) (app_task 0x20) boot_state) ([] @ [THeap 0x1000]) [] []"
    by (rule start_task_inv [OF boot_inv [OF boot_state_boot]]) simp_all
  then have "sched_inv two_tasks (([] @ [THeap 0x1000]) @ [THeap 0x2000]) [] []"
    unfolding two_tasks_def by (rule start_task_inv) simp_all
  then show ?thesis by simp
qed

lemma two_tasks_reach: "sched_reach ({THeap 0x1000, THeap 0x2000}, two_tasks)"
proof -
  have "sched_reach ({THeap 0x1000}, start_task (THeap 0x1000) (app_task 0x20) boot_state)"
    by (rule start_task_reach [OF reach_boot [OF boot_state_boot]]) simp_all
  then have "sched_reach (insert (THeap 0x2000) {THeap 0x1000}, two_tasks)"
    unfolding two_tasks_def by (rule start_task_reach) simp_all
  then show ?thesis by (simp add: insert_commute)
qed

lemma two_tasks_running: "sched_inv (schedule SCHED_CAUSE_TIMER two_tasks) [THeap 0x1000, THeap 0x2000] [] []
    \<and> current_task (schedule SCHED_CAUSE_TIMER two_tasks) = THeap 0x1000"
proof -
  have "current_task two_tasks = TNull"
    by (simp add: two_tasks_def start_task_def sched_runq_enq_eq boot_state_def)
  from first_turn [OF two_tasks_inv _ this] schedule_inv [OF two_tasks_inv] show ?thesis by simp
qed

lemma start_task_payloads: "payloads (start_task t k s) = (payloads s)(t := payload k)"
  unfolding start_task_def payloads_frame by (simp add: payloads_def fun_eq_iff)

lemma two_tasks_flags: "task_switched_in_time_slice (tasks two_tasks t) = 0"
proof -
  have "task_switched_in_time_slice (tasks two_tasks t) = task_switched_in_time_slice (payloads two_tasks t)"
    by (simp add: payloads_def)
  also have "\<dots> = 0"
    unfolding two_tasks_def start_task_payloads
    by (simp add: payloads_def boot_state_def app_task_def task_zero_def)
  finally show ?thesis .
qed

text \<open>The first tick after boot, and the first task that blocks.\<close>

lemma first_timer:
  "\<exists>s :: timer_state. sched_reach ({THeap 0x1000, THeap 0x2000}, s) \<and> current_task s = THeap 0x1000
     \<and> sched_inv s [THeap 0x1000, THeap 0x2000] [] []"
proof -
  let ?s = "two_tasks\<lparr>global_counter := global_counter two_tasks + TIMER_TICK_MS\<rparr>"
  have "q_head (wakeup_queue two_tasks) = TNull"
    using two_tasks_inv by (simp add: sched_inv_def sched_wf_def tq_holds_Nil)
  then have "do_ir_timer two_tasks = Some (schedule SCHED_CAUSE_TIMER ?s)"
    by (simp add: do_ir_timer_def sched_update_wakeupq_def)
  with two_tasks_reach have "sched_reach ({THeap 0x1000, THeap 0x2000}, schedule SCHED_CAUSE_TIMER ?s)"
    by (blast intro: reach_step step_timer)
  moreover have "current_task ?s = TNull"
    by (simp add: two_tasks_def start_task_def sched_runq_enq_eq boot_state_def)
  with first_turn [of ?s "[THeap 0x1000, THeap 0x2000]"] two_tasks_inv
  have "current_task (schedule SCHED_CAUSE_TIMER ?s) = THeap 0x1000" by simp
  moreover have "sched_inv (schedule SCHED_CAUSE_TIMER ?s) [THeap 0x1000, THeap 0x2000] [] []"
    by (rule schedule_inv) (use two_tasks_inv in simp)
  ultimately show ?thesis by blast
qed

lemma first_sleeper:
  "\<exists>s :: timer_state. sched_wf s [THeap 0x2000] [THeap 0x1000] [] \<and> wakeup_msec (tasks s (THeap 0x1000)) = m"
  using wakeup_after_msec_spec [of "schedule SCHED_CAUSE_TIMER two_tasks" "[]" "THeap 0x1000" "[THeap 0x2000]" "[]" "[]" m]
    two_tasks_running by (auto simp: sched_inv_def)

lemma first_waiter:
  "\<exists>s :: timer_state. sched_wf s [THeap 0x2000] [] [THeap 0x1000] \<and> wakeup_event (tasks s (THeap 0x1000)) = e"
  using wakeup_after_event_spec [of "schedule SCHED_CAUSE_TIMER two_tasks" "[]" "THeap 0x1000" "[THeap 0x2000]" "[]" "[]" e]
    two_tasks_running by (auto simp: sched_inv_def)

section \<open>Properties\<close>

text \<open>
  C3. Safety of the scheduler. In every state the kernel can reach from boot by timer interrupts,
  keyboard events, blocking calls, returns from them and task starts, the three queues hold every
  started task exactly once, the current task is none or a runnable one, the task register holds
  its selector (so the task that runs is the one \<^verbatim>\<open>current_task\<close> names), and no null function
  pointer has been called.
\<close>

theorem scheduler_safe:
  assumes "sched_reach (A, s)"
  shows "\<exists>rs ws es. tq_holds (tasks s, run_queue s) rs \<and> tq_holds (tasks s, wakeup_queue s) ws
    \<and> tq_holds (tasks s, wakeup_event_queue s) es
    \<and> distinct (rs @ ws @ es) \<and> set (rs @ ws @ es) = A
    \<and> (current_task s = TNull \<or> current_task s \<in> set rs)
    \<and> tr s = current_selector s \<and> NullCall \<notin> set (trace s)"
proof -
  from reach_inv [OF assms] obtain rs ws es
    where "sched_inv s rs ws es" and "set (rs @ ws @ es) = A" by blast
  then show ?thesis
    by (intro exI [of _ rs] exI [of _ ws] exI [of _ es])
      (simp add: sched_inv_def sched_wf_def running_ok_def ctx_ok_def)
qed

theorem scheduler_safe_witness:
  "sched_reach ({THeap 0x1000, THeap 0x2000}, two_tasks)
   \<and> (\<exists>rs ws es. distinct (rs @ ws @ es) \<and> set (rs @ ws @ es) = {THeap 0x1000, THeap 0x2000}
        \<and> tr two_tasks = current_selector two_tasks)"
  using scheduler_safe [OF two_tasks_reach] two_tasks_reach by blast

text \<open>
  C18. Progress of the scheduler. In every reachable state the interrupt handlers return (their loops
  over the wait queues end, whatever is in them), and a running task that blocks is switched away
  from.
\<close>

theorem scheduler_progress:
  assumes "sched_reach (A, s)"
  shows "(\<exists>s'. do_ir_timer s = Some s') \<and> (\<exists>r s'. sched_update_wakeupevq e s = Some (r, s'))
    \<and> (current_task s \<noteq> TNull \<longrightarrow>
        (\<exists>i s'. wakeup_after_msec m s = Some (i, s') \<and> current_task s' \<noteq> current_task s)
      \<and> (\<exists>i s'. wakeup_after_event e s = Some (i, s') \<and> current_task s' \<noteq> current_task s))"
proof -
  from reach_inv [OF assms] obtain rs ws es where inv: "sched_inv s rs ws es" by blast
  have "(\<exists>i s'. wakeup_after_msec m s = Some (i, s') \<and> current_task s' \<noteq> current_task s)
      \<and> (\<exists>i s'. wakeup_after_event e s = Some (i, s') \<and> current_task s' \<noteq> current_task s)"
    if cur: "current_task s \<noteq> TNull"
  proof -
    from block_member [OF inv cur] obtain a b where rs: "rs = a @ current_task s # b" .
    with inv have "distinct (a @ current_task s # b)" by (auto simp: sched_inv_def sched_wf_def)
    then have "a @ b \<noteq> [] \<Longrightarrow> hd (b @ a) \<noteq> current_task s" by (cases b; cases a) auto
    then show ?thesis
      using wakeup_after_msec_spec [OF inv [unfolded rs] refl, of m]
        wakeup_after_event_spec [OF inv [unfolded rs] refl, of e] cur by (metis (full_types))
  qed
  then show ?thesis using do_ir_timer_inv [OF inv] update_wakeupevq_inv [OF inv, of e] by blast
qed

theorem scheduler_progress_witness:
  "\<exists>s :: timer_state. sched_reach ({THeap 0x1000, THeap 0x2000}, s) \<and> current_task s = THeap 0x1000
     \<and> (\<exists>i s'. wakeup_after_msec 20 s = Some (i, s') \<and> current_task s' \<noteq> THeap 0x1000)"
proof -
  from first_timer obtain s :: timer_state where "sched_reach ({THeap 0x1000, THeap 0x2000}, s)"
    and "current_task s = THeap 0x1000" by blast
  with scheduler_progress [of _ s _ 20] show ?thesis by fastforce
qed

text \<open>
  C5. Waking by time. \<^verbatim>\<open>sched_update_wakeupq\<close>, called by every timer tick, always returns. If the
  head of the wait queue is due (at most one tick left), only the head is moved to the end of the
  run queue, and no other task is aged in this tick; if the head is not due, every waiting task is
  aged by one tick and all due ones are moved, in order. Links and payloads of other tasks, the
  event queue and the rest of the state stay.
\<close>

theorem update_wakeupq_effect:
  assumes "sched_wf s rs ws es"
  shows "\<exists>s'. sched_update_wakeupq s = Some (if ws = [] then - 1 else 0, s')
    \<and> sched_wf s' (rs @ woken msec_due (payloads s) ws) (still_waiting msec_due (payloads s) ws) es
    \<and> payloads s' = update_view msec_upd (visited msec_due (payloads s) ws) (payloads s)
    \<and> sched_frame s' = sched_frame s"
  using update_wakeupq_spec [OF assms] by blast

theorem update_wakeupq_effect_witness:
  "\<exists>(s :: timer_state) s'. sched_wf s [THeap 0x2000] [THeap 0x1000] [] \<and> sched_update_wakeupq s = Some (0, s')
     \<and> sched_wf s' [THeap 0x2000, THeap 0x1000] [] []"
proof -
  from first_sleeper [of 10] obtain s :: timer_state where s: "sched_wf s [THeap 0x2000] [THeap 0x1000] []"
    and m: "wakeup_msec (tasks s (THeap 0x1000)) = 10" by blast
  from m have "msec_due (payloads s (THeap 0x1000))"
    by (simp add: msec_due_def payloads_def TIMER_TICK_MS_def)
  with update_wakeupq_effect [OF s] s show ?thesis by fastforce
qed

text \<open>
  C24. Waking by an event. \<^verbatim>\<open>sched_update_wakeupevq\<close> always returns and does the same with the tasks
  that wait for exactly this event: only the head if it waits for it, otherwise every such task, in
  order, each with its event cleared; tasks that wait for other events stay.
\<close>

theorem update_wakeupevq_effect:
  assumes "sched_wf s rs ws es"
  shows "\<exists>s'. sched_update_wakeupevq e s = Some (if es = [] then - 1 else 0, s')
    \<and> sched_wf s' (rs @ woken (event_due e) (payloads s) es) ws
        (still_waiting (event_due e) (payloads s) es)
    \<and> payloads s' = update_view (event_upd e) (visited (event_due e) (payloads s) es) (payloads s)
    \<and> sched_frame s' = sched_frame s"
  using update_wakeupevq_spec [OF assms, of e] by blast

theorem update_wakeupevq_effect_witness:
  "\<exists>(s :: timer_state) s'. sched_wf s [THeap 0x2000] [] [THeap 0x1000] \<and> sched_update_wakeupevq 1 s = Some (0, s')
     \<and> sched_wf s' [THeap 0x2000, THeap 0x1000] [] []"
proof -
  from first_waiter [of 1] obtain s :: timer_state where s: "sched_wf s [THeap 0x2000] [] [THeap 0x1000]"
    and m: "wakeup_event (tasks s (THeap 0x1000)) = 1" by blast
  from m have "event_due 1 (payloads s (THeap 0x1000))" by (simp add: event_due_def payloads_def)
  with update_wakeupevq_effect [OF s, of 1] s show ?thesis by fastforce
qed

text \<open>
  C7. Blocking. A running task that calls \<^verbatim>\<open>wakeup_after_msec\<close> or \<^verbatim>\<open>wakeup_after_event\<close> leaves the
  run queue, joins the end of its wait queue with the time or event it waits for, and the processor
  goes to its successor in the ring, or to the kernel task if it was the only one. The \<^verbatim>\<open>dummy_task\<close>
  that stands in for it during the switch never stays behind as the current task.
\<close>

theorem blocking_effect:
  assumes "sched_inv s (a @ c # b) ws es" and "current_task s = c"
  shows "(\<exists>i s'. wakeup_after_msec m s = Some (i, s') \<and> sched_inv s' (a @ b) (ws @ [c]) es
        \<and> wakeup_msec (tasks s' c) = m
        \<and> current_task s' = (if a @ b = [] then TNull else hd (b @ a)))
    \<and> (\<exists>i s'. wakeup_after_event e s = Some (i, s') \<and> sched_inv s' (a @ b) ws (es @ [c])
        \<and> wakeup_event (tasks s' c) = e
        \<and> current_task s' = (if a @ b = [] then TNull else hd (b @ a)))"
  using wakeup_after_msec_spec [OF assms, of m] wakeup_after_event_spec [OF assms, of e] by blast

theorem blocking_effect_witness:
  "\<exists>i s'. wakeup_after_msec 20 (schedule SCHED_CAUSE_TIMER two_tasks) = Some (i, s')
     \<and> sched_inv s' [THeap 0x2000] [THeap 0x1000] [] \<and> current_task s' = THeap 0x2000"
  using blocking_effect [of "schedule SCHED_CAUSE_TIMER two_tasks" "[]" "THeap 0x1000" "[THeap 0x2000]" "[]" "[]" 20]
    two_tasks_running by fastforce

text \<open>The six queue operations, each with what it leaves alone.\<close>

lemma sched_queue_enqs:
  assumes "sched_wf s rs ws es" and "t \<noteq> TNull" and "t \<noteq> TDummy" and "t \<notin> set (rs @ ws @ es)"
  shows "sched_wf (snd (sched_runq_enq t s)) (rs @ [t]) ws es"
    and "sched_wf (snd (sched_wakeupq_enq t s)) rs (ws @ [t]) es"
    and "sched_wf (snd (sched_wakeupevq_enq t s)) rs ws (es @ [t])"
  using assms by (auto intro: rq.holds_enq wq.holds_enq eq.holds_enq)

lemma queue_member_head:
  assumes "tq_holds (T, q) xs" and "x \<in> set xs"
  shows "q_head q \<noteq> TNull"
  using split_list [OF assms(2)] assms(1) tq_holds_head by metis

lemma sched_queue_dels:
  assumes "sched_wf s rs ws es"
  shows "r \<in> set rs \<Longrightarrow> sched_wf (snd (sched_runq_del r s)) (remove1 r rs) ws es
      \<and> payloads (snd (sched_runq_del r s)) = payloads s
      \<and> sched_frame (snd (sched_runq_del r s)) = sched_frame s"
    and "r \<in> set ws \<Longrightarrow> sched_wf (snd (sched_wakeupq_del r s)) rs (remove1 r ws) es
      \<and> payloads (snd (sched_wakeupq_del r s)) = payloads s
      \<and> sched_frame (snd (sched_wakeupq_del r s)) = sched_frame s"
    and "r \<in> set es \<Longrightarrow> sched_wf (snd (sched_wakeupevq_del r s)) rs ws (remove1 r es)
      \<and> payloads (snd (sched_wakeupevq_del r s)) = payloads s
      \<and> sched_frame (snd (sched_wakeupevq_del r s)) = sched_frame s"
  using queue_member_head [OF sched_wfD(1) [OF assms]] queue_member_head [OF sched_wfD(2) [OF assms]]
    queue_member_head [OF sched_wfD(3) [OF assms]] rq.holds_del_remove1 [OF assms]
    wq.holds_del_remove1 [OF assms] eq.holds_del_remove1 [OF assms]
  by (simp_all add: payloads_del_frame sched_frame_del)

text \<open>
  C27. The three queues are FIFO queues in one store of links. Enqueueing a task that is on none of
  them appends it to its queue, also when that queue is empty; deleting a task of a queue, at
  whatever place, removes it; the other queues, all task payloads, EFLAGS and the rest of the state
  stay. Deleting from an empty queue changes nothing and reports \<open>-1\<close>.
\<close>

theorem sched_queues_refine:
  assumes "sched_wf s rs ws es" and "t \<noteq> TNull" and "t \<noteq> TDummy" and "t \<notin> set (rs @ ws @ es)"
  shows "sched_wf (snd (sched_runq_enq t s)) (rs @ [t]) ws es
    \<and> sched_wf (snd (sched_wakeupq_enq t s)) rs (ws @ [t]) es
    \<and> sched_wf (snd (sched_wakeupevq_enq t s)) rs ws (es @ [t])
    \<and> (\<lambda>s. (payloads s, sched_frame s)) ` {snd (sched_runq_enq t s), snd (sched_wakeupq_enq t s),
        snd (sched_wakeupevq_enq t s)} = {(payloads s, sched_frame s)}
    \<and> (\<forall>r \<in> set rs. sched_wf (snd (sched_runq_del r s)) (remove1 r rs) ws es
        \<and> payloads (snd (sched_runq_del r s)) = payloads s
        \<and> sched_frame (snd (sched_runq_del r s)) = sched_frame s)
    \<and> (\<forall>w \<in> set ws. sched_wf (snd (sched_wakeupq_del w s)) rs (remove1 w ws) es
        \<and> payloads (snd (sched_wakeupq_del w s)) = payloads s
        \<and> sched_frame (snd (sched_wakeupq_del w s)) = sched_frame s)
    \<and> (\<forall>e \<in> set es. sched_wf (snd (sched_wakeupevq_del e s)) rs ws (remove1 e es)
        \<and> payloads (snd (sched_wakeupevq_del e s)) = payloads s
        \<and> sched_frame (snd (sched_wakeupevq_del e s)) = sched_frame s)
    \<and> (rs = [] \<longrightarrow> sched_runq_del t s = (- 1, s)) \<and> (ws = [] \<longrightarrow> sched_wakeupq_del t s = (- 1, s))
    \<and> (es = [] \<longrightarrow> sched_wakeupevq_del t s = (- 1, s))"
proof -
  have "rs = [] \<longrightarrow> sched_runq_del t s = (- 1, s)" "ws = [] \<longrightarrow> sched_wakeupq_del t s = (- 1, s)"
    "es = [] \<longrightarrow> sched_wakeupevq_del t s = (- 1, s)"
    using sched_wfD(1-3) [OF assms(1)]
    by (auto simp: sched_runq_del_def sched_wakeupq_del_def sched_wakeupevq_del_def tq_holds_Nil)
  with sched_queue_enqs [OF assms] sched_queue_dels [OF assms(1)] show ?thesis
    by (simp add: payloads_frame sched_frame_enq)
qed

text \<open>The empty event queue takes its first task, the run queue its second, the wait queue loses its only one.\<close>

theorem sched_queues_refine_witness:
  "\<exists>s :: timer_state. sched_wf s [THeap 0x2000] [THeap 0x1000] []
     \<and> sched_wf (snd (sched_wakeupevq_enq (THeap 0x4000) s)) [THeap 0x2000] [THeap 0x1000] [THeap 0x4000]
     \<and> sched_wf (snd (sched_runq_enq (THeap 0x4000) s)) [THeap 0x2000, THeap 0x4000] [THeap 0x1000] []
     \<and> sched_wf (snd (sched_wakeupq_del (THeap 0x1000) s)) [THeap 0x2000] [] []"
proof -
  from first_sleeper [of 10] obtain s :: timer_state
    where s: "sched_wf s [THeap 0x2000] [THeap 0x1000] []" by blast
  with sched_queues_refine [OF s, of "THeap 0x4000"] show ?thesis by auto
qed

end
