(* ===== verification/Sched_Sleep.thy ===== *)
theory Sched_Sleep
  imports Sched_Props
begin

text \<open>
  How long a task stays blocked, whatever the other tasks and the interrupts do meanwhile. The
  argument for a sleeping task and for one that waits for an event is the same countdown; it is the
  locale \<open>countdown\<close>, interpreted on the two ways to block.
\<close>

section \<open>Runs and countdowns\<close>

text \<open>How many of the steps of a run are of the kind \<open>counts\<close>.\<close>

fun count_steps :: "('c \<Rightarrow> 'c \<Rightarrow> bool) \<Rightarrow> 'c list \<Rightarrow> nat" where
  "count_steps counts (c # d # cs) = (if counts c d then 1 else 0) + count_steps counts (d # cs)"
| "count_steps counts cs = 0"

text \<open>
  \<open>waits hi lo c\<close>: at least \<open>lo\<close> and at most \<open>hi\<close> counted steps are still to come before the one that
  ends the wait.
\<close>

locale countdown =
  fixes step :: "'c \<Rightarrow> 'c \<Rightarrow> bool" and counts :: "'c \<Rightarrow> 'c \<Rightarrow> bool"
    and waits :: "nat \<Rightarrow> nat \<Rightarrow> 'c \<Rightarrow> bool" and ended :: "'c \<Rightarrow> bool"
  assumes other_step: "waits hi lo c \<Longrightarrow> step c c' \<Longrightarrow> \<not> counts c c' \<Longrightarrow>
      \<exists>hi' lo'. waits hi' lo' c' \<and> hi' \<le> hi \<and> lo \<le> lo'"
    and counted_step: "waits hi lo c \<Longrightarrow> counts c c' \<Longrightarrow>
      lo = 0 \<and> ended c' \<or> (\<exists>hi' lo'. waits hi' lo' c' \<and> hi' < hi \<and> lo \<le> Suc lo')"
begin

lemma next_step:
  assumes "waits hi lo c" and "step c c'"
  shows "lo = 0 \<and> counts c c' \<and> ended c' \<or> (\<exists>hi' lo'. waits hi' lo' c'
    \<and> hi' + (if counts c c' then 1 else 0) \<le> hi \<and> lo \<le> lo' + (if counts c c' then 1 else 0))"
  using other_step [OF assms] counted_step [OF assms(1)] by (cases "counts c c'") fastforce+

lemma ends_in_time:
  "waits hi lo c \<Longrightarrow> successively step (c # cs) \<Longrightarrow> hi < count_steps counts (c # cs) \<Longrightarrow>
   \<exists>d \<in> set (c # cs). ended d"
proof (induction cs arbitrary: hi lo c)
  case (Cons d cs)
  from Cons.prems(2) have st: "step c d" and run: "successively step (d # cs)" by simp_all
  from next_step [OF Cons.prems(1) st] show ?case
  proof (elim disjE exE conjE)
    fix hi' lo' assume w: "waits hi' lo' d" and "hi' + (if counts c d then 1 else 0) \<le> hi"
    then have "hi' < count_steps counts (d # cs)" using Cons.prems(3) by auto
    from Cons.IH [OF w run this] show ?thesis by auto
  qed auto
qed simp

lemma never_early:
  "waits hi lo c \<Longrightarrow> successively step (c # cs) \<Longrightarrow> count_steps counts (c # cs) \<le> lo \<Longrightarrow>
   \<forall>d \<in> set (c # cs). \<exists>hi' lo'. waits hi' lo' d"
proof (induction cs arbitrary: hi lo c)
  case (Cons d cs)
  from Cons.prems(2) have st: "step c d" and run: "successively step (d # cs)" by simp_all
  from Cons.prems(3) have "counts c d \<Longrightarrow> lo \<noteq> 0" by auto
  with next_step [OF Cons.prems(1) st] obtain hi' lo' where w: "waits hi' lo' d"
    and "lo \<le> lo' + (if counts c d then 1 else 0)" by blast
  then have "count_steps counts (d # cs) \<le> lo'" using Cons.prems(3) by auto
  from Cons.IH [OF w run this] Cons.prems(1) show ?case by auto
qed auto

end

section \<open>What the steps do to the wait of a blocked task\<close>

text \<open>The time and the event a task waits for.\<close>

definition wait_fields :: "'a sched_state_scheme \<Rightarrow> tptr \<Rightarrow> u32 \<times> u8" where
  "wait_fields s p = (wakeup_msec (tasks s p), wakeup_event (tasks s p))"

lemma wait_fields_payloads: "wait_fields s p = (wakeup_msec (payloads s p), wakeup_event (payloads s p))"
  by (simp add: wait_fields_def payloads_def)

lemma wait_fields_schedule [simp]: "wait_fields (schedule c s) = wait_fields s"
  by (auto simp: wait_fields_def schedule_def Let_def set_switched_def fun_eq_iff)

lemma wait_fields_tasks: "tasks s' = tasks s \<Longrightarrow> wait_fields s' = wait_fields s"
  by (simp add: wait_fields_def fun_eq_iff)

lemma wait_fields_block:
  assumes "\<And>T. wakeup_msec (u T p) = wakeup_msec (T p) \<and> wakeup_event (u T p) = wakeup_event (T p)"
  shows "wait_fields (block_state c u s) p = wait_fields s p"
proof -
  have "wait_fields (snd (sched_runq_del c t)) = wait_fields t" for t :: "'a sched_state_scheme"
    by (simp add: wait_fields_payloads runq_del_payloads fun_eq_iff)
  then show ?thesis
    using assms by (simp add: block_state_def Let_def) (simp add: wait_fields_def set_t_next_def)
qed

lemma wait_fields_enq [simp]:
  "wait_fields (snd (sched_runq_enq t s)) = wait_fields s" "wait_fields (snd (sched_wakeupq_enq t s)) = wait_fields s"
  "wait_fields (snd (sched_wakeupevq_enq t s)) = wait_fields s"
  by (simp_all add: wait_fields_payloads payloads_frame fun_eq_iff)

lemma blocking_wait_fields:
  assumes "p \<noteq> current_task s"
  shows "wakeup_after_msec m s = Some (i, s') \<Longrightarrow> wait_fields s' p = wait_fields s p"
    and "wakeup_after_event e s = Some (i, s') \<Longrightarrow> wait_fields s' p = wait_fields s p"
proof -
  obtain b s1 where L: "kern_lock s = (b, s1)" by fastforce
  have l: "wait_fields s1 = wait_fields s" by (rule wait_fields_tasks) (use kern_lock_sched [OF L] in simp)
  have c: "wait_fields (t\<lparr>current_task := x\<rparr>) = wait_fields t" for t :: "'a sched_state_scheme" and x
    by (rule wait_fields_tasks) simp
  show "wakeup_after_msec m s = Some (i, s') \<Longrightarrow> wait_fields s' p = wait_fields s p"
    using assms by (auto simp: wakeup_after_msec_eq [OF L] c l wait_fields_block set_msec_def split: if_splits)
  show "wakeup_after_event e s = Some (i, s') \<Longrightarrow> wait_fields s' p = wait_fields s p"
    using assms by (auto simp: wakeup_after_event_eq [OF L] c l wait_fields_block set_event_def split: if_splits)
qed

text \<open>Where \<open>t\<close> is among those that wait.\<close>

lemma position_waiting:
  assumes "distinct W" and "i < length W" and "\<not> due (v (W ! i))"
  shows "\<exists>j \<le> i. j < length (still_waiting due v W) \<and> still_waiting due v W ! j = W ! i
    \<and> (due (v (hd W)) \<longrightarrow> j < i)"
proof (cases W)
  case Nil
  with assms(2) show ?thesis by simp
next
  case (Cons h r)
  show ?thesis
  proof (cases i)
    case 0
    with Cons assms(3) show ?thesis by auto
  next
    case (Suc k)
    with Cons assms(2) have k: "k < length r" by simp
    show ?thesis
    proof (cases "due (v h)")
      case True
      with Cons Suc k show ?thesis by (intro exI [of _ k]) simp
    next
      case False
      have f: "filter P r = filter P (take k r) @ filter P (drop k r)" for P by (metis append_take_drop_id filter_append)
      have "drop k r = r ! k # drop (Suc k) r" using k by (simp add: Cons_nth_drop_Suc)
      with f [of "\<lambda>u. \<not> due (v u)"] assms(3) Cons Suc
      have e: "filter (\<lambda>u. \<not> due (v u)) r = filter (\<lambda>u. \<not> due (v u)) (take k r) @ r ! k # filter (\<lambda>u. \<not> due (v u)) (drop (Suc k) r)"
        by simp
      have "length (filter (\<lambda>u. \<not> due (v u)) (take k r)) \<le> k"
        using length_filter_le [of "\<lambda>u. \<not> due (v u)" "take k r"] by simp
      with False Cons Suc e show ?thesis
        by (intro exI [of _ "Suc (length (filter (\<lambda>u. \<not> due (v u)) (take k r)))"]) (simp add: nth_append)
    qed
  qed
qed

lemma position_due:
  assumes "distinct W" and "i < length W" and "due (v (W ! i))"
  shows "W ! i \<in> set (woken due v W) \<or> due (v (hd W)) \<and> (\<exists>j < i. j < length (still_waiting due v W)
    \<and> still_waiting due v W ! j = W ! i) \<and> W ! i \<notin> visited due v W"
proof (cases W)
  case (Cons h r)
  with assms show ?thesis by (cases i) (auto intro: exI [of _ "i - 1"])
qed (use assms in simp)

text \<open>One entry into the scheduler.\<close>

lemma timer_entry:
  assumes inv: "sched_inv s rs ws es" and d: "do_ir_timer s = Some s'"
  shows "sched_inv s' (rs @ woken msec_due (payloads s) ws) (still_waiting msec_due (payloads s) ws) es"
    and "wait_fields s' p = (if p \<in> visited msec_due (payloads s) ws
      then (wakeup_msec (msec_upd (payloads s p)), snd (wait_fields s p)) else wait_fields s p)"
proof -
  let ?s = "s\<lparr>global_counter := global_counter s + TIMER_TICK_MS\<rparr>"
  show "sched_inv s' (rs @ woken msec_due (payloads s) ws) (still_waiting msec_due (payloads s) ws) es"
    using do_ir_timer_inv [OF inv] d by auto
  have "sched_wf ?s rs ws es" using inv by (simp add: sched_inv_def sched_wf_def)
  from update_wakeupq_spec [OF this] obtain r u where u: "sched_update_wakeupq ?s = Some (r, u)"
    and pay: "payloads u = update_view msec_upd (visited msec_due (payloads s) ws) (payloads s)" by auto
  from d u have "s' = schedule SCHED_CAUSE_TIMER u" by (simp add: do_ir_timer_def)
  then have "wait_fields s' p = wait_fields u p" by simp
  then show "wait_fields s' p = (if p \<in> visited msec_due (payloads s) ws
      then (wakeup_msec (msec_upd (payloads s p)), snd (wait_fields s p)) else wait_fields s p)"
    by (simp add: wait_fields_payloads pay update_view_def msec_upd_def)
qed

lemma event_entry:
  assumes inv: "sched_inv s rs ws es" and d: "sched_update_wakeupevq e s = Some (r, s')"
  shows "sched_inv s' (rs @ woken (event_due e) (payloads s) es) ws (still_waiting (event_due e) (payloads s) es)"
    and "p \<notin> visited (event_due e) (payloads s) es \<or> \<not> event_due e (payloads s p) \<Longrightarrow> wait_fields s' p = wait_fields s p"
proof -
  show "sched_inv s' (rs @ woken (event_due e) (payloads s) es) ws (still_waiting (event_due e) (payloads s) es)"
    using update_wakeupevq_inv [OF inv, of e] d by auto
  have "sched_wf s rs ws es" using inv by (simp add: sched_inv_def)
  from update_wakeupevq_spec [OF this, of e] d
  have "payloads s' = update_view (event_upd e) (visited (event_due e) (payloads s) es) (payloads s)" by auto
  then show "p \<notin> visited (event_due e) (payloads s) es \<or> \<not> event_due e (payloads s p) \<Longrightarrow> wait_fields s' p = wait_fields s p"
    by (auto simp: wait_fields_payloads update_view_def event_upd_def)
qed

text \<open>A step that is neither a tick nor an event: who waits already is behind nobody new.\<close>

lemma other_entry:
  assumes step: "sched_step (A, s) (A', s')" and inv: "sched_inv s rs ws es" and A: "set (rs @ ws @ es) = A"
  shows "do_ir_timer s = Some s' \<and> A' = A \<or> (\<exists>e r. sched_update_wakeupevq e s = Some (r, s')) \<and> A' = A
    \<or> (\<exists>rs' a b. sched_inv s' rs' (ws @ a) (es @ b) \<and> set (rs' @ (ws @ a) @ es @ b) = A'
        \<and> (\<forall>p \<in> set (ws @ es). wait_fields s' p = wait_fields s p))"
proof (rule sched_stepE [OF step], goal_cases)
  case (3 m i)
  then have cur: "current_task s \<noteq> TNull" by (auto dest: blocked_current)
  from block_member [OF inv cur] obtain a b where rs: "rs = a @ current_task s # b" .
  from wakeup_after_msec_spec [OF inv [unfolded rs] refl, of m] 3
  have "sched_inv s' (a @ b) (ws @ [current_task s]) (es @ [])" by auto
  moreover have "current_task s \<notin> set (ws @ es)" using inv rs by (auto simp: sched_inv_def sched_wf_def)
  then have "\<forall>p \<in> set (ws @ es). wait_fields s' p = wait_fields s p" using blocking_wait_fields(1) 3 by metis
  moreover have "set ((a @ b) @ (ws @ [current_task s]) @ es @ []) = A'" using A rs 3 by auto
  ultimately show ?case by blast
next
  case (4 e i)
  then have cur: "current_task s \<noteq> TNull" by (auto dest: blocked_current)
  from block_member [OF inv cur] obtain a b where rs: "rs = a @ current_task s # b" .
  from wakeup_after_event_spec [OF inv [unfolded rs] refl, of e] 4
  have "sched_inv s' (a @ b) (ws @ []) (es @ [current_task s])" by auto
  moreover have "current_task s \<notin> set (ws @ es)" using inv rs by (auto simp: sched_inv_def sched_wf_def)
  then have "\<forall>p \<in> set (ws @ es). wait_fields s' p = wait_fields s p" using blocking_wait_fields(2) 4 by metis
  moreover have "set ((a @ b) @ (ws @ []) @ es @ [current_task s]) = A'" using A rs 4 by auto
  ultimately show ?case by blast
next
  case (5 i)
  then have "wait_fields s' = wait_fields s"
    by (auto intro!: wait_fields_tasks simp: wakeup_resume_def kern_unlock_def sti_def)
  moreover from 5 inv have "sched_inv s' rs (ws @ []) (es @ [])" by simp
  moreover have "set (rs @ (ws @ []) @ es @ []) = A'" using A 5 by simp
  ultimately show ?case by metis
next
  case (6 t k)
  with A have t: "t \<notin> set (rs @ ws @ es)" by simp
  from start_inv [OF inv t, of k] 6 have "sched_inv s' (rs @ [t]) (ws @ []) (es @ [])" by simp
  moreover have w: "wait_fields s' p = wait_fields s p" if "p \<noteq> t" for p
    using 6 that by (simp add: wait_fields_def [of "s\<lparr>tasks := (tasks s)(t := k)\<rparr>"]) (simp add: wait_fields_def)
  have "\<forall>p \<in> set (ws @ es). wait_fields s' p = wait_fields s p" by (intro ballI w) (use t in auto)
  moreover have "set ((rs @ [t]) @ (ws @ []) @ es @ []) = A'" using A 6 by auto
  ultimately show ?case by blast
qed auto

section \<open>The two ways to block\<close>

type_synonym 'a sched_config = "tptr set \<times> 'a timer_state_scheme"

definition runnable :: "tptr \<Rightarrow> 'a sched_config \<Rightarrow> bool" where
  "runnable t c \<longleftrightarrow> (\<exists>rs. tq_holds (tasks (snd c), run_queue (snd c)) rs \<and> t \<in> set rs)"

definition asleep :: "tptr \<Rightarrow> 'a sched_config \<Rightarrow> bool" where
  "asleep t c \<longleftrightarrow> (\<exists>ws. tq_holds (tasks (snd c), wakeup_queue (snd c)) ws \<and> t \<in> set ws)"

definition awaiting :: "u8 \<Rightarrow> tptr \<Rightarrow> 'a sched_config \<Rightarrow> bool" where
  "awaiting e t c \<longleftrightarrow> (\<exists>es. tq_holds (tasks (snd c), wakeup_event_queue (snd c)) es \<and> t \<in> set es)
     \<and> wakeup_event (tasks (snd c) t) = e"

definition is_tick :: "'a sched_config \<Rightarrow> 'a sched_config \<Rightarrow> bool" where
  "is_tick c c' \<longleftrightarrow> fst c' = fst c \<and> do_ir_timer (snd c) = Some (snd c')"

definition is_event :: "u8 \<Rightarrow> 'a sched_config \<Rightarrow> 'a sched_config \<Rightarrow> bool" where
  "is_event e c c' \<longleftrightarrow> fst c' = fst c \<and> (\<exists>r. sched_update_wakeupevq e (snd c) = Some (r, snd c'))"

text \<open>The ticks that pass before a counter of \<open>v\<close> milliseconds is due.\<close>

definition full_ticks :: "u32 \<Rightarrow> nat" where
  "full_ticks v = (unat v - 1) div unat TIMER_TICK_MS"

lemma full_ticks_due: "msec_due k \<Longrightarrow> full_ticks (wakeup_msec k) = 0"
proof -
  assume "msec_due k"
  then have "unat (wakeup_msec k) \<le> 10" by (simp add: msec_due_def TIMER_TICK_MS_def word_le_nat_alt)
  then show ?thesis by (simp add: full_ticks_def TIMER_TICK_MS_def)
qed

lemma full_ticks_aged: "\<not> msec_due k \<Longrightarrow> full_ticks (wakeup_msec k) = Suc (full_ticks (wakeup_msec (msec_upd k)))"
proof -
  assume "\<not> msec_due k"
  then have "10 < unat (wakeup_msec k)" by (simp add: msec_due_def TIMER_TICK_MS_def word_le_nat_alt not_le)
  moreover from this have "unat (wakeup_msec k - 10) = unat (wakeup_msec k) - 10" by (simp add: unat_sub word_le_nat_alt)
  ultimately show ?thesis
    using \<open>\<not> msec_due k\<close> by (simp add: full_ticks_def msec_upd_def TIMER_TICK_MS_def)
qed

definition sleeps :: "tptr \<Rightarrow> nat \<Rightarrow> nat \<Rightarrow> 'a sched_config \<Rightarrow> bool" where
  "sleeps t hi lo c \<longleftrightarrow> (\<exists>rs ws es i. sched_inv (snd c) rs ws es \<and> set (rs @ ws @ es) = fst c
     \<and> i < length ws \<and> ws ! i = t \<and> lo = full_ticks (fst (wait_fields (snd c) t)) \<and> hi = i + lo)"

definition waits_for :: "u8 \<Rightarrow> tptr \<Rightarrow> nat \<Rightarrow> nat \<Rightarrow> 'a sched_config \<Rightarrow> bool" where
  "waits_for e t hi lo c \<longleftrightarrow> (\<exists>rs ws es. sched_inv (snd c) rs ws es \<and> set (rs @ ws @ es) = fst c
     \<and> hi < length es \<and> es ! hi = t \<and> snd (wait_fields (snd c) t) = e \<and> lo = 0)"

lemma sched_inv_queues:
  assumes "sched_inv s rs ws es"
  shows "tq_holds (tasks s, run_queue s) rs" "tq_holds (tasks s, wakeup_queue s) ws"
    "tq_holds (tasks s, wakeup_event_queue s) es" "distinct rs" "distinct ws" "distinct es"
    "distinct (rs @ ws @ es)"
  using assms by (auto simp: sched_inv_def sched_wf_def)

lemma sleeps_asleep: "sleeps t hi lo c \<Longrightarrow> asleep t c"
  using sched_inv_queues(2) by (fastforce simp: sleeps_def asleep_def)

lemma waits_for_awaiting: "waits_for e t hi lo c \<Longrightarrow> awaiting e t c"
  using sched_inv_queues(3) by (fastforce simp: waits_for_def awaiting_def wait_fields_def)

lemma sleeps_tick:
  assumes w: "sleeps t hi lo c" and tick: "is_tick c c'"
  shows "lo = 0 \<and> runnable t c' \<or> (\<exists>hi' lo'. sleeps t hi' lo' c' \<and> hi' < hi \<and> lo \<le> Suc lo')"
proof -
  obtain s s' where s: "s = snd c" "s' = snd c'" by blast
  from w obtain rs ws es i where inv: "sched_inv s rs ws es" and A: "set (rs @ ws @ es) = fst c"
    and i: "i < length ws" "ws ! i = t" and lo: "lo = full_ticks (fst (wait_fields s t))" and hi: "hi = i + lo"
    unfolding sleeps_def s by blast
  have d: "do_ir_timer s = Some s'" and A': "fst c' = fst c" using tick by (simp_all add: is_tick_def s)
  let ?r = "rs @ woken msec_due (payloads s) ws" and ?w = "still_waiting msec_due (payloads s) ws"
  note inv' = timer_entry(1) [OF inv d] and f = timer_entry(2) [OF inv d, of t]
  have all: "set (?r @ ?w @ es) = fst c'" using A A' set_woken_waiting [of msec_due "payloads s" ws] by auto
  have wt: "fst (wait_fields s t) = wakeup_msec (payloads s t)" by (simp add: wait_fields_payloads)
  have dw: "distinct ws" using sched_inv_queues(5) [OF inv] .
  have go: "\<exists>hi' lo'. sleeps t hi' lo' c' \<and> hi' < hi \<and> lo \<le> Suc lo'"
    if "j < length ?w" "?w ! j = t" "j + full_ticks (fst (wait_fields s' t)) < hi" "lo \<le> Suc (full_ticks (fst (wait_fields s' t)))" for j
  proof -
    from that(1,2) inv' all s have "sleeps t (j + full_ticks (fst (wait_fields s' t))) (full_ticks (fst (wait_fields s' t))) c'"
      unfolding sleeps_def by metis
    with that(3,4) show ?thesis by blast
  qed
  show ?thesis
  proof (cases "msec_due (payloads s t)")
    case True
    then have "lo = 0" using full_ticks_due lo wt by simp
    moreover have "runnable t c'" if "t \<in> set (woken msec_due (payloads s) ws)"
      using that sched_inv_queues(1) [OF inv'] s by (auto simp: runnable_def)
    moreover have ?thesis if "j < i" "j < length ?w" "?w ! j = t" "t \<notin> visited msec_due (payloads s) ws" for j
      using that f hi lo by (intro disjI2 go [of j]) simp_all
    ultimately show ?thesis using position_due [OF dw i(1), of msec_due "payloads s"] True i by blast
  next
    case False
    from position_waiting [OF dw i(1), of msec_due "payloads s"] False i obtain j
      where j: "j \<le> i" "j < length ?w" "?w ! j = t" "msec_due (payloads s (hd ws)) \<Longrightarrow> j < i" by auto
    have "t \<in> visited msec_due (payloads s) ws \<longleftrightarrow> \<not> msec_due (payloads s (hd ws))"
      using i False nth_mem [OF i(1)] by (cases ws) auto
    with f False full_ticks_aged [OF False] j lo wt hi show ?thesis
      by (intro disjI2 go [of j]) (auto split: if_splits)
  qed
qed

lemma waits_for_event:
  assumes w: "waits_for e t hi lo c" and event: "is_event e c c'"
  shows "lo = 0 \<and> runnable t c' \<or> (\<exists>hi' lo'. waits_for e t hi' lo' c' \<and> hi' < hi \<and> lo \<le> Suc lo')"
proof -
  obtain s s' where s: "s = snd c" "s' = snd c'" by blast
  from w obtain rs ws es where inv: "sched_inv s rs ws es" and A: "set (rs @ ws @ es) = fst c"
    and i: "hi < length es" "es ! hi = t" and e: "snd (wait_fields s t) = e" and lo: "lo = 0"
    unfolding waits_for_def s by blast
  obtain r where d: "sched_update_wakeupevq e s = Some (r, s')" and A': "fst c' = fst c"
    using event by (auto simp: is_event_def s)
  let ?r = "rs @ woken (event_due e) (payloads s) es" and ?e = "still_waiting (event_due e) (payloads s) es"
  note inv' = event_entry(1) [OF inv d] and f = event_entry(2) [OF inv d, of t]
  have all: "set (?r @ ws @ ?e) = fst c'" using A A' set_woken_waiting [of "event_due e" "payloads s" es] by auto
  have "event_due e (payloads s t)" using e by (simp add: event_due_def wait_fields_payloads)
  with position_due [OF sched_inv_queues(6) [OF inv] i(1), of "event_due e" "payloads s"] i
  consider "t \<in> set ?r" | j where "j < hi" "j < length ?e" "?e ! j = t" "t \<notin> visited (event_due e) (payloads s) es" by auto
  then show ?thesis
  proof cases
    case 1
    then show ?thesis using sched_inv_queues(1) [OF inv'] s lo unfolding runnable_def by blast
  next
    case (2 j)
    then have "waits_for e t j 0 c'" using inv' all f e s unfolding waits_for_def by metis
    with 2(1) lo show ?thesis by blast
  qed
qed

lemma visited_subset: "visited due v W \<subseteq> set W"
  by (cases W) auto

lemma sleeps_other:
  assumes w: "sleeps t hi lo c" and step: "sched_step c c'" and no: "\<not> is_tick c c'"
  shows "sleeps t hi lo c'"
proof -
  obtain A s A' s' where c: "c = (A, s)" "c' = (A', s')" by (metis surj_pair)
  from w obtain rs ws es i where inv: "sched_inv s rs ws es" and A: "set (rs @ ws @ es) = A"
    and i: "i < length ws" "ws ! i = t" and lo: "lo = full_ticks (fst (wait_fields s t))" and hi: "hi = i + lo"
    unfolding sleeps_def c by auto
  have t: "t \<in> set ws" "t \<notin> set es"
    using i sched_inv_queues(7) [OF inv] nth_mem [OF i(1)] by auto
  have "\<not> (do_ir_timer s = Some s' \<and> A' = A)" using no by (auto simp: is_tick_def c)
  with other_entry [OF step [unfolded c] inv A]
  consider (event) e r where "sched_update_wakeupevq e s = Some (r, s')" "A' = A"
    | (other) rs' a b where "sched_inv s' rs' (ws @ a) (es @ b)" "set (rs' @ (ws @ a) @ es @ b) = A'"
        "\<forall>p \<in> set (ws @ es). wait_fields s' p = wait_fields s p" by blast
  then show ?thesis
  proof cases
    case event
    note f = event_entry [OF inv event(1)]
    have "t \<notin> visited (event_due e) (payloads s) es" using t(2) visited_subset by blast
    then have "wait_fields s' t = wait_fields s t" using f(2) by blast
    moreover have "set ((rs @ woken (event_due e) (payloads s) es) @ ws @ still_waiting (event_due e) (payloads s) es) = A'"
      using A event(2) set_woken_waiting [of "event_due e" "payloads s" es] by auto
    ultimately show ?thesis using f(1) i lo hi unfolding sleeps_def c fst_conv snd_conv by metis
  next
    case other
    moreover have "i < length (ws @ a)" "(ws @ a) ! i = t" using i by (simp_all add: nth_append)
    moreover have "wait_fields s' t = wait_fields s t" using other(3) t(1) by simp
    ultimately show ?thesis using lo hi unfolding sleeps_def c fst_conv snd_conv by metis
  qed
qed

lemma waits_for_other:
  assumes w: "waits_for e t hi lo c" and step: "sched_step c c'" and no: "\<not> is_event e c c'"
  shows "\<exists>hi' lo'. waits_for e t hi' lo' c' \<and> hi' \<le> hi \<and> lo \<le> lo'"
proof -
  obtain A s A' s' where c: "c = (A, s)" "c' = (A', s')" by (metis surj_pair)
  from w obtain rs ws es where inv: "sched_inv s rs ws es" and A: "set (rs @ ws @ es) = A"
    and i: "hi < length es" "es ! hi = t" and e: "snd (wait_fields s t) = e" and lo: "lo = 0"
    unfolding waits_for_def c by auto
  have t: "t \<in> set es" "t \<notin> set ws"
    using i sched_inv_queues(7) [OF inv] nth_mem [OF i(1)] by auto
  have go: "waits_for e t j lo c'" if "sched_inv s' rs' ws' es'" "set (rs' @ ws' @ es') = A'" "j < length es'" "es' ! j = t"
    "wait_fields s' t = wait_fields s t" for rs' ws' es' j
    using that e lo unfolding waits_for_def c fst_conv snd_conv by metis
  have "sched_update_wakeupevq e s = Some (r, s') \<Longrightarrow> A' \<noteq> A" for r using no by (auto simp: is_event_def c)
  with other_entry [OF step [unfolded c] inv A]
  consider (tick) "do_ir_timer s = Some s'" "A' = A"
    | (event) f r where "sched_update_wakeupevq f s = Some (r, s')" "A' = A" "f \<noteq> e"
    | (other) rs' a b where "sched_inv s' rs' (ws @ a) (es @ b)" "set (rs' @ (ws @ a) @ es @ b) = A'"
        "\<forall>p \<in> set (ws @ es). wait_fields s' p = wait_fields s p" by metis
  then show ?thesis
  proof cases
    case tick
    have "t \<notin> visited msec_due (payloads s) ws" using t(2) visited_subset by blast
    with timer_entry [OF inv tick(1)] have "wait_fields s' t = wait_fields s t" by simp
    moreover have "set ((rs @ woken msec_due (payloads s) ws) @ still_waiting msec_due (payloads s) ws @ es) = A'"
      using A tick(2) set_woken_waiting [of msec_due "payloads s" ws] by auto
    ultimately show ?thesis using go [OF timer_entry(1) [OF inv tick(1)] _ i] by blast
  next
    case event
    have nd: "\<not> event_due f (payloads s t)" using e event(3) by (simp add: event_due_def wait_fields_payloads)
    with position_waiting [OF sched_inv_queues(6) [OF inv] i(1), of "event_due f" "payloads s"] i obtain j
      where j: "j \<le> hi" "j < length (still_waiting (event_due f) (payloads s) es)"
        "still_waiting (event_due f) (payloads s) es ! j = t" by auto
    moreover have "wait_fields s' t = wait_fields s t" using event_entry(2) [OF inv event(1)] nd by blast
    moreover have "set ((rs @ woken (event_due f) (payloads s) es) @ ws @ still_waiting (event_due f) (payloads s) es) = A'"
      using A event(2) set_woken_waiting [of "event_due f" "payloads s" es] by auto
    ultimately show ?thesis using go [OF event_entry(1) [OF inv event(1)]] by blast
  next
    case other
    moreover have "hi < length (es @ b)" "(es @ b) ! hi = t" using i by (simp_all add: nth_append)
    moreover have "wait_fields s' t = wait_fields s t" using other(3) t(1) by simp
    ultimately show ?thesis using go by blast
  qed
qed

interpretation sleeper: countdown sched_step is_tick "sleeps t" "runnable t" for t
proof (unfold_locales, goal_cases)
  case 1 then show ?case using sleeps_other by blast
next
  case 2 then show ?case by (rule sleeps_tick)
qed

interpretation waiter: countdown sched_step "is_event e" "waits_for e t" "runnable t" for e t
proof (unfold_locales, goal_cases)
  case 1 then show ?case by (rule waits_for_other)
next
  case 2 then show ?case by (rule waits_for_event)
qed

section \<open>How long a blocked task waits\<close>

lemma falls_asleep:
  assumes "sched_reach (A, s)" and "wakeup_after_msec m s = Some (i, s')"
    and ws: "tq_holds (tasks s, wakeup_queue s) ws"
  shows "sleeps (current_task s) (length ws + full_ticks m) (full_ticks m) (A, s')"
proof -
  from reach_inv [OF assms(1)] obtain rs vs es where inv: "sched_inv s rs vs es" and A: "set (rs @ vs @ es) = A" by blast
  have vs: "vs = ws" using sched_inv_queues(2) [OF inv] ws by (rule tq_holds_unique)
  have cur: "current_task s \<noteq> TNull" using assms(2) by (rule blocked_current)
  from block_member [OF inv cur] obtain a b where rs: "rs = a @ current_task s # b" .
  from wakeup_after_msec_spec [OF inv [unfolded rs] refl, of m] assms(2)
  have "sched_inv s' (a @ b) (ws @ [current_task s]) es" "wakeup_msec (tasks s' (current_task s)) = m" by (simp_all add: vs)
  moreover have "set ((a @ b) @ (ws @ [current_task s]) @ es) = A" using A rs vs by auto
  moreover have "(ws @ [current_task s]) ! length ws = current_task s" "length ws < length (ws @ [current_task s])" by simp_all
  ultimately show ?thesis unfolding sleeps_def fst_conv snd_conv wait_fields_def by blast
qed

lemma starts_waiting:
  assumes "sched_reach (A, s)" and "wakeup_after_event e s = Some (i, s')"
    and es: "tq_holds (tasks s, wakeup_event_queue s) es"
  shows "waits_for e (current_task s) (length es) 0 (A, s')"
proof -
  from reach_inv [OF assms(1)] obtain rs ws vs where inv: "sched_inv s rs ws vs" and A: "set (rs @ ws @ vs) = A" by blast
  have vs: "vs = es" using sched_inv_queues(3) [OF inv] es by (rule tq_holds_unique)
  have cur: "current_task s \<noteq> TNull" using assms(2) by (rule blocked_current)
  from block_member [OF inv cur] obtain a b where rs: "rs = a @ current_task s # b" .
  from wakeup_after_event_spec [OF inv [unfolded rs] refl, of e] assms(2)
  have "sched_inv s' (a @ b) ws (es @ [current_task s])" "wakeup_event (tasks s' (current_task s)) = e" by (simp_all add: vs)
  moreover have "set ((a @ b) @ ws @ es @ [current_task s]) = A" using A rs vs by auto
  moreover have "(es @ [current_task s]) ! length es = current_task s" "length es < length (es @ [current_task s])" by simp_all
  ultimately show ?thesis unfolding waits_for_def fst_conv snd_conv wait_fields_def by blast
qed

text \<open>Runs of counted steps only.\<close>

lemma run_of:
  assumes "P c" and "\<And>c. P c \<Longrightarrow> \<exists>c'. step c c' \<and> counts c c' \<and> P c'"
  shows "\<exists>cs. successively step (c # cs) \<and> count_steps counts (c # cs) = n"
  using assms(1)
proof (induction n arbitrary: c)
  case 0
  show ?case by (intro exI [of _ "[]"]) simp
next
  case (Suc n)
  from assms(2) [OF Suc.prems] obtain d where d: "step c d" "counts c d" "P d" by blast
  from Suc.IH [OF d(3)] obtain cs where "successively step (d # cs)" "count_steps counts (d # cs) = n" by blast
  with d show ?case by (intro exI [of _ "d # cs"]) simp
qed

definition inv_holds :: "'a sched_config \<Rightarrow> bool" where
  "inv_holds c \<longleftrightarrow> (\<exists>rs ws es. sched_inv (snd c) rs ws es)"

lemma ticks_run: "inv_holds c \<Longrightarrow> \<exists>cs. successively sched_step (c # cs) \<and> count_steps is_tick (c # cs) = n"
proof (erule run_of)
  fix c :: "'a sched_config" assume "inv_holds c"
  then obtain rs ws es where "sched_inv (snd c) rs ws es" by (auto simp: inv_holds_def)
  from do_ir_timer_inv [OF this] obtain u where "do_ir_timer (snd c) = Some u" "inv_holds (fst c, u)"
    by (auto simp: inv_holds_def)
  then show "\<exists>c'. sched_step c c' \<and> is_tick c c' \<and> inv_holds c'"
    using step_timer [of "snd c" u "fst c"] by (intro exI [of _ "(fst c, u)"]) (simp add: is_tick_def)
qed

lemma events_run: "inv_holds c \<Longrightarrow> \<exists>cs. successively sched_step (c # cs) \<and> count_steps (is_event e) (c # cs) = n"
proof (erule run_of)
  fix c :: "'a sched_config" assume "inv_holds c"
  then obtain rs ws es where "sched_inv (snd c) rs ws es" by (auto simp: inv_holds_def)
  from update_wakeupevq_inv [OF this, of e] obtain r u where "sched_update_wakeupevq e (snd c) = Some (r, u)" "inv_holds (fst c, u)"
    unfolding inv_holds_def snd_conv by blast
  then show "\<exists>c'. sched_step c c' \<and> is_event e c c' \<and> inv_holds c'"
    using step_event [of e "snd c" r u "fst c"] by (intro exI [of _ "(fst c, u)"]) (auto simp: is_event_def)
qed

text \<open>
  C19. Sleeping. Let a task call \<^verbatim>\<open>wakeup_after_msec\<close> for \<open>m\<close> milliseconds while the tasks \<open>ws\<close> sleep. In every
  run from then on, whatever ticks, events, blocking calls and task starts it consists of, the task
  stays asleep during the first \<open>(m - 1) div 10\<close> ticks, and it has become runnable when
  \<open>(m - 1) div 10 + 1\<close> ticks and one more for every task that slept before it have passed.
\<close>

theorem sleep_duration:
  assumes "sched_reach (A, s)" and "wakeup_after_msec m s = Some (i, s')"
    and "tq_holds (tasks s, wakeup_queue s) ws" and "successively sched_step ((A, s') # cs)"
  shows "(count_steps is_tick ((A, s') # cs) \<le> full_ticks m \<longrightarrow> list_all (asleep (current_task s)) ((A, s') # cs))
    \<and> (full_ticks m + length ws < count_steps is_tick ((A, s') # cs) \<longrightarrow> list_ex (runnable (current_task s)) ((A, s') # cs))"
proof -
  note w = falls_asleep [OF assms(1-3)]
  show ?thesis
    using sleeper.never_early [OF w assms(4)] sleeper.ends_in_time [OF w assms(4)] sleeps_asleep
    unfolding list_all_iff list_ex_iff add.commute [of "full_ticks m"] by blast
qed

theorem sleep_duration_witness:
  "\<exists>(s :: timer_state) i s' cs. wakeup_after_msec 20 s = Some (i, s') \<and> current_task s = THeap 0x1000
     \<and> successively sched_step (({THeap 0x1000, THeap 0x2000}, s') # cs)
     \<and> count_steps is_tick (({THeap 0x1000, THeap 0x2000}, s') # cs) = 2
     \<and> list_ex (runnable (THeap 0x1000)) (({THeap 0x1000, THeap 0x2000}, s') # cs)"
proof -
  let ?A = "{THeap 0x1000, THeap 0x2000}"
  from first_timer obtain s :: timer_state where s: "sched_reach (?A, s)" "current_task s = THeap 0x1000"
    "sched_inv s [THeap 0x1000, THeap 0x2000] [] []" by blast
  from wakeup_after_msec_spec [of s "[]" "THeap 0x1000" "[THeap 0x2000]" "[]" "[]" 20] s(2,3)
  obtain i s' where b: "wakeup_after_msec 20 s = Some (i, s')" "sched_inv s' [THeap 0x2000] [THeap 0x1000] []" by auto
  then have "inv_holds (?A, s')" unfolding inv_holds_def by auto
  from ticks_run [OF this, of 2] obtain cs where cs: "successively sched_step ((?A, s') # cs)"
    "count_steps is_tick ((?A, s') # cs) = 2" by blast
  have "full_ticks 20 = 1" by (simp add: full_ticks_def TIMER_TICK_MS_def)
  with sleep_duration [OF s(1) b(1) sched_inv_queues(2) [OF s(3)] cs(1)] cs s(2)
  have "list_ex (runnable (THeap 0x1000)) ((?A, s') # cs)" by simp
  with b(1) s(2) cs show ?thesis by blast
qed

text \<open>
  C20. Waiting for an event. A task that calls \<^verbatim>\<open>wakeup_after_event\<close> stays on the event queue with
  its event in every run in which the event is not reported, and it has become runnable when the event
  has been reported once and once more for every task that waited before it (\<open>es\<close>).
\<close>

theorem event_wait_duration:
  assumes "sched_reach (A, s)" and "wakeup_after_event e s = Some (i, s')"
    and "tq_holds (tasks s, wakeup_event_queue s) es" and "successively sched_step ((A, s') # cs)"
  shows "(count_steps (is_event e) ((A, s') # cs) = 0 \<longrightarrow> list_all (awaiting e (current_task s)) ((A, s') # cs))
    \<and> (length es < count_steps (is_event e) ((A, s') # cs) \<longrightarrow> list_ex (runnable (current_task s)) ((A, s') # cs))"
proof -
  note w = starts_waiting [OF assms(1-3)]
  show ?thesis
    using waiter.never_early [OF w assms(4)] waiter.ends_in_time [OF w assms(4)] waits_for_awaiting
    unfolding list_all_iff list_ex_iff by (metis le_zero_eq)
qed

theorem event_wait_duration_witness:
  "\<exists>(s :: timer_state) i s' cs. wakeup_after_event 1 s = Some (i, s') \<and> current_task s = THeap 0x1000
     \<and> successively sched_step (({THeap 0x1000, THeap 0x2000}, s') # cs)
     \<and> count_steps (is_event 1) (({THeap 0x1000, THeap 0x2000}, s') # cs) = 1
     \<and> list_ex (runnable (THeap 0x1000)) (({THeap 0x1000, THeap 0x2000}, s') # cs)"
proof -
  let ?A = "{THeap 0x1000, THeap 0x2000}"
  from first_timer obtain s :: timer_state where s: "sched_reach (?A, s)" "current_task s = THeap 0x1000"
    "sched_inv s [THeap 0x1000, THeap 0x2000] [] []" by blast
  from wakeup_after_event_spec [of s "[]" "THeap 0x1000" "[THeap 0x2000]" "[]" "[]" 1] s(2,3)
  obtain i s' where b: "wakeup_after_event 1 s = Some (i, s')" "sched_inv s' [THeap 0x2000] [] [THeap 0x1000]" by auto
  then have "inv_holds (?A, s')" unfolding inv_holds_def by auto
  from events_run [OF this, of 1 1] obtain cs where cs: "successively sched_step ((?A, s') # cs)"
    "count_steps (is_event 1) ((?A, s') # cs) = 1" by blast
  with event_wait_duration [OF s(1) b(1) sched_inv_queues(3) [OF s(3)] cs(1)] cs s(2)
  have "list_ex (runnable (THeap 0x1000)) ((?A, s') # cs)" by simp
  with b(1) s(2) cs show ?thesis by blast
qed

end
