(* ===== verification/Sched_Fair.thy ===== *)
theory Sched_Fair
  imports Sched_Sleep
begin

text \<open>
  Fairness of the scheduler over whole runs: real timer interrupts, which wake sleepers before they
  switch, keyboard events, blocking calls, returns from them and task starts in any order. The
  tasks ahead of a runnable task, the sleepers that may still be put ahead of it and the flag
  \<^verbatim>\<open>task_switched_in_time_slice\<close> make a rank that every tick lowers.
\<close>

section \<open>Ranks that ticks lower\<close>

text \<open>
  A step that is not a tick may raise the rank, by \<open>cost\<close>. When the ticks of a run outnumber the
  rank at its start and all the costs, the wait has ended in one of its states.
\<close>

fun sum_steps :: "('c \<Rightarrow> 'c \<Rightarrow> nat) \<Rightarrow> 'c list \<Rightarrow> nat" where
  "sum_steps cost (c # d # cs) = cost c d + sum_steps cost (d # cs)"
| "sum_steps cost cs = 0"

locale patience =
  fixes step :: "'c \<Rightarrow> 'c \<Rightarrow> bool" and tick :: "'c \<Rightarrow> 'c \<Rightarrow> bool" and cost :: "'c \<Rightarrow> 'c \<Rightarrow> nat"
    and waits :: "nat \<Rightarrow> 'c \<Rightarrow> bool" and ended :: "'c \<Rightarrow> bool"
  assumes tick_step: "waits r c \<Longrightarrow> tick c d \<Longrightarrow> ended d \<or> (\<exists>r' < r. waits r' d)"
    and other_step: "waits r c \<Longrightarrow> step c d \<Longrightarrow> \<not> tick c d \<Longrightarrow> ended d \<or> (\<exists>r' \<le> r + cost c d. waits r' d)"
begin

lemma ends:
  "waits r c \<Longrightarrow> successively step (c # cs) \<Longrightarrow> r + sum_steps cost (c # cs) < count_steps tick (c # cs) \<Longrightarrow>
   \<exists>d \<in> set (c # cs). ended d"
proof (induction cs arbitrary: r c)
  case (Cons d cs)
  from Cons.prems(2) have st: "step c d" and run: "successively step (d # cs)" by simp_all
  have "ended d \<or> (\<exists>r'. waits r' d \<and> r' + (if tick c d then 1 else 0) \<le> r + cost c d)"
    using tick_step [OF Cons.prems(1), of d] other_step [OF Cons.prems(1) st] by (cases "tick c d") force+
  then show ?case
  proof (elim disjE exE conjE)
    fix r' assume w: "waits r' d" and "r' + (if tick c d then 1 else 0) \<le> r + cost c d"
    then have "r' + sum_steps cost (d # cs) < count_steps tick (d # cs)"
      using Cons.prems(3) by (auto split: if_splits)
    from Cons.IH [OF w run this] show ?thesis by auto
  qed auto
qed simp

end

section \<open>The tasks ahead of a runnable task\<close>

text \<open>The other runnable tasks in the order in which the round robin comes to them.\<close>

definition turn_order :: "'a sched_state_scheme \<Rightarrow> tptr list \<Rightarrow> tptr list \<Rightarrow> bool" where
  "turn_order s rs xs \<longleftrightarrow> current_task s = TNull \<and> xs = rs
     \<or> (\<exists>a b. rs = a @ current_task s # b \<and> xs = b @ a)"

definition holds_over :: "'a sched_state_scheme \<Rightarrow> nat" where
  "holds_over s = (if current_task s \<noteq> TNull \<and> task_switched_in_time_slice (tasks s (current_task s)) \<noteq> 0
     then 1 else 0)"

definition rank :: "'a sched_state_scheme \<Rightarrow> tptr list \<Rightarrow> tptr list \<Rightarrow> nat" where
  "rank s ahead waiting = 2 * (length ahead + length waiting) + holds_over s"

definition awaits_turn :: "tptr \<Rightarrow> nat \<Rightarrow> 'a sched_config \<Rightarrow> bool" where
  "awaits_turn t r c \<longleftrightarrow> (\<exists>rs ws es p q. sched_inv (snd c) rs ws es \<and> set (rs @ ws @ es) = fst c
     \<and> turn_order (snd c) rs (p @ t # q) \<and> r = rank (snd c) p (ws @ es))"

lemma holds_over_le: "holds_over s \<le> 1"
  by (simp add: holds_over_def)

lemma turn_order_append:
  assumes "turn_order s rs (p @ t # q)" and "current_task s' = current_task s"
  shows "\<exists>p' q'. turn_order s' (rs @ k) (p' @ t # q') \<and> length p' \<le> length p + length k"
  using assms(1) unfolding turn_order_def assms(2)
proof (elim disjE conjE exE)
  assume "current_task s = TNull" "p @ t # q = rs"
  then show "\<exists>p' q'. (current_task s = TNull \<and> p' @ t # q' = rs @ k
      \<or> (\<exists>a b. rs @ k = a @ current_task s # b \<and> p' @ t # q' = b @ a)) \<and> length p' \<le> length p + length k"
    by (intro exI [of _ p] exI [of _ "q @ k"]) auto
next
  fix a b assume rs: "rs = a @ current_task s # b" and "p @ t # q = b @ a"
  then consider u where "b = p @ t # u" "q = u @ a" | u where "p = b @ u" "a = u @ t # q"
    by (auto simp: append_eq_append_conv2 Cons_eq_append_conv)
  then show "\<exists>p' q'. (current_task s = TNull \<and> p' @ t # q' = rs @ k
      \<or> (\<exists>a b. rs @ k = a @ current_task s # b \<and> p' @ t # q' = b @ a)) \<and> length p' \<le> length p + length k"
  proof cases
    case 1
    with rs show ?thesis
      by (intro exI [of _ p] exI [of _ "u @ k @ a"] conjI disjI2 exI [of _ a] exI [of _ "b @ k"]) auto
  next
    case 2
    with rs show ?thesis
      by (intro exI [of _ "b @ k @ u"] exI [of _ q] conjI disjI2 exI [of _ a] exI [of _ "b @ k"]) auto
  qed
qed

lemma turn_order_next:
  assumes "turn_order s rs (y # xs)" and "current_task s' = y"
  shows "\<exists>z. turn_order s' rs (xs @ z)"
  using assms(1) unfolding turn_order_def assms(2)
proof (elim disjE conjE exE)
  assume "current_task s = TNull" "y # xs = rs"
  then show "\<exists>z. y = TNull \<and> xs @ z = rs \<or> (\<exists>a b. rs = a @ y # b \<and> xs @ z = b @ a)"
    by (intro exI [of _ "[]"] disjI2 exI [of _ "[]"] exI [of _ xs]) auto
next
  fix a b assume rs: "rs = a @ current_task s # b" and xs: "y # xs = b @ a"
  show "\<exists>z. y = TNull \<and> xs @ z = rs \<or> (\<exists>a b. rs = a @ y # b \<and> xs @ z = b @ a)"
  proof (cases b)
    case Nil
    with rs xs show ?thesis
      by (intro exI [of _ "[current_task s]"] disjI2 exI [of _ "[]"] exI [of _ "xs @ [current_task s]"]) auto
  next
    case (Cons v b')
    with rs xs show ?thesis
      by (intro exI [of _ "[current_task s]"] disjI2 exI [of _ "a @ [current_task s]"] exI [of _ b']) auto
  qed
qed

text \<open>A task that blocks gives its place in the order to nobody.\<close>

lemma turn_order_leave:
  assumes "b @ a = y # xs" and "current_task s' = y"
  shows "turn_order s' (a @ b) xs"
  using assms unfolding turn_order_def
proof (cases b)
  case Nil
  with assms show "current_task s' = TNull \<and> xs = a @ b \<or> (\<exists>a' b'. a @ b = a' @ current_task s' # b' \<and> xs = b' @ a')"
    by (intro disjI2 exI [of _ "[]"] exI [of _ xs]) auto
next
  case (Cons v b')
  with assms show "current_task s' = TNull \<and> xs = a @ b \<or> (\<exists>a' b'. a @ b = a' @ current_task s' # b' \<and> xs = b' @ a')"
    by (intro disjI2 exI [of _ a] exI [of _ b']) auto
qed

text \<open>The switch of a tick: the flag is cleared, or the first task in the order comes on.\<close>

lemma tick_switch:
  assumes inv: "sched_inv s rs ws es" and ord: "turn_order s rs (p @ t # q)"
  shows "current_task (schedule SCHED_CAUSE_TIMER s) = t
    \<or> (\<exists>p' q'. turn_order (schedule SCHED_CAUSE_TIMER s) rs (p' @ t # q')
        \<and> rank (schedule SCHED_CAUSE_TIMER s) p' w < rank s p w)"
proof (cases "holds_over s = 0")
  case False
  then have f: "current_task s \<noteq> TNull" "task_switched_in_time_slice (tasks s (current_task s)) \<noteq> 0"
    by (auto simp: holds_over_def split: if_splits)
  from tick_clears [OF f] False
  have "current_task (schedule SCHED_CAUSE_TIMER s) = current_task s"
    "holds_over (schedule SCHED_CAUSE_TIMER s) < holds_over s" by (simp_all add: holds_over_def)
  moreover from this ord have "turn_order (schedule SCHED_CAUSE_TIMER s) rs (p @ t # q)"
    by (simp add: turn_order_def)
  ultimately show ?thesis unfolding rank_def by (meson add_strict_left_mono)
next
  case True
  let ?s = "schedule SCHED_CAUSE_TIMER s"
  obtain y xs where ys: "p @ t # q = y # xs" by (cases p) auto
  have wf: "sched_wf s rs ws es" using inv by (simp add: sched_inv_def)
  have "current_task ?s = y"
    using ord unfolding turn_order_def
  proof (elim disjE conjE exE)
    assume "current_task s = TNull" "p @ t # q = rs"
    with schedule_current [OF wf, of SCHED_CAUSE_TIMER] ys show ?thesis by (auto simp: next_task_def)
  next
    fix a b assume rs: "rs = a @ current_task s # b" and ba: "p @ t # q = b @ a"
    with wf have "t_next (tasks s (current_task s)) = hd (b @ a @ [current_task s])"
      using tq_holds_next sched_wfD(1) by metis
    then have "t_next (tasks s (current_task s)) = y" using ba ys by (cases b; cases a) auto
    with schedule_current [OF wf, of SCHED_CAUSE_TIMER] True rs wf show ?thesis
      by (auto simp: next_task_def holds_over_def dest: sched_wf_run_head split: if_splits)
  qed
  moreover from turn_order_next [OF ord [unfolded ys] this] obtain z where
    "turn_order ?s rs (xs @ z)" by blast
  ultimately show ?thesis
  proof (cases p)
    case (Cons y' p')
    from ys Cons have "xs = p' @ t # q" by simp
    with \<open>turn_order ?s rs (xs @ z)\<close> have "turn_order ?s rs (p' @ t # q @ z)" by simp
    moreover have "rank ?s p' w < rank s p w" using Cons True holds_over_le [of ?s] by (simp add: rank_def)
    ultimately show ?thesis by blast
  qed (use ys in simp)
qed

section \<open>What the steps do to the rank\<close>

text \<open>Steps that make tasks runnable: those that join come from \<open>w\<close>, or are new.\<close>

lemma joins:
  assumes ord: "turn_order s rs (p @ t # q)" and cur: "current_task s' = current_task s"
    and fl: "current_task s \<noteq> TNull \<Longrightarrow> task_switched_in_time_slice (tasks s' (current_task s))
      = task_switched_in_time_slice (tasks s (current_task s))"
    and len: "length k + length w' \<le> length w + n"
  shows "\<exists>p' q'. turn_order s' (rs @ k) (p' @ t # q') \<and> rank s' p' w' \<le> rank s p w + 2 * n"
proof -
  have "holds_over s' = holds_over s" using cur fl by (auto simp: holds_over_def)
  with turn_order_append [OF ord cur, of k] len show ?thesis by (force simp: rank_def)
qed

lemma length_woken_waiting: "length (woken due v W) + length (still_waiting due v W) = length W"
  by (cases W) (auto simp: sum_length_filter_compl)

lemma wake_flag:
  assumes "payloads s' = update_view upd V (payloads s)"
    and "\<And>k. task_switched_in_time_slice (upd k) = task_switched_in_time_slice k"
  shows "task_switched_in_time_slice (tasks s' x) = task_switched_in_time_slice (tasks s x)"
proof -
  have "task_switched_in_time_slice (payloads s' x) = task_switched_in_time_slice (payloads s x)"
    using assms by (simp add: update_view_def)
  then show ?thesis by (simp add: payloads_def)
qed

text \<open>The timer interrupt as a whole: sleepers join the run queue, then the processor is switched.\<close>

lemma tick_rank:
  assumes inv: "sched_inv s rs ws es" and ord: "turn_order s rs (p @ t # q)" and d: "do_ir_timer s = Some s'"
  shows "current_task s' = t \<or> (\<exists>rs' ws' p' q'. sched_inv s' rs' ws' es \<and> set (rs' @ ws' @ es) = set (rs @ ws @ es)
    \<and> turn_order s' rs' (p' @ t # q') \<and> rank s' p' (ws' @ es) < rank s p (ws @ es))"
proof -
  let ?s = "s\<lparr>global_counter := global_counter s + TIMER_TICK_MS\<rparr>"
  let ?k = "woken msec_due (payloads s) ws" and ?ws = "still_waiting msec_due (payloads s) ws"
  have "sched_wf ?s rs ws es" using inv by (simp add: sched_inv_def sched_wf_def)
  from update_wakeupq_spec [OF this] obtain r u where u: "sched_update_wakeupq ?s = Some (r, u)"
    and fr: "sched_frame u = sched_frame ?s"
    and pay: "payloads u = update_view msec_upd (visited msec_due (payloads s) ws) (payloads ?s)" by auto
  have i: "sched_inv u (rs @ ?k) ?ws es" using update_wakeupq_inv [of ?s rs ws es] inv u by auto
  have "current_task u = current_task s" using sched_frameD [OF fr] by simp
  from joins [OF ord this, of ?k "?ws @ es" "ws @ es" 0] wake_flag [OF pay]
  obtain p1 q1 where o: "turn_order u (rs @ ?k) (p1 @ t # q1)" and rk: "rank u p1 (?ws @ es) \<le> rank s p (ws @ es)"
    by (auto simp: msec_upd_def length_woken_waiting)
  from d u have s': "s' = schedule SCHED_CAUSE_TIMER u" by (simp add: do_ir_timer_def)
  have "set ((rs @ ?k) @ ?ws @ es) = set (rs @ ws @ es)"
    using set_woken_waiting [of msec_due "payloads s" ws] by auto
  with tick_switch [OF i o, of "?ws @ es"] schedule_inv [OF i, of SCHED_CAUSE_TIMER] rk show ?thesis
    unfolding s' by (meson less_le_trans)
qed

lemma event_rank:
  assumes inv: "sched_inv s rs ws es" and ord: "turn_order s rs (p @ t # q)"
    and d: "sched_update_wakeupevq e s = Some (r, s')"
  shows "\<exists>rs' es' p' q'. sched_inv s' rs' ws es' \<and> set (rs' @ ws @ es') = set (rs @ ws @ es)
    \<and> turn_order s' rs' (p' @ t # q') \<and> rank s' p' (ws @ es') \<le> rank s p (ws @ es)"
proof -
  let ?k = "woken (event_due e) (payloads s) es" and ?es = "still_waiting (event_due e) (payloads s) es"
  have "sched_wf s rs ws es" using inv by (simp add: sched_inv_def)
  from update_wakeupevq_spec [OF this, of e] d have fr: "sched_frame s' = sched_frame s"
    and pay: "payloads s' = update_view (event_upd e) (visited (event_due e) (payloads s) es) (payloads s)" by auto
  have i: "sched_inv s' (rs @ ?k) ws ?es" using update_wakeupevq_inv [OF inv, of e] d by auto
  have "current_task s' = current_task s" using sched_frameD [OF fr] by simp
  from joins [OF ord this, of ?k "ws @ ?es" "ws @ es" 0] wake_flag [OF pay]
  obtain p1 q1 where o: "turn_order s' (rs @ ?k) (p1 @ t # q1)" and rk: "rank s' p1 (ws @ ?es) \<le> rank s p (ws @ es)"
    by (auto simp: event_upd_def length_woken_waiting)
  have "set ((rs @ ?k) @ ws @ ?es) = set (rs @ ws @ es)"
    using set_woken_waiting [of "event_due e" "payloads s" es] by auto
  with i o rk show ?thesis by blast
qed

text \<open>The running task blocks: its successor comes on, and it may come back ahead of the others.\<close>

lemma block_rank:
  assumes ord: "turn_order s (a @ c # b) (p @ t # q)" and c: "current_task s = c" "c \<noteq> TNull"
    and dist: "distinct (a @ c # b)" and cur: "current_task s' = (if a @ b = [] then TNull else hd (b @ a))"
  shows "current_task s' = t \<or> (\<exists>p' q'. turn_order s' (a @ b) (p' @ t # q') \<and> Suc (length p') = length p)"
proof -
  from ord c obtain a' b' where e: "a @ c # b = a' @ c # b'" and "p @ t # q = b' @ a'"
    by (auto simp: turn_order_def)
  moreover from e dist have "a' = a \<and> b' = b"
    using append_Cons_eq_iff [of c a b a' b'] by (metis distinct_append distinct.simps(2) not_distinct_conv_prefix)
  ultimately have pq: "b @ a = p @ t # q" by simp
  then have "a @ b \<noteq> []" by auto
  with cur pq have cur': "current_task s' = hd (p @ t # q)" by (metis (no_types))
  show ?thesis
  proof (cases p)
    case (Cons y p')
    with turn_order_leave [of b a y "p' @ t # q" s'] pq cur' show ?thesis by auto
  qed (use cur' in simp)
qed

section \<open>Runs\<close>

text \<open>A step in which the running task blocks, and one that starts a task.\<close>

definition is_block :: "'a sched_config \<Rightarrow> 'a sched_config \<Rightarrow> bool" where
  "is_block c d \<longleftrightarrow> fst d = fst c \<and> ((\<exists>m i. wakeup_after_msec m (snd c) = Some (i, snd d))
     \<or> (\<exists>e i. wakeup_after_event e (snd c) = Some (i, snd d)))"

definition is_start :: "'a sched_config \<Rightarrow> 'a sched_config \<Rightarrow> bool" where
  "is_start c d \<longleftrightarrow> fst d \<noteq> fst c"

definition step_cost :: "'a sched_config \<Rightarrow> 'a sched_config \<Rightarrow> nat" where
  "step_cost c d = (if is_block c d then 1 else 0) + (if is_start c d then 2 else 0)"

lemma awaits_turnI:
  "sched_inv s rs ws es \<Longrightarrow> set (rs @ ws @ es) = A \<Longrightarrow> turn_order s rs (p @ t # q) \<Longrightarrow>
   awaits_turn t (rank s p (ws @ es)) (A, s)"
  unfolding awaits_turn_def fst_conv snd_conv by blast

lemma block_turn:
  assumes inv: "sched_inv s (a @ c # b) ws es" and ord: "turn_order s (a @ c # b) (p @ t # q)"
    and c: "current_task s = c" "c \<noteq> TNull" and A: "set ((a @ c # b) @ ws @ es) = A"
    and inv': "sched_inv s' (a @ b) ws' es'" and A': "set (ws' @ es') = insert c (set (ws @ es))"
    and len: "length (ws' @ es') = Suc (length (ws @ es))"
    and cur: "current_task s' = (if a @ b = [] then TNull else hd (b @ a))"
  shows "current_task s' = t \<or> (\<exists>r \<le> rank s p (ws @ es) + 1. awaits_turn t r (A, s'))"
proof -
  have "distinct (a @ c # b)" using inv by (auto simp: sched_inv_def sched_wf_def)
  from block_rank [OF ord c this cur] show ?thesis
  proof (elim disjE exE conjE)
    fix p' q' assume o: "turn_order s' (a @ b) (p' @ t # q')" and l: "Suc (length p') = length p"
    have "set ((a @ b) @ ws' @ es') = A" using A A' by auto
    from awaits_turnI [OF inv' this o] have "awaits_turn t (rank s' p' (ws' @ es')) (A, s')" .
    moreover have "rank s' p' (ws' @ es') \<le> rank s p (ws @ es) + 1"
      using l len holds_over_le [of s'] by (simp add: rank_def)
    ultimately show ?thesis by blast
  qed simp
qed

lemma start_rank:
  assumes inv: "sched_inv s rs ws es" and ord: "turn_order s rs (p @ t # q)"
    and new: "x \<notin> set (rs @ ws @ es)" and s': "s' = snd (sched_runq_enq x (s\<lparr>tasks := (tasks s)(x := k)\<rparr>))"
  shows "\<exists>p' q'. turn_order s' (rs @ [x]) (p' @ t # q') \<and> rank s' p' (ws @ es) \<le> rank s p (ws @ es) + 2"
proof -
  let ?u = "s\<lparr>tasks := (tasks s)(x := k)\<rparr>"
  have cur: "current_task s' = current_task s"
    using sched_frameD [OF sched_frame_enq(1) [of x ?u]] by (simp add: s')
  have "task_switched_in_time_slice (payloads s' y) = task_switched_in_time_slice (payloads ?u y)" for y
    unfolding s' payloads_frame ..
  then have fl: "task_switched_in_time_slice (tasks s' y) = task_switched_in_time_slice (tasks ?u y)" for y
    by (simp add: payloads_def)
  have "current_task s \<noteq> TNull \<Longrightarrow> current_task s \<noteq> x"
    using inv new by (auto simp: sched_inv_def running_ok_def)
  then show ?thesis using joins [OF ord cur, of "[x]" "ws @ es" "ws @ es" 1] fl by simp
qed

interpretation turn: patience sched_step is_tick step_cost "awaits_turn t" "\<lambda>c. current_task (snd c) = t"
  for t
proof (unfold_locales, goal_cases)
  case (1 r c d)
  then obtain rs ws es p q where i: "sched_inv (snd c) rs ws es" "set (rs @ ws @ es) = fst c"
    and o: "turn_order (snd c) rs (p @ t # q)" and r: "r = rank (snd c) p (ws @ es)"
    by (auto simp: awaits_turn_def)
  from 1(2) have "do_ir_timer (snd c) = Some (snd d)" "fst d = fst c" by (auto simp: is_tick_def)
  with tick_rank [OF i(1) o] i(2) r show ?case unfolding awaits_turn_def by metis
next
  case (2 r c d)
  obtain A s B s' where c: "c = (A, s)" and d: "d = (B, s')" by fastforce
  note not_tick = 2(3)
  from 2(1) c obtain rs ws es p q where i: "sched_inv s rs ws es" "set (rs @ ws @ es) = A"
    and o: "turn_order s rs (p @ t # q)" and r: "r = rank s p (ws @ es)"
    by (auto simp: awaits_turn_def)
  have "current_task s' = t \<or> (\<exists>r' \<le> r + step_cost (A, s) (B, s'). awaits_turn t r' (B, s'))"
  proof (rule sched_stepE [OF 2(2) [unfolded c d]], goal_cases)
    case 1
    then have "is_tick c d" by (simp add: is_tick_def c d)
    with not_tick show ?case ..
  next
    case (2 e r')
    from event_rank [OF i(1) o 2(2)] i(2) 2(1) r show ?case
      unfolding awaits_turn_def by (metis fst_conv snd_conv trans_le_add1)
  next
    case (3 m j)
    then have cur: "current_task s \<noteq> TNull" by (auto dest: blocked_current)
    from block_member [OF i(1) cur] obtain a b where rs: "rs = a @ current_task s # b" .
    have "step_cost (A, s) (B, s') = 1" using 3 by (auto simp: step_cost_def is_block_def is_start_def)
    with wakeup_after_msec_spec [OF i(1) [unfolded rs] refl, of m] 3 r
      block_turn [OF i(1) [unfolded rs] o [unfolded rs] refl cur, of A s' "ws @ [current_task s]" es] i(2) rs
    show ?case by auto
  next
    case (4 e j)
    then have cur: "current_task s \<noteq> TNull" by (auto dest: blocked_current)
    from block_member [OF i(1) cur] obtain a b where rs: "rs = a @ current_task s # b" .
    have "step_cost (A, s) (B, s') = 1" using 4 by (auto simp: step_cost_def is_block_def is_start_def)
    with wakeup_after_event_spec [OF i(1) [unfolded rs] refl, of e] 4 r
      block_turn [OF i(1) [unfolded rs] o [unfolded rs] refl cur, of A s' ws "es @ [current_task s]"] i(2) rs
    show ?case by auto
  next
    case (5 j)
    then have "tasks s' = tasks s" "current_task s' = current_task s"
      by (simp_all add: wakeup_resume_def kern_unlock_def sti_def)
    then have "turn_order s' rs (p @ t # q)" "rank s' p (ws @ es) = rank s p (ws @ es)"
      using o by (simp_all add: turn_order_def rank_def holds_over_def)
    with i r 5 awaits_turnI [of s' rs ws es A p t q] show ?case by auto
  next
    case (6 x k)
    then have x: "x \<notin> set (rs @ ws @ es)" using i(2) by simp
    from 6 have "s' = snd (sched_runq_enq x (s\<lparr>tasks := (tasks s)(x := k)\<rparr>))" by simp
    from start_rank [OF i(1) o x this] obtain p' q' where
      o': "turn_order s' (rs @ [x]) (p' @ t # q')" and le: "rank s' p' (ws @ es) \<le> rank s p (ws @ es) + 2" by blast
    have "sched_inv s' (rs @ [x]) ws es" using start_inv [OF i(1) x] 6 by simp
    from awaits_turnI [OF this _ o', of B] i(2) 6 have "awaits_turn t (rank s' p' (ws @ es)) (B, s')" by auto
    moreover have "is_start (A, s) (B, s')" using 6 by (auto simp: is_start_def)
    then have "rank s' p' (ws @ es) \<le> r + step_cost (A, s) (B, s')" using le r by (simp add: step_cost_def)
    ultimately show ?case by blast
  qed
  then show ?case by (simp add: c d)
qed

lemma costs_count: "sum_steps step_cost cs = count_steps is_block cs + 2 * count_steps is_start cs"
  by (induction cs rule: induct_list012) (simp_all add: step_cost_def)

text \<open>The rank at the start of a run.\<close>

lemma first_order:
  assumes inv: "sched_inv s rs ws es" and t: "t \<in> set rs" "t \<noteq> current_task s"
  shows "\<exists>p q. turn_order s rs (p @ t # q) \<and> rank s p (ws @ es) < 2 * length (rs @ ws @ es)"
proof (cases "current_task s = TNull")
  case True
  from split_list [OF t(1)] obtain p q where "rs = p @ t # q" by blast
  with True show ?thesis by (intro exI [of _ p] exI [of _ q]) (simp add: turn_order_def rank_def holds_over_def)
next
  case False
  from block_member [OF inv False] obtain a b where rs: "rs = a @ current_task s # b" .
  with t have "t \<in> set (b @ a)" by auto
  from split_list [OF this] obtain p q where pq: "b @ a = p @ t # q" by blast
  then have "length a + length b = Suc (length p + length q)" by (metis add.commute add_Suc_right length_Cons length_append)
  moreover have "turn_order s rs (p @ t # q)" unfolding turn_order_def using rs pq by metis
  ultimately show ?thesis using rs holds_over_le [of s]
    by (intro exI [of _ p] exI [of _ q]) (simp add: rank_def)
qed

section \<open>Properties\<close>

text \<open>Ticks and blocking calls are never confused: only the latter take a task off the run queue.\<close>

lemma tick_no_block:
  assumes inv: "sched_inv s rs ws es" and d: "do_ir_timer s = Some s'"
  shows "\<not> is_block (A, s) (A, s')"
proof
  assume blk: "is_block (A, s) (A, s')"
  then have cur: "current_task s \<noteq> TNull" unfolding is_block_def fst_conv snd_conv by (metis blocked_current)
  from block_member [OF inv cur] obtain a b where rs: "rs = a @ current_task s # b" .
  have "\<exists>ws' es'. sched_inv s' (a @ b) ws' es'"
    using blk unfolding is_block_def fst_conv snd_conv
  proof (elim conjE disjE exE)
    fix m i assume "wakeup_after_msec m s = Some (i, s')"
    with wakeup_after_msec_spec [OF inv [unfolded rs] refl, of m] show ?thesis by auto
  next
    fix e i assume "wakeup_after_event e s = Some (i, s')"
    with wakeup_after_event_spec [OF inv [unfolded rs] refl, of e] show ?thesis by auto
  qed
  then have q: "tq_holds (tasks s', run_queue s') (a @ b)" by (auto simp: sched_inv_def sched_wf_def)
  from timer_entry(1) [OF inv d] have "tq_holds (tasks s', run_queue s') (rs @ woken msec_due (payloads s) ws)"
    by (simp add: sched_inv_def sched_wf_def)
  from tq_holds_unique [OF q this] have "length (a @ b) = length (rs @ woken msec_due (payloads s) ws)" by simp
  with rs show False by simp
qed

lemma tick_run:
  "sched_inv s rs ws es \<Longrightarrow> \<exists>cs. successively sched_step ((A, s) # cs)
     \<and> count_steps is_tick ((A, s) # cs) = n \<and> count_steps is_block ((A, s) # cs) = 0
     \<and> count_steps is_start ((A, s) # cs) = 0"
proof (induction n arbitrary: s rs ws)
  case 0
  then show ?case by (intro exI [of _ "[]"]) simp
next
  case (Suc n)
  from do_ir_timer_inv [OF Suc.prems] obtain s' rs' ws' where d: "do_ir_timer s = Some s'"
    and i: "sched_inv s' rs' ws' es" by blast
  from Suc.IH [OF i] obtain cs where "successively sched_step ((A, s') # cs)"
    "count_steps is_tick ((A, s') # cs) = n" "count_steps is_block ((A, s') # cs) = 0"
    "count_steps is_start ((A, s') # cs) = 0" by blast
  moreover have "is_tick (A, s) (A, s')" "\<not> is_start (A, s) (A, s')" "\<not> is_block (A, s) (A, s')"
    using d tick_no_block [OF Suc.prems d] by (simp_all add: is_tick_def is_start_def)
  ultimately show ?case using step_timer [OF d, of A] by (intro exI [of _ "(A, s') # cs"]) simp
qed

text \<open>
  C17. Fairness. Take a runnable task in any reachable state, and any run of the scheduler from
  there: timer interrupts (with the waking of sleepers they do first), keyboard events, blocking
  calls, returns from them and task starts, in any order. If the run has at least two timer
  interrupts for every started task, one more for every blocking call in it and two more for every
  task started in it, then the task is the current one in some state of the run. (Two, because a
  task that was entered by a system call keeps the processor over the next tick; one more per
  blocking call, because who blocks may wake up again ahead of the waiting task.)
\<close>

theorem round_robin_fair:
  assumes "sched_reach (A, s)" and "runnable t (A, s)" and "successively sched_step ((A, s) # cs)"
    and "2 * card A + count_steps is_block ((A, s) # cs) + 2 * count_steps is_start ((A, s) # cs)
      \<le> count_steps is_tick ((A, s) # cs)"
  shows "\<exists>c \<in> set ((A, s) # cs). current_task (snd c) = t"
proof (cases "current_task s = t")
  case False
  from reach_inv [OF assms(1)] obtain rs ws es where inv: "sched_inv s rs ws es" and A: "set (rs @ ws @ es) = A"
    by blast
  then have "distinct (rs @ ws @ es)" by (auto simp: sched_inv_def sched_wf_def)
  then have card: "card A = length (rs @ ws @ es)" using A distinct_card by metis
  have "t \<in> set rs"
    using assms(2) inv tq_holds_unique by (fastforce simp: runnable_def sched_inv_def sched_wf_def)
  from first_order [OF inv this] False obtain p q where o: "turn_order s rs (p @ t # q)"
    and r: "rank s p (ws @ es) < 2 * card A" unfolding card by blast
  from turn.ends [OF awaits_turnI [OF inv A o] assms(3)] r assms(4) show ?thesis
    by (simp add: costs_count)
qed simp

text \<open>Two started tasks, of which the one that waits longest comes on within four ticks.\<close>

theorem round_robin_fair_witness:
  "\<exists>cs. successively sched_step (({THeap 0x1000, THeap 0x2000}, two_tasks) # cs)
     \<and> count_steps is_tick (({THeap 0x1000, THeap 0x2000}, two_tasks) # cs) = 4
     \<and> (\<exists>c \<in> set (({THeap 0x1000, THeap 0x2000}, two_tasks) # cs). current_task (snd c) = THeap 0x2000)"
proof -
  from tick_run [OF two_tasks_inv, of "{THeap 0x1000, THeap 0x2000}" 4] obtain cs where
    cs: "successively sched_step (({THeap 0x1000, THeap 0x2000}, two_tasks) # cs)"
    "count_steps is_tick (({THeap 0x1000, THeap 0x2000}, two_tasks) # cs) = 4"
    "count_steps is_block (({THeap 0x1000, THeap 0x2000}, two_tasks) # cs) = 0"
    "count_steps is_start (({THeap 0x1000, THeap 0x2000}, two_tasks) # cs) = 0" by blast
  have "runnable (THeap 0x2000) ({THeap 0x1000, THeap 0x2000}, two_tasks)"
    using two_tasks_inv by (auto simp: runnable_def sched_inv_def sched_wf_def)
  from round_robin_fair [OF two_tasks_reach this cs(1)] cs show ?thesis by auto
qed

text \<open>
  The order of the round robin. When nobody sleeps and no runnable task was entered by a system
  call, timer interrupt number \<open>j\<close> finds the task \<open>j\<close> places further in the run queue: each task
  gets exactly one tick per round.
\<close>

fun clock_ticks :: "nat \<Rightarrow> 'a timer_state_scheme \<Rightarrow> 'a timer_state_scheme option" where
  "clock_ticks 0 s = Some s"
| "clock_ticks (Suc n) s = (case clock_ticks n s of None \<Rightarrow> None | Some s \<Rightarrow> do_ir_timer s)"

lemma quiet_tick:
  assumes "sched_inv s rs [] es"
  shows "do_ir_timer s = Some (schedule SCHED_CAUSE_TIMER (s\<lparr>global_counter := global_counter s + TIMER_TICK_MS\<rparr>))"
proof -
  have "q_head (wakeup_queue s) = TNull" using assms by (simp add: sched_inv_def sched_wf_def tq_holds_Nil)
  then show ?thesis by (simp add: do_ir_timer_def sched_update_wakeupq_def)
qed

lemma round_robin_order:
  assumes "sched_inv s rs [] es" and "i < length rs" and "current_task s = rs ! i"
    and "\<forall>t \<in> set rs. task_switched_in_time_slice (tasks s t) = 0"
  shows "\<exists>s'. clock_ticks j s = Some s' \<and> sched_inv s' rs [] es
    \<and> (\<forall>t \<in> set rs. task_switched_in_time_slice (tasks s' t) = 0)
    \<and> current_task s' = rs ! ((i + j) mod length rs)"
proof (induction j)
  case 0
  with assms show ?case by simp
next
  case (Suc j)
  then obtain u where u: "clock_ticks j s = Some u" "sched_inv u rs [] es"
    "\<forall>t \<in> set rs. task_switched_in_time_slice (tasks u t) = 0"
    "current_task u = rs ! ((i + j) mod length rs)" by blast
  let ?u = "u\<lparr>global_counter := global_counter u + TIMER_TICK_MS\<rparr>"
  have n: "(i + j) mod length rs < length rs" using assms(2) by (intro mod_less_divisor) auto
  have inv: "sched_inv ?u rs [] es" using u(2) by simp
  have "current_task (schedule SCHED_CAUSE_TIMER ?u) = rs ! (Suc ((i + j) mod length rs) mod length rs)"
    by (rule tick_moves [OF inv n]) (use u n in simp_all)
  moreover have "\<forall>t \<in> set rs. task_switched_in_time_slice (tasks (schedule SCHED_CAUSE_TIMER ?u) t) = 0"
    using u(3) by (auto intro: tick_flags)
  ultimately show ?case
    using u(1) quiet_tick [OF u(2)] schedule_inv [OF inv] by (simp add: mod_Suc_eq)
qed

end
