(* ===== verification/Keyboard.thy ===== *)
theory Keyboard
  imports Sched_Props
begin

text \<open>
  The keyboard half of \<^verbatim>\<open>kernel/console_io.c\<close>: the ring buffer between the keyboard interrupt and
  the readers, the interrupt itself, and reading a key code, which blocks on the event queue of the
  scheduler while the buffer is empty.
\<close>

section \<open>State\<close>

text \<open>
  \<^verbatim>\<open>struct queue\<close>. Its 256 slots are indexed by a byte, so an index wraps at the end of the buffer.
\<close>

record kqueue =
  kq_buf :: "u8 \<Rightarrow> u8"
  kq_start :: u8
  kq_end :: u8
  is_full :: u8

record con_state = timer_state +
  cursor_x :: u32
  cursor_y :: u32
  keycode_queue :: kqueue
  error_status :: u8

definition QUEUE_BUF_SIZE :: nat where "QUEUE_BUF_SIZE = 256"
definition IOADR_KBC_DATA :: u16 where "IOADR_KBC_DATA = 0x0060"
definition IOADR_KBC_DATA_BIT_BRAKE :: u8 where "IOADR_KBC_DATA_BIT_BRAKE = 0x80"
definition IOADR_KBC_STATUS :: u16 where "IOADR_KBC_STATUS = 0x0064"
definition IOADR_KBC_STATUS_BIT_OBF :: u8 where "IOADR_KBC_STATUS_BIT_OBF = 0x01"
definition INTR_IR_KB :: u8 where "INTR_IR_KB = 1"
definition EVENT_TYPE_KBD :: u8 where "EVENT_TYPE_KBD = 1"

section \<open>The ring buffer\<close>

definition enqueue :: "u8 \<Rightarrow> 'a con_state_scheme \<Rightarrow> 'a con_state_scheme" where
  "enqueue data s =
     (if is_full (keycode_queue s) \<noteq> 0 then s\<lparr>error_status := 1\<rparr>
      else
        (let s = s\<lparr>error_status := 0\<rparr>;
             (if_bit, s) = kern_lock s;
             q = keycode_queue s;
             q = q\<lparr>kq_buf := (kq_buf q)(kq_end q := data)\<rparr>;
             q = q\<lparr>kq_end := kq_end q + 1\<rparr>;
             q = (if kq_start q = kq_end q then q\<lparr>is_full := 1\<rparr> else q);
             s = s\<lparr>keycode_queue := q\<rparr>
         in kern_unlock if_bit s))"

definition dequeue :: "'a con_state_scheme \<Rightarrow> u8 \<times> 'a con_state_scheme" where
  "dequeue s =
     (let (if_bit, s) = kern_lock s;
          q = keycode_queue s;
          (data, s) =
            (if is_full q = 0 \<and> kq_start q = kq_end q then (0, s\<lparr>error_status := 1\<rparr>)
             else (let s = s\<lparr>error_status := 0\<rparr>;
                       data = kq_buf q (kq_start q);
                       q = q\<lparr>kq_start := kq_start q + 1\<rparr>;
                       q = q\<lparr>is_full := 0\<rparr>
                   in (data, s\<lparr>keycode_queue := q\<rparr>)))
      in (data, kern_unlock if_bit s))"

section \<open>The interrupt and the readers\<close>

definition do_ir_keyboard :: "device \<Rightarrow> 'a con_state_scheme \<Rightarrow> 'a con_state_scheme option" where
  "do_ir_keyboard dev s =
     (let (status, s) = inb_p dev IOADR_KBC_STATUS s;
          s = (if status AND IOADR_KBC_STATUS_BIT_OBF \<noteq> 0 then
                 (let (data, s) = inb_p dev IOADR_KBC_DATA s in enqueue data s)
               else s)
      in case sched_update_wakeupevq EVENT_TYPE_KBD s of
           None \<Rightarrow> None
         | Some (_, s) \<Rightarrow>
             Some (outb_p (IOADR_MPIC_OCW2_BIT_MANUAL_EOI OR INTR_IR_KB) IOADR_MPIC_OCW2 s))"

definition con_init :: "'a con_state_scheme \<Rightarrow> 'a con_state_scheme" where
  "con_init s =
     (let q = keycode_queue s;
          q = q\<lparr>kq_start := 0\<rparr>;
          q = q\<lparr>kq_end := 0\<rparr>;
          q = q\<lparr>is_full := 0\<rparr>
      in s\<lparr>keycode_queue := q, error_status := 0\<rparr>)"

text \<open>
  One turn of the loop in \<^verbatim>\<open>get_keydata\<close>: a byte, or the caller blocked (with the \<^verbatim>\<open>if_bit\<close> it resumes
  with); it tries again when it is switched to.
\<close>

datatype key_result = Got u8 | Blocked u8

definition get_keydata_step ::
  "'a con_state_scheme \<Rightarrow> (key_result \<times> 'a con_state_scheme) option" where
  "get_keydata_step s =
     (let (if_bit, s) = kern_lock s;
          (data, s) = dequeue s;
          dequeuing = (error_status s \<noteq> 0);
          s = kern_unlock if_bit s
      in if dequeuing
         then map_option (\<lambda>(i, s). (Blocked i, s)) (wakeup_after_event EVENT_TYPE_KBD s)
         else Some (Got data, s))"

text \<open>
  Polling the controller without interrupts: the status is read until it shows a byte. \<^const>\<open>None\<close> is
  a controller that never has one.
\<close>

partial_function (option) get_keydata_noir ::
  "device \<Rightarrow> 'a machine_scheme \<Rightarrow> (u8 \<times> 'a machine_scheme) option" where
  "get_keydata_noir dev s =
     (case inb_p dev IOADR_KBC_STATUS s of (status, s) \<Rightarrow>
        if status AND IOADR_KBC_STATUS_BIT_OBF = 0 then get_keydata_noir dev s
        else Some (inb_p dev IOADR_KBC_DATA s))"

section \<open>A bounded queue\<close>

text \<open>
  The contract of the ring buffer: a queue of at most \<open>cap\<close> bytes that refuses what does not fit.
  \<open>put\<close> and \<open>get\<close> report a failure.
\<close>

datatype qop = Put u8 | Get

fun run_ops :: "(u8 \<Rightarrow> 's \<Rightarrow> bool \<times> 's) \<Rightarrow> ('s \<Rightarrow> u8 option \<times> 's) \<Rightarrow> qop list \<Rightarrow> 's \<Rightarrow> u8 option list \<times> 's" where
  "run_ops put get [] s = ([], s)"
| "run_ops put get (Put x # ops) s = run_ops put get ops (snd (put x s))"
| "run_ops put get (Get # ops) s =
     (case get s of (r, s') \<Rightarrow> case run_ops put get ops s' of (rs, t) \<Rightarrow> (r # rs, t))"

text \<open>The abstract queue.\<close>

definition list_put :: "nat \<Rightarrow> u8 \<Rightarrow> u8 list \<Rightarrow> bool \<times> u8 list" where
  "list_put cap x xs = (if length xs < cap then (True, xs @ [x]) else (False, xs))"

fun list_get :: "u8 list \<Rightarrow> u8 option \<times> u8 list" where
  "list_get [] = (None, [])"
| "list_get (x # xs) = (Some x, xs)"

locale bounded_queue =
  fixes cap :: nat and holds :: "'s \<Rightarrow> u8 list \<Rightarrow> bool"
    and put :: "u8 \<Rightarrow> 's \<Rightarrow> bool \<times> 's" and get :: "'s \<Rightarrow> u8 option \<times> 's"
  assumes put_ok: "holds s xs \<Longrightarrow> fst (put x s) = fst (list_put cap x xs)
      \<and> holds (snd (put x s)) (snd (list_put cap x xs))"
    and get_ok: "holds s xs \<Longrightarrow> fst (get s) = fst (list_get xs) \<and> holds (snd (get s)) (snd (list_get xs))"
begin

text \<open>Every sequence of operations behaves as on the abstract queue.\<close>

lemma run_refines:
  "holds s xs \<Longrightarrow> fst (run_ops put get ops s) = fst (run_ops (list_put cap) list_get ops xs)
     \<and> holds (snd (run_ops put get ops s)) (snd (run_ops (list_put cap) list_get ops xs))"
proof (induction ops arbitrary: s xs)
  case (Cons op ops)
  show ?case
  proof (cases op)
    case (Put x)
    with Cons put_ok [of s xs x] show ?thesis by auto
  next
    case Get
    with Cons.IH [of "snd (get s)" "snd (list_get xs)"] get_ok [OF Cons.prems] show ?thesis
      by (auto split: prod.splits)
  qed
qed simp

end

text \<open>
  On the abstract queue: what is read is what was accepted, in order, and what is left is the rest.
\<close>

fun accepted :: "nat \<Rightarrow> qop list \<Rightarrow> nat \<Rightarrow> u8 list" where
  "accepted cap [] n = []"
| "accepted cap (Put x # ops) n = (if n < cap then x # accepted cap ops (Suc n) else accepted cap ops n)"
| "accepted cap (Get # ops) n = accepted cap ops (n - 1)"

definition results :: "u8 option list \<Rightarrow> u8 list" where
  "results rs = map the (filter (\<lambda>r. r \<noteq> None) rs)"

lemma list_run_order:
  "results (fst (run_ops (list_put cap) list_get ops xs)) @ snd (run_ops (list_put cap) list_get ops xs)
     = xs @ accepted cap ops (length xs)"
proof (induction ops arbitrary: xs)
  case (Cons op ops)
  show ?case
  proof (cases op)
    case (Put x)
    with Cons [of "xs @ [x]"] Cons [of xs] show ?thesis by (simp add: list_put_def)
  next
    case Get
    with Cons [of "tl xs"] show ?thesis
      by (cases xs) (auto simp: results_def split: prod.splits)
  qed
qed (simp add: results_def)

section \<open>The ring buffer is such a queue\<close>

definition kq_holds :: "'a con_state_scheme \<Rightarrow> u8 list \<Rightarrow> bool" where
  "kq_holds s xs \<longleftrightarrow> (let q = keycode_queue s in
     length xs \<le> QUEUE_BUF_SIZE \<and> kq_end q = kq_start q + of_nat (length xs)
     \<and> (is_full q \<noteq> 0 \<longleftrightarrow> length xs = QUEUE_BUF_SIZE)
     \<and> (\<forall>i < length xs. kq_buf q (kq_start q + of_nat i) = xs ! i))"

definition kq_put :: "u8 \<Rightarrow> 'a con_state_scheme \<Rightarrow> bool \<times> 'a con_state_scheme" where
  "kq_put x s = (let s = enqueue x s in (error_status s = 0, s))"

definition kq_get :: "'a con_state_scheme \<Rightarrow> u8 option \<times> 'a con_state_scheme" where
  "kq_get s = (let (x, s) = dequeue s in (if error_status s = 0 then Some x else None, s))"

lemma kern_lock_con:
  assumes "kern_lock s = (b, s1)"
  shows "keycode_queue s1 = keycode_queue s" "error_status s1 = error_status s"
    "cursor_x s1 = cursor_x s" "cursor_y s1 = cursor_y s"
  using assms by (auto simp: kern_lock_def Let_def cli_def split: if_splits)

lemma kern_unlock_con [simp]:
  "keycode_queue (kern_unlock b s) = keycode_queue s" "error_status (kern_unlock b s) = error_status s"
  "cursor_x (kern_unlock b s) = cursor_x s" "cursor_y (kern_unlock b s) = cursor_y s"
  by (simp_all add: kern_unlock_def sti_def)

lemma of_nat_u8_eq: "i < 256 \<Longrightarrow> j < 256 \<Longrightarrow> (of_nat i :: u8) = of_nat j \<longleftrightarrow> i = j"
  by (simp add: word_unat_eq_iff unsigned_of_nat take_bit_nat_eq_self)

lemma of_nat_u8_zero: "0 < n \<Longrightarrow> n \<le> 256 \<Longrightarrow> (of_nat n :: u8) = 0 \<longleftrightarrow> n = 256"
  by (cases "n = 256") (use of_nat_u8_eq [of n 0] in auto)

lemma enqueue_queue:
  "error_status (enqueue x s) = (if is_full (keycode_queue s) \<noteq> 0 then 1 else 0)"
  "keycode_queue (enqueue x s) =
     (let q = keycode_queue s in if is_full q \<noteq> 0 then q
      else q\<lparr>kq_buf := (kq_buf q)(kq_end q := x), kq_end := kq_end q + 1,
             is_full := if kq_start q = kq_end q + 1 then 1 else is_full q\<rparr>)"
proof -
  obtain b s1 where L: "kern_lock (s\<lparr>error_status := 0\<rparr>) = (b, s1)" by fastforce
  note K = kern_lock_con [OF L]
  show "error_status (enqueue x s) = (if is_full (keycode_queue s) \<noteq> 0 then 1 else 0)"
    using K by (simp add: enqueue_def L Let_def)
  show "keycode_queue (enqueue x s) =
     (let q = keycode_queue s in if is_full q \<noteq> 0 then q
      else q\<lparr>kq_buf := (kq_buf q)(kq_end q := x), kq_end := kq_end q + 1,
             is_full := if kq_start q = kq_end q + 1 then 1 else is_full q\<rparr>)"
    using K by (simp add: enqueue_def L Let_def)
qed

lemma dequeue_queue:
  assumes "q = keycode_queue s"
  shows "fst (dequeue s) = (if is_full q = 0 \<and> kq_start q = kq_end q then 0 else kq_buf q (kq_start q))"
  "error_status (snd (dequeue s)) = (if is_full q = 0 \<and> kq_start q = kq_end q then 1 else 0)"
  "keycode_queue (snd (dequeue s)) = (if is_full q = 0 \<and> kq_start q = kq_end q then q
     else q\<lparr>kq_start := kq_start q + 1, is_full := 0\<rparr>)"
proof -
  obtain b s1 where L: "kern_lock s = (b, s1)" by fastforce
  note K = kern_lock_con [OF L]
  show "fst (dequeue s) = (if is_full q = 0 \<and> kq_start q = kq_end q then 0 else kq_buf q (kq_start q))"
    using K by (simp add: assms dequeue_def L Let_def)
  show "error_status (snd (dequeue s)) = (if is_full q = 0 \<and> kq_start q = kq_end q then 1 else 0)"
    using K by (simp add: assms dequeue_def L Let_def)
  show "keycode_queue (snd (dequeue s)) = (if is_full q = 0 \<and> kq_start q = kq_end q then q
     else q\<lparr>kq_start := kq_start q + 1, is_full := 0\<rparr>)"
    using K by (simp add: assms dequeue_def L Let_def)
qed

lemma kq_put_ok:
  assumes "kq_holds s xs"
  shows "fst (kq_put x s) = fst (list_put QUEUE_BUF_SIZE x xs)
    \<and> kq_holds (snd (kq_put x s)) (snd (list_put QUEUE_BUF_SIZE x xs))"
proof -
  let ?q = "keycode_queue s"
  have n: "length xs \<le> 256" and e: "kq_end ?q = kq_start ?q + of_nat (length xs)"
    and full: "is_full ?q \<noteq> 0 \<longleftrightarrow> length xs = 256"
    and buf: "\<forall>i < length xs. kq_buf ?q (kq_start ?q + of_nat i) = xs ! i"
    using assms by (simp_all add: kq_holds_def QUEUE_BUF_SIZE_def Let_def)
  show ?thesis
  proof (cases "length xs = 256")
    case True
    with full assms show ?thesis
      by (simp add: kq_put_def list_put_def QUEUE_BUF_SIZE_def enqueue_queue kq_holds_def Let_def)
  next
    case False
    with n have n': "length xs < 256" by simp
    have w: "kq_start ?q = kq_end ?q + 1 \<longleftrightarrow> Suc (length xs) = 256"
      using of_nat_u8_zero [of "Suc (length xs)"] n' by (simp add: e add.assoc) (simp add: add.commute)
    have "kq_start ?q + of_nat i \<noteq> kq_end ?q" if "i < length xs" for i
      using that n' of_nat_u8_eq [of i "length xs"] by (simp add: e)
    with False full buf n' e w show ?thesis
      by (auto simp: kq_put_def list_put_def QUEUE_BUF_SIZE_def enqueue_queue kq_holds_def Let_def
          nth_append less_Suc_eq add.assoc)
  qed
qed

lemma kq_get_ok:
  assumes "kq_holds s xs"
  shows "fst (kq_get s) = fst (list_get xs) \<and> kq_holds (snd (kq_get s)) (snd (list_get xs))"
proof -
  let ?q = "keycode_queue s"
  have n: "length xs \<le> 256" and e: "kq_end ?q = kq_start ?q + of_nat (length xs)"
    and full: "is_full ?q \<noteq> 0 \<longleftrightarrow> length xs = 256"
    and buf: "\<forall>i < length xs. kq_buf ?q (kq_start ?q + of_nat i) = xs ! i"
    using assms by (simp_all add: kq_holds_def QUEUE_BUF_SIZE_def Let_def)
  have empty: "is_full ?q = 0 \<and> kq_start ?q = kq_end ?q \<longleftrightarrow> xs = []"
  proof (cases "xs = []")
    case True
    with e full show ?thesis by auto
  next
    case False
    then have "0 < length xs" by simp
    from of_nat_u8_zero [OF this n] e full show ?thesis by auto
  qed
  note D = dequeue_queue [OF refl, of s]
  show ?thesis
  proof (cases xs)
    case Nil
    with empty assms show ?thesis by (simp add: kq_get_def D kq_holds_def Let_def split_beta)
  next
    case (Cons y ys)
    with empty have ne: "\<not> (is_full ?q = 0 \<and> kq_start ?q = kq_end ?q)" by simp
    have y: "kq_buf ?q (kq_start ?q) = y" using buf Cons by (auto dest: spec [of _ 0])
    have "\<forall>i < length ys. kq_buf ?q (kq_start ?q + 1 + of_nat i) = ys ! i"
    proof (intro allI impI)
      fix i assume "i < length ys"
      with buf [rule_format, of "Suc i"] Cons
      have "kq_buf ?q (kq_start ?q + of_nat (Suc i)) = xs ! Suc i" by simp
      with Cons show "kq_buf ?q (kq_start ?q + 1 + of_nat i) = ys ! i" by (simp add: add.assoc)
    qed
    then show ?thesis
      using Cons n e y
      by (simp add: kq_get_def kq_holds_def D [unfolded if_not_P [OF ne]] QUEUE_BUF_SIZE_def Let_def split_beta add.assoc)
  qed
qed

interpretation kb: bounded_queue QUEUE_BUF_SIZE kq_holds kq_put kq_get
  by unfold_locales (rule kq_put_ok kq_get_ok; assumption)+

lemma con_init_empty: "kq_holds (con_init s) []"
  by (simp add: con_init_def kq_holds_def QUEUE_BUF_SIZE_def Let_def)

section \<open>The scheduler under the keyboard code\<close>

text \<open>The jumps that switch tasks (or went nowhere), newest first.\<close>

fun is_switch :: "event \<Rightarrow> bool" where
  "is_switch (Ljmp sel) = True"
| "is_switch NullCall = True"
| "is_switch _ = False"

definition switches :: "event list \<Rightarrow> event list" where
  "switches evs = filter is_switch evs"

lemma switches_simps [simp]:
  "switches (Ljmp sel # evs) = Ljmp sel # switches evs" "switches (NullCall # evs) = NullCall # switches evs"
  "\<not> is_switch e \<Longrightarrow> switches (e # evs) = switches evs"
  by (simp_all add: switches_def)

lemma NullCall_switches: "NullCall \<in> set (switches evs) \<longleftrightarrow> NullCall \<in> set evs"
  by (simp add: switches_def)

text \<open>What the scheduler's invariant looks at.\<close>

type_synonym sched_part = "tstore \<times> tqueue \<times> tqueue \<times> tqueue \<times> tptr \<times> u16 \<times> event list"

definition sched_view :: "'a sched_state_scheme \<Rightarrow> sched_part" where
  "sched_view s = (tasks s, run_queue s, wakeup_queue s, wakeup_event_queue s, current_task s, tr s,
     switches (trace s))"

lemma sched_viewD:
  "sched_view s' = sched_view s \<Longrightarrow> tasks s' = tasks s \<and> run_queue s' = run_queue s
     \<and> wakeup_queue s' = wakeup_queue s \<and> wakeup_event_queue s' = wakeup_event_queue s
     \<and> current_task s' = current_task s \<and> tr s' = tr s
     \<and> (NullCall \<in> set (trace s') \<longleftrightarrow> NullCall \<in> set (trace s))"
  using NullCall_switches [of "trace s'"] NullCall_switches [of "trace s"] by (simp add: sched_view_def)

lemma sched_inv_cong:
  assumes "sched_view s' = sched_view s"
  shows "sched_inv s' rs ws es \<longleftrightarrow> sched_inv s rs ws es"
  using sched_viewD [OF assms]
  by (simp add: sched_inv_def sched_wf_def ctx_ok_def running_ok_def current_selector_def)

lemma lock_view [simp]:
  "sched_view (snd (kern_lock s)) = sched_view s" "sched_view (kern_unlock b s) = sched_view s"
  "trace (kern_unlock b s) = trace s"
  by (simp_all add: sched_view_def kern_lock_def kern_unlock_def Let_def cli_def sti_def)

lemma enqueue_view [simp]:
  "sched_view (enqueue x s) = sched_view s" "trace (enqueue x s) = trace s"
proof -
  let ?e = "s\<lparr>error_status := 0\<rparr>"
  obtain b s1 where L: "kern_lock ?e = (b, s1)" by fastforce
  have "sched_view s1 = sched_view s" "trace s1 = trace s"
    using lock_view(1) [of ?e] kern_lock_frame(3) [of ?e] by (simp_all add: L sched_view_def)
  moreover have "sched_view (s1\<lparr>keycode_queue := q\<rparr>) = sched_view s1" for q
    by (simp add: sched_view_def)
  ultimately show "sched_view (enqueue x s) = sched_view s" "trace (enqueue x s) = trace s"
    by (simp_all add: enqueue_def L Let_def) (simp add: sched_view_def)
qed

lemma dequeue_view [simp]:
  "sched_view (snd (dequeue s)) = sched_view s" "trace (snd (dequeue s)) = trace s"
proof -
  obtain b s1 where L: "kern_lock s = (b, s1)" by fastforce
  have "sched_view s1 = sched_view s" "trace s1 = trace s"
    using lock_view(1) [of s] kern_lock_frame(3) [of s] by (simp_all add: L)
  moreover have "sched_view (s1\<lparr>error_status := e\<rparr>) = sched_view s1"
    "sched_view (s1\<lparr>error_status := e, keycode_queue := q\<rparr>) = sched_view s1" for q e
    by (simp_all add: sched_view_def)
  ultimately show "sched_view (snd (dequeue s)) = sched_view s" "trace (snd (dequeue s)) = trace s"
    by (simp_all add: dequeue_def L Let_def)
qed

lemma port_view [simp]:
  "sched_view (outb_p v p s) = sched_view s" "sched_view (snd (inb_p dev p s)) = sched_view s"
  by (simp_all add: sched_view_def outb_p_def inb_p_def Let_def)

lemma dequeue_empty:
  assumes "kq_holds s []"
  shows "error_status (snd (dequeue s)) = 1" "kq_holds (snd (dequeue s)) []"
  using kq_get_ok [OF assms] dequeue_queue(2) [OF refl, of s] assms
  by (auto simp: kq_get_def kq_holds_def QUEUE_BUF_SIZE_def Let_def split_beta split: if_splits)

text \<open>The queue under the scheduler's operations.\<close>

lemma kq_holds_cong: "keycode_queue s' = keycode_queue s \<Longrightarrow> kq_holds s' xs \<longleftrightarrow> kq_holds s xs"
  by (simp add: kq_holds_def)

lemma more_queue:
  "sched_state.more s' = sched_state.more s \<Longrightarrow> keycode_queue s' = keycode_queue s"
  by (cases s; cases s') simp

lemma lock_more: "sched_state.more (snd (kern_lock s)) = sched_state.more s"
  by (simp add: kern_lock_def Let_def cli_def)

lemma runq_del_more: "sched_state.more (snd (sched_runq_del c s)) = sched_state.more s"
proof (cases "q_head (run_queue s) = TNull")
  case True
  then show ?thesis by (simp add: sched_runq_del_def)
qed (simp add: sched_runq_del_eq)

lemma block_more: "wakeup_after_event e s = Some (i, s') \<Longrightarrow> sched_state.more s' = sched_state.more s"
proof -
  assume w: "wakeup_after_event e s = Some (i, s')"
  obtain b s1 where L: "kern_lock s = (b, s1)" by fastforce
  have "sched_state.more s1 = sched_state.more s" using lock_more [of s] by (simp add: L)
  then have B: "sched_state.more (block_state c u s1) = sched_state.more s" for c u
    by (simp add: block_state_def Let_def runq_del_more)
  show ?thesis using w
    by (auto simp: wakeup_after_event_eq [OF L] sched_wakeupevq_enq_eq B split: if_splits)
qed

text \<open>A reader that finds the buffer empty waits for the keyboard event.\<close>

lemma get_keydata_blocks:
  assumes empty: "kq_holds s []" and inv: "sched_inv s (a @ c # b) ws es" and cur: "current_task s = c"
  shows "\<exists>i s'. get_keydata_step s = Some (Blocked i, s') \<and> sched_inv s' (a @ b) ws (es @ [c])
    \<and> wakeup_event (tasks s' c) = EVENT_TYPE_KBD \<and> kq_holds s' []
    \<and> current_task s' = (if a @ b = [] then TNull else hd (b @ a))"
proof -
  obtain i s1 where L: "kern_lock s = (i, s1)" by fastforce
  have "kq_holds s1 []" using empty kern_lock_con(1) [OF L] by (simp add: kq_holds_def)
  note D = dequeue_empty [OF this]
  let ?t = "kern_unlock i (snd (dequeue s1))"
  have v: "sched_view ?t = sched_view s" "trace ?t = trace s"
    using lock_view(1) [of s] kern_lock_frame(3) [of s] by (simp_all add: L)
  then have "sched_inv ?t (a @ c # b) ws es"
    using sched_inv_cong [of ?t s] inv by simp
  moreover have "current_task ?t = c" using v cur by (simp add: sched_view_def)
  ultimately obtain j s' where w: "wakeup_after_event EVENT_TYPE_KBD ?t = Some (j, s')"
    "sched_inv s' (a @ b) ws (es @ [c])" "wakeup_event (tasks s' c) = EVENT_TYPE_KBD"
    "current_task s' = (if a @ b = [] then TNull else hd (b @ a))"
    using wakeup_after_event_spec [of ?t a c b ws es EVENT_TYPE_KBD] by blast
  have "kq_holds s' []"
    using D(2) more_queue [OF block_more [OF w(1)]] by (simp add: kq_holds_def)
  moreover have "get_keydata_step s = Some (Blocked j, s')"
    using D(1) w(1) by (simp add: get_keydata_step_def L Let_def split_beta)
  ultimately show ?thesis using w by blast
qed

text \<open>A reader that finds a byte takes it and leaves the scheduler alone.\<close>

lemma dequeue_first:
  assumes "kq_holds s (x # xs)"
  shows "fst (dequeue s) = x" "error_status (snd (dequeue s)) = 0" "kq_holds (snd (dequeue s)) xs"
  using kq_get_ok [OF assms] by (auto simp: kq_get_def Let_def split_beta split: if_splits)

lemma get_keydata_got:
  assumes "kq_holds s (x # xs)"
  shows "\<exists>s'. get_keydata_step s = Some (Got x, s') \<and> kq_holds s' xs \<and> sched_view s' = sched_view s"
proof -
  obtain i s1 where L: "kern_lock s = (i, s1)" by fastforce
  have v: "sched_view s1 = sched_view s" using lock_view(1) [of s] by (simp add: L)
  have "kq_holds s1 (x # xs)" using assms kern_lock_con(1) [OF L] by (simp add: kq_holds_def)
  note D = dequeue_first [OF this]
  have "kq_holds (kern_unlock i (snd (dequeue s1))) xs" using D(3) by (simp add: kq_holds_def)
  with D(1,2) v show ?thesis by (simp add: get_keydata_step_def L Let_def split_beta)
qed

text \<open>Who is woken, seen from one waiting task.\<close>

lemma woken_position:
  assumes "distinct (p @ c # q)" and "due (v c)"
  shows "p \<noteq> [] \<and> due (v (hd p)) \<Longrightarrow> woken due v (p @ c # q) = [hd p] \<and> still_waiting due v (p @ c # q) = tl p @ c # q"
    and "\<not> (p \<noteq> [] \<and> due (v (hd p))) \<Longrightarrow>
      c \<in> set (woken due v (p @ c # q)) \<and> c \<notin> set (still_waiting due v (p @ c # q))"
  using assms by (cases p; auto)+

lemma event_due_payloads: "event_due e (payloads s t) \<longleftrightarrow> wakeup_event (tasks s t) = e"
  by (simp add: event_due_def payloads_def)

text \<open>What the controller answers when the interrupt handler asks.\<close>

definition kbc_status :: "device \<Rightarrow> 'a machine_scheme \<Rightarrow> u8" where
  "kbc_status dev s = ucast (dev (trace s) IOADR_KBC_STATUS)"

definition kbc_data :: "device \<Rightarrow> 'a machine_scheme \<Rightarrow> u8" where
  "kbc_data dev s =
     ucast (dev (InB IOADR_KBC_STATUS (kbc_status dev s) # trace s) IOADR_KBC_DATA)"

definition kbc_ready :: "device \<Rightarrow> 'a machine_scheme \<Rightarrow> bool" where
  "kbc_ready dev s \<longleftrightarrow> kbc_status dev s AND IOADR_KBC_STATUS_BIT_OBF \<noteq> 0"

text \<open>The state after the handler has fetched the byte.\<close>

definition fetched :: "device \<Rightarrow> 'a con_state_scheme \<Rightarrow> 'a con_state_scheme" where
  "fetched dev s =
     (let (status, s) = inb_p dev IOADR_KBC_STATUS s
      in if status AND IOADR_KBC_STATUS_BIT_OBF \<noteq> 0 then
           (let (data, s) = inb_p dev IOADR_KBC_DATA s in enqueue data s)
         else s)"

lemma do_ir_keyboard_eq:
  "do_ir_keyboard dev s =
     (case sched_update_wakeupevq EVENT_TYPE_KBD (fetched dev s) of
        None \<Rightarrow> None
      | Some (_, s) \<Rightarrow> Some (outb_p (IOADR_MPIC_OCW2_BIT_MANUAL_EOI OR INTR_IR_KB) IOADR_MPIC_OCW2 s))"
  by (simp add: do_ir_keyboard_def fetched_def Let_def split_beta)

lemma fetched_view:
  "sched_view (fetched dev s) = sched_view s"
  by (simp_all add: fetched_def Let_def split_beta)

lemma inb_queue [simp]:
  "keycode_queue (snd (inb_p dev p s)) = keycode_queue s"
  "keycode_queue (outb_p v p s) = keycode_queue s"
  by (simp_all add: inb_p_def outb_p_def Let_def)

lemma fetched_queue:
  assumes "kq_holds s xs"
  shows "kq_holds (fetched dev s)
    (if kbc_ready dev s then snd (list_put QUEUE_BUF_SIZE (kbc_data dev s) xs) else xs)"
proof -
  let ?s1 = "snd (inb_p dev IOADR_KBC_STATUS s)"
  let ?s2 = "snd (inb_p dev IOADR_KBC_DATA ?s1)"
  have st: "fst (inb_p dev IOADR_KBC_STATUS s) = kbc_status dev s"
    "fst (inb_p dev IOADR_KBC_DATA ?s1) = kbc_data dev s"
    by (simp_all add: inb_p_def kbc_status_def kbc_data_def Let_def)
  have "kq_holds ?s1 xs" "kq_holds ?s2 xs"
    using assms kq_holds_cong [of ?s1 s] kq_holds_cong [of ?s2 s] by simp_all
  with kq_put_ok [of ?s2 xs "kbc_data dev s"] show ?thesis
    by (simp add: fetched_def split_beta st kbc_ready_def kq_put_def Let_def)
qed

lemma do_ir_keyboard_spec:
  assumes inv: "sched_inv s rs ws es" and q: "kq_holds s xs"
  shows "\<exists>s'. do_ir_keyboard dev s = Some s'
    \<and> sched_inv s' (rs @ woken (event_due EVENT_TYPE_KBD) (payloads s) es) ws
        (still_waiting (event_due EVENT_TYPE_KBD) (payloads s) es)
    \<and> kq_holds s' (if kbc_ready dev s then snd (list_put QUEUE_BUF_SIZE (kbc_data dev s) xs) else xs)"
proof -
  let ?t = "fetched dev s"
  have inv1: "sched_inv ?t rs ws es" using sched_inv_cong [of ?t s] fetched_view inv by blast
  then have wf1: "sched_wf ?t rs ws es" by (simp add: sched_inv_def)
  have p: "payloads ?t = payloads s"
    using fetched_view(1) [of dev s] by (simp add: sched_view_def payloads_def fun_eq_iff)
  from update_wakeupevq_inv [OF inv1, of EVENT_TYPE_KBD] update_wakeupevq_spec [OF wf1, of EVENT_TYPE_KBD]
  obtain r s1 where u: "sched_update_wakeupevq EVENT_TYPE_KBD ?t = Some (r, s1)"
    and i: "sched_inv s1 (rs @ woken (event_due EVENT_TYPE_KBD) (payloads s) es) ws
        (still_waiting (event_due EVENT_TYPE_KBD) (payloads s) es)"
    and f: "sched_frame s1 = sched_frame ?t" unfolding p by auto
  let ?u = "outb_p (IOADR_MPIC_OCW2_BIT_MANUAL_EOI OR INTR_IR_KB) IOADR_MPIC_OCW2 s1"
  have "sched_inv ?u (rs @ woken (event_due EVENT_TYPE_KBD) (payloads s) es) ws
        (still_waiting (event_due EVENT_TYPE_KBD) (payloads s) es)"
    using i sched_inv_cong [of ?u s1] by simp
  moreover have "keycode_queue ?u = keycode_queue ?t"
    using sched_frameD [OF f] more_queue [of s1 ?t] by simp
  then have "kq_holds ?u (if kbc_ready dev s then snd (list_put QUEUE_BUF_SIZE (kbc_data dev s) xs) else xs)"
    using fetched_queue [OF q, of dev] kq_holds_cong [of ?u ?t] by blast
  moreover have "do_ir_keyboard dev s = Some ?u" by (simp add: do_ir_keyboard_eq u)
  ultimately show ?thesis by blast
qed

section \<open>Properties\<close>

text \<open>
  C25. The key buffer loses nothing but what arrives while it is full. For every sequence of keyboard
  interrupts (\<open>Put\<close>) and reads (\<open>Get\<close>) after \<^verbatim>\<open>con_init\<close>, the bytes the reads deliver, followed by the
  at most 256 bytes still in the buffer, are the bytes accepted, in their order; a byte is refused
  exactly when 256 are waiting. The byte indices wrap any number of times.
\<close>

theorem key_buffer_fifo:
  "\<exists>rest. results (fst (run_ops kq_put kq_get ops (con_init s))) @ rest
      = accepted QUEUE_BUF_SIZE ops 0
    \<and> kq_holds (snd (run_ops kq_put kq_get ops (con_init s))) rest
    \<and> fst (run_ops kq_put kq_get ops (con_init s))
      = fst (run_ops (list_put QUEUE_BUF_SIZE) list_get ops [])"
proof -
  let ?l = "run_ops (list_put QUEUE_BUF_SIZE) list_get ops []"
  note R = kb.run_refines [OF con_init_empty, of ops s]
  have "results (fst ?l) @ snd ?l = accepted QUEUE_BUF_SIZE ops 0"
    using list_run_order [of QUEUE_BUF_SIZE ops "[]"] by simp
  with R show ?thesis by (intro exI [of _ "snd ?l"]) simp
qed

text \<open>
  C8. A reader and the keyboard. A running task that finds the key buffer empty moves to the end of
  the event queue with the keyboard event, whoever waits there already, and its successor runs. In
  every later state in which it still waits there, a keyboard interrupt that finds a byte in the
  controller appends it to the buffer if there is room, and makes the reader runnable exactly if no
  earlier waiter for the keyboard is at the head of the queue; if one is, only this head is woken and
  the reader moves up one place. A reader that is back and finds a byte takes the oldest one.
\<close>

theorem keyboard_wakes_reader:
  assumes "kq_holds s []" and "sched_inv s (a @ c # b) ws es" and "current_task s = c"
  shows "(\<exists>i s'. get_keydata_step s = Some (Blocked i, s') \<and> sched_inv s' (a @ b) ws (es @ [c])
      \<and> wakeup_event (tasks s' c) = EVENT_TYPE_KBD \<and> kq_holds s' []
      \<and> current_task s' = (if a @ b = [] then TNull else hd (b @ a)))
    \<and> (\<forall>t rs ws' p q xs. sched_inv t rs ws' (p @ c # q) \<longrightarrow> wakeup_event (tasks t c) = EVENT_TYPE_KBD \<longrightarrow>
        kq_holds t xs \<longrightarrow> kbc_ready dev t \<longrightarrow>
        (\<exists>t' k es'. do_ir_keyboard dev t = Some t' \<and> sched_inv t' (rs @ k) ws' es'
          \<and> kq_holds t' (if length xs < QUEUE_BUF_SIZE then xs @ [kbc_data dev t] else xs)
          \<and> (if p \<noteq> [] \<and> wakeup_event (tasks t (hd p)) = EVENT_TYPE_KBD
             then k = [hd p] \<and> es' = tl p @ c # q
             else c \<in> set k \<and> c \<notin> set es')))
    \<and> (\<forall>t x xs. kq_holds t (x # xs) \<longrightarrow>
        (\<exists>t'. get_keydata_step t = Some (Got x, t') \<and> kq_holds t' xs \<and> sched_view t' = sched_view t))"
proof (intro conjI allI impI)
  show "\<exists>i s'. get_keydata_step s = Some (Blocked i, s') \<and> sched_inv s' (a @ b) ws (es @ [c])
      \<and> wakeup_event (tasks s' c) = EVENT_TYPE_KBD \<and> kq_holds s' []
      \<and> current_task s' = (if a @ b = [] then TNull else hd (b @ a))"
    using get_keydata_blocks [OF assms] by blast
next
  fix t rs ws' p q xs
  assume inv: "sched_inv t rs ws' (p @ c # q)" and e: "wakeup_event (tasks t c) = EVENT_TYPE_KBD"
    and q: "kq_holds t xs" "kbc_ready dev t"
  have "distinct (p @ c # q)" using inv by (auto simp: sched_inv_def sched_wf_def)
  note W = woken_position [OF this, of "event_due EVENT_TYPE_KBD" "payloads t", unfolded event_due_payloads, OF e]
  let ?k = "woken (event_due EVENT_TYPE_KBD) (payloads t) (p @ c # q)"
  let ?es = "still_waiting (event_due EVENT_TYPE_KBD) (payloads t) (p @ c # q)"
  have pos: "if p \<noteq> [] \<and> wakeup_event (tasks t (hd p)) = EVENT_TYPE_KBD
      then ?k = [hd p] \<and> ?es = tl p @ c # q else c \<in> set ?k \<and> c \<notin> set ?es"
  proof (cases "p \<noteq> [] \<and> wakeup_event (tasks t (hd p)) = EVENT_TYPE_KBD")
    case True
    from W(1) [OF this] show ?thesis unfolding if_P [OF True] .
  next
    case False
    from W(2) [OF this] show ?thesis unfolding if_not_P [OF False] .
  qed
  from do_ir_keyboard_spec [OF inv q(1), of dev] q(2) obtain t' where "do_ir_keyboard dev t = Some t'"
    "sched_inv t' (rs @ ?k) ws' ?es" "kq_holds t' (snd (list_put QUEUE_BUF_SIZE (kbc_data dev t) xs))" by auto
  with pos show "\<exists>t' k es'. do_ir_keyboard dev t = Some t' \<and> sched_inv t' (rs @ k) ws' es'
      \<and> kq_holds t' (if length xs < QUEUE_BUF_SIZE then xs @ [kbc_data dev t] else xs)
      \<and> (if p \<noteq> [] \<and> wakeup_event (tasks t (hd p)) = EVENT_TYPE_KBD
         then k = [hd p] \<and> es' = tl p @ c # q else c \<in> set k \<and> c \<notin> set es')"
    by (intro exI [of _ t'] exI [of _ ?k] exI [of _ ?es]) (simp add: list_put_def split: if_splits)
qed (rule get_keydata_got)

text \<open>One task runs, the key buffer is empty, and the controller always has the byte 0x1e.\<close>

definition boot_con :: con_state where
  "boot_con = con_init (timer_state.extend boot_state (con_state.fields 0 0
     \<lparr>kq_buf = (\<lambda>_. 0), kq_start = 0, kq_end = 0, is_full = 0\<rparr> 0))"

definition one_reader :: con_state where
  "one_reader = schedule SCHED_CAUSE_TIMER (start_task (THeap 0x1000) (app_task 0x20) boot_con)"

definition demo_kbc :: device where
  "demo_kbc evs p = (if p = IOADR_KBC_STATUS then 1 else 0x1e)"

lemma one_reader_inv: "sched_inv one_reader ([] @ THeap 0x1000 # []) [] []"
  "current_task one_reader = THeap 0x1000" "kq_holds one_reader []"
proof -
  let ?s = "start_task (THeap 0x1000) (app_task 0x20) boot_con"
  have "sched_boot boot_con"
    by (simp add: sched_boot_def boot_con_def con_init_def boot_state_def KERN_TASK_ID_def
        timer_state.defs con_state.defs Let_def)
  then have i: "sched_inv ?s ([] @ [THeap 0x1000]) [] []"
    by (intro start_task_inv boot_inv) simp_all
  then show "sched_inv one_reader ([] @ THeap 0x1000 # []) [] []"
    unfolding one_reader_def by (simp only: append_Cons append_Nil schedule_inv)
  have "current_task ?s = TNull"
    by (simp add: start_task_def sched_runq_enq_eq boot_con_def con_init_def boot_state_def
        timer_state.defs con_state.defs Let_def)
  with first_turn [OF i] show "current_task one_reader = THeap 0x1000"
    by (simp only: one_reader_def) simp
  have "sched_state.more one_reader = sched_state.more boot_con"
    by (simp add: one_reader_def start_task_def sched_runq_enq_eq)
  then have "keycode_queue one_reader = keycode_queue boot_con" by (rule more_queue)
  then show "kq_holds one_reader []"
    by (simp add: kq_holds_def boot_con_def con_init_def QUEUE_BUF_SIZE_def Let_def)
qed

theorem keyboard_wakes_reader_witness:
  "\<exists>i s' t'. get_keydata_step one_reader = Some (Blocked i, s') \<and> sched_inv s' [] [] [THeap 0x1000]
     \<and> do_ir_keyboard demo_kbc s' = Some t' \<and> (\<exists>rs es. sched_inv t' rs [] es \<and> THeap 0x1000 \<in> set rs)
     \<and> kq_holds t' [0x1e]"
proof -
  have r: "kbc_ready demo_kbc t" "kbc_data demo_kbc t = 0x1e" for t :: con_state
    by (simp_all add: kbc_ready_def kbc_status_def kbc_data_def demo_kbc_def IOADR_KBC_STATUS_def
        IOADR_KBC_DATA_def IOADR_KBC_STATUS_BIT_OBF_def)
  note K = keyboard_wakes_reader [OF one_reader_inv(3,1,2), of demo_kbc]
  from conjunct1 [OF K] obtain i s' where
    s': "get_keydata_step one_reader = Some (Blocked i, s')" "sched_inv s' [] [] [THeap 0x1000]"
    and e: "wakeup_event (tasks s' (THeap 0x1000)) = EVENT_TYPE_KBD" and q: "kq_holds s' []" by auto
  from conjunct1 [OF conjunct2 [OF K], rule_format, of s' "[]" "[]" "[]" "[]" "[]"] s'(2) e q r
  obtain t' k es' where "do_ir_keyboard demo_kbc s' = Some t'" "sched_inv t' k [] es'" "kq_holds t' [0x1e]"
    "THeap 0x1000 \<in> set k" by (auto simp: QUEUE_BUF_SIZE_def)
  with s' show ?thesis by blast
qed

end
