(* ===== verification/Cstring.thy ===== *)
theory Cstring
  imports Prelude
begin

text \<open>
  The C strings and memory blocks of \<^verbatim>\<open>kernel/string.c\<close> and \<^verbatim>\<open>kernel/common.c\<close>, on the flat byte
  memory. A loop that only a NUL byte ends is a partial function: \<^const>\<open>None\<close> is a loop that never
  ends. The shell has its own copies of \<^verbatim>\<open>str_compare\<close> and \<^verbatim>\<open>copy_mem\<close>, word for word the same.
\<close>

type_synonym memory = "u32 \<Rightarrow> u8"

section \<open>Memory blocks\<close>

definition set_byte :: "u32 \<Rightarrow> u8 \<Rightarrow> nat \<Rightarrow> memory \<Rightarrow> memory" where
  "set_byte p c i m = m(p + of_nat i := c)"

definition copy_byte :: "u32 \<Rightarrow> u32 \<Rightarrow> nat \<Rightarrow> memory \<Rightarrow> memory" where
  "copy_byte d s i m = m(d + of_nat i := m (s + of_nat i))"

definition memset :: "u32 \<Rightarrow> u32 \<Rightarrow> u32 \<Rightarrow> memory \<Rightarrow> memory" where
  "memset addr c n m = fold (set_byte addr (ucast c)) [0..<unat n] m"

definition memcpy :: "u32 \<Rightarrow> u32 \<Rightarrow> u32 \<Rightarrow> memory \<Rightarrow> u32 \<times> memory" where
  "memcpy dest src n m = (dest, fold (copy_byte dest src) [0..<unat n] m)"

text \<open>\<^verbatim>\<open>for (; size > 0; size--)\<close>, by recursion on the value of \<^verbatim>\<open>size\<close>.\<close>

fun copy_loop :: "u32 \<Rightarrow> u32 \<Rightarrow> nat \<Rightarrow> memory \<Rightarrow> memory" where
  "copy_loop s d 0 m = m"
| "copy_loop s d (Suc n) m = copy_loop (s + 1) (d + 1) n (m(d := m s))"

definition copy_mem :: "u32 \<Rightarrow> u32 \<Rightarrow> u32 \<Rightarrow> memory \<Rightarrow> memory" where
  "copy_mem src dst n m = copy_loop src dst (unat n) m"

section \<open>Strings\<close>

text \<open>\<^verbatim>\<open>char\<close> is signed: the difference of two characters is a difference of signed readings.\<close>

partial_function (option) strcmp :: "memory \<Rightarrow> u32 \<Rightarrow> u32 \<Rightarrow> int option" where
  "strcmp m s1 s2 =
     (if m s1 = m s2 then
        (if m s1 = 0 then Some 0 else strcmp m (s1 + 1) (s2 + 1))
      else Some (sint (m s1) - sint (m s2)))"

fun strncmp_loop :: "memory \<Rightarrow> u32 \<Rightarrow> u32 \<Rightarrow> nat \<Rightarrow> int" where
  "strncmp_loop m s1 s2 0 = 0"
| "strncmp_loop m s1 s2 (Suc n) =
     (if m s1 \<noteq> m s2 then sint (m s1) - sint (m s2)
      else if m s1 = 0 then 0
      else strncmp_loop m (s1 + 1) (s2 + 1) n)"

definition strncmp :: "memory \<Rightarrow> u32 \<Rightarrow> u32 \<Rightarrow> u32 \<Rightarrow> int" where
  "strncmp m s1 s2 n = strncmp_loop m s1 s2 (unat n)"

text \<open>\<^verbatim>\<open>while (*s++);\<close>: the pointer moves past the NUL as well.\<close>

partial_function (option) strlen_loop :: "memory \<Rightarrow> u32 \<Rightarrow> u32 option" where
  "strlen_loop m s = (if m s \<noteq> 0 then strlen_loop m (s + 1) else Some (s + 1))"

definition strlen :: "memory \<Rightarrow> u32 \<Rightarrow> u32 option" where
  "strlen m s = map_option (\<lambda>e. e - s) (strlen_loop m s)"

partial_function (option) strcpy :: "u32 \<Rightarrow> u32 \<Rightarrow> memory \<Rightarrow> (u32 \<times> memory) option" where
  "strcpy dest src m =
     (let c = m src; m = m(dest := c)
      in if c \<noteq> 0 then strcpy (dest + 1) (src + 1) m else Some (dest + 1, m))"

partial_function (option) str_compare :: "memory \<Rightarrow> u32 \<Rightarrow> u32 \<Rightarrow> int option" where
  "str_compare m src dst =
     (if m src \<noteq> 0 \<and> m dst \<noteq> 0 then
        (if m src \<noteq> m dst then Some (sint (m src) - sint (m dst))
         else str_compare m (src + 1) (dst + 1))
      else if m src \<noteq> 0 then Some 1
      else if m dst \<noteq> 0 then Some (- 1)
      else Some 0)"

section \<open>Specifications\<close>

text \<open>The bytes \<open>xs\<close> at \<open>p\<close>, and the NUL-terminated string \<open>xs\<close> at \<open>p\<close>.\<close>

definition block_at :: "memory \<Rightarrow> u32 \<Rightarrow> u8 list \<Rightarrow> bool" where
  "block_at m p xs \<longleftrightarrow> (\<forall>i < length xs. m (p + of_nat i) = xs ! i)"

definition cstr :: "memory \<Rightarrow> u32 \<Rightarrow> u8 list \<Rightarrow> bool" where
  "cstr m p xs \<longleftrightarrow> block_at m p (xs @ [0]) \<and> 0 \<notin> set xs"

text \<open>Copying upwards from \<open>src\<close> reads no byte it has already overwritten.\<close>

definition copy_safe :: "u32 \<Rightarrow> u32 \<Rightarrow> nat \<Rightarrow> bool" where
  "copy_safe dest src n \<longleftrightarrow> (\<forall>i j. i < j \<longrightarrow> j < n \<longrightarrow> dest + of_nat i \<noteq> src + of_nat j)"

text \<open>The bytes outside \<open>n\<close> bytes from \<open>p\<close>.\<close>

definition same_outside :: "u32 \<Rightarrow> nat \<Rightarrow> memory \<Rightarrow> memory \<Rightarrow> bool" where
  "same_outside p n m m' \<longleftrightarrow> (\<forall>q. (\<forall>i < n. q \<noteq> p + of_nat i) \<longrightarrow> m' q = m q)"

text \<open>Lexicographic order of signed bytes, the terminating NUL included.\<close>

definition str_less :: "u8 list \<Rightarrow> u8 list \<Rightarrow> bool" where
  "str_less xs ys \<longleftrightarrow> (xs @ [0], ys @ [0]) \<in> lexord {(x, y). sint x < sint (y :: u8)}"

text \<open>
  A comparison whose zero is equality: what the lookups by name (\<^verbatim>\<open>fs_open\<close>, \<^verbatim>\<open>get_blk_driver\<close>,
  the shell's \<^verbatim>\<open>command_exec\<close>) rely on. The client walks a list of entries and stops at the first
  whose name compares equal.
\<close>

locale string_compare =
  fixes cmp :: "memory \<Rightarrow> u32 \<Rightarrow> u32 \<Rightarrow> int option"
  assumes cmp_eq: "cstr m p xs \<Longrightarrow> cstr m q ys \<Longrightarrow> \<exists>d. cmp m p q = Some d \<and> (d = 0 \<longleftrightarrow> xs = ys)"
begin

lemma cmp_refl: "cstr m p xs \<Longrightarrow> cstr m q xs \<Longrightarrow> cmp m p q = Some 0"
  using cmp_eq [of m p xs q xs] by auto

lemma cmp_ne: "cstr m p xs \<Longrightarrow> cstr m q ys \<Longrightarrow> xs \<noteq> ys \<Longrightarrow> \<exists>d. cmp m p q = Some d \<and> d \<noteq> 0"
  using cmp_eq [of m p xs q ys] by auto

end

section \<open>Lemmas\<close>

lemma sint_eq_u8 [simp]: "sint (x :: u8) = sint y \<longleftrightarrow> x = y" "sint (x :: u8) = 0 \<longleftrightarrow> x = 0"
  "0 = sint (x :: u8) \<longleftrightarrow> x = 0"
  using signed_word_eqI [of x y] signed_word_eqI [of x 0] by auto

lemma cstr_Nil: "cstr m p [] \<longleftrightarrow> m p = 0"
  by (simp add: cstr_def block_at_def)

lemma block_at_Cons: "block_at m p (x # xs) \<longleftrightarrow> m p = x \<and> block_at m (p + 1) xs"
  by (auto simp: block_at_def less_Suc_eq_0_disj add.assoc)

lemma cstr_Cons: "cstr m p (x # xs) \<longleftrightarrow> m p = x \<and> x \<noteq> 0 \<and> cstr m (p + 1) xs"
  by (auto simp: cstr_def block_at_Cons)

lemmas cstr_simps = cstr_Nil cstr_Cons

lemma str_less_simps:
  "\<not> str_less [] []"
  "str_less [] (y # ys) \<longleftrightarrow> 0 < sint y \<or> y = 0"
  "str_less (x # xs) [] \<longleftrightarrow> sint x < 0"
  "str_less (x # xs) (y # ys) \<longleftrightarrow> sint x < sint y \<or> x = y \<and> str_less xs ys"
  by (auto simp: str_less_def neq_Nil_conv [symmetric])

lemma str_less_total: "xs \<noteq> ys \<longleftrightarrow> str_less xs ys \<or> str_less ys xs"
proof (induction xs arbitrary: ys)
  case Nil
  show ?case by (cases ys) (auto simp: str_less_simps)
next
  case (Cons x xs)
  show ?case using Cons [of "tl ys"] by (cases ys) (auto simp: str_less_simps not_less le_less)
qed

lemma str_less_asym: "\<not> (str_less xs ys \<and> str_less ys xs)"
proof (induction xs arbitrary: ys)
  case Nil
  show ?case by (cases ys) (auto simp: str_less_simps)
next
  case (Cons x xs)
  show ?case using Cons [of "tl ys"] by (cases ys) (auto simp: str_less_simps)
qed

lemma strcmp_spec:
  "cstr m p xs \<Longrightarrow> cstr m q ys \<Longrightarrow>
   \<exists>d. strcmp m p q = Some d \<and> (d = 0 \<longleftrightarrow> xs = ys) \<and> (d < 0 \<longleftrightarrow> str_less xs ys)"
proof (induction xs arbitrary: p q ys)
  case Nil
  then show ?case
    by (cases ys; subst strcmp.simps) (auto simp: cstr_simps str_less_simps)
next
  case (Cons x xs)
  show ?case
  proof (cases ys)
    case Nil
    with Cons.prems show ?thesis
      by (subst strcmp.simps) (auto simp: cstr_simps str_less_simps)
  next
    case c: (Cons y ys')
    with Cons.prems have "cstr m (p + 1) xs" "cstr m (q + 1) ys'" by (simp_all add: cstr_simps)
    from Cons.IH [OF this] c Cons.prems show ?thesis
      by (subst strcmp.simps) (auto simp: cstr_simps str_less_simps)
  qed
qed

lemma str_compare_eq:
  "cstr m p xs \<Longrightarrow> cstr m q ys \<Longrightarrow> \<exists>d. str_compare m p q = Some d \<and> (d = 0 \<longleftrightarrow> xs = ys)"
proof (induction xs arbitrary: p q ys)
  case Nil
  then show ?case by (cases ys; subst str_compare.simps) (auto simp: cstr_simps)
next
  case (Cons x xs)
  show ?case
  proof (cases ys)
    case Nil
    with Cons.prems show ?thesis by (subst str_compare.simps) (auto simp: cstr_simps)
  next
    case c: (Cons y ys')
    with Cons.prems have "cstr m (p + 1) xs" "cstr m (q + 1) ys'" by (simp_all add: cstr_simps)
    from Cons.IH [OF this] c Cons.prems show ?thesis
      by (subst str_compare.simps) (auto simp: cstr_simps)
  qed
qed

interpretation sc: string_compare strcmp
  by unfold_locales (use strcmp_spec in blast)

interpretation cc: string_compare str_compare
  by unfold_locales (rule str_compare_eq)

lemma str_compare_swap:
  "cstr m p xs \<Longrightarrow> cstr m q ys \<Longrightarrow> str_compare m q p = map_option uminus (str_compare m p q)"
proof (induction xs arbitrary: p q ys)
  case Nil
  then show ?case
    by (cases ys; subst (1 2) str_compare.simps) (auto simp: cstr_simps)
next
  case (Cons x xs)
  then show ?case
    by (cases ys; subst (1 2) str_compare.simps) (auto simp: cstr_simps)
qed

lemma strlen_loop_spec: "cstr m p xs \<Longrightarrow> strlen_loop m p = Some (p + of_nat (length xs) + 1)"
  by (induction xs arbitrary: p; subst strlen_loop.simps) (auto simp: cstr_simps algebra_simps)

lemma strncmp_zero:
  "cstr m p xs \<Longrightarrow> cstr m q ys \<Longrightarrow> strncmp_loop m p q n = 0 \<longleftrightarrow> take n xs = take n ys"
proof (induction n arbitrary: p q xs ys)
  case (Suc n)
  then show ?case by (cases xs; cases ys) (auto simp: cstr_simps)
qed simp

lemma of_nat_u32_inj: "i < 2 ^ 32 \<Longrightarrow> j < 2 ^ 32 \<Longrightarrow> (of_nat i :: u32) = of_nat j \<longleftrightarrow> i = j"
  by (simp add: word_unat_eq_iff unsigned_of_nat take_bit_nat_eq_self)

lemma same_outside_refl [simp]: "same_outside p n m m"
  by (simp add: same_outside_def)

lemma copy_byte_apply:
  "copy_byte d s i m q = (if q = d + of_nat i then m (s + of_nat i) else m q)"
  by (simp add: copy_byte_def)

lemma set_byte_apply: "set_byte p c i m q = (if q = p + of_nat i then c else m q)"
  by (simp add: set_byte_def)

lemma copy_up:
  assumes "n \<le> 2 ^ 32" and "copy_safe dest src n"
  shows "(\<forall>k < n. fold (copy_byte dest src) [0..<n] m (dest + of_nat k) = m (src + of_nat k))
    \<and> same_outside dest n m (fold (copy_byte dest src) [0..<n] m)"
  using assms
proof (induction n)
  case (Suc n)
  let ?f = "fold (copy_byte dest src) [0..<n] m"
  from Suc.prems(2) have "copy_safe dest src n" by (simp add: copy_safe_def)
  with Suc have IH: "\<forall>k < n. ?f (dest + of_nat k) = m (src + of_nat k)" "same_outside dest n m ?f"
    by simp_all
  have "\<forall>i < n. src + of_nat n \<noteq> dest + of_nat i"
    using Suc.prems(2) unfolding copy_safe_def by (metis lessI)
  with IH(2) have src: "?f (src + of_nat n) = m (src + of_nat n)" by (simp add: same_outside_def)
  have "(of_nat k :: u32) \<noteq> of_nat n" if "k < n" for k
    using that Suc.prems(1) of_nat_u32_inj [of k n] by simp
  with IH src show ?case by (auto simp: copy_byte_apply [of _ _ _ ?f] same_outside_def less_Suc_eq)
qed simp

lemma copy_outside: "same_outside d n m (fold (copy_byte d s) [0..<n] m)"
  by (induction n) (auto simp: same_outside_def copy_byte_apply)

lemma copy_smear:
  assumes "n \<le> 2 ^ 32" and "k < n"
  shows "fold (copy_byte (s + 1) s) [0..<n] m (s + 1 + of_nat k) = m s"
  using assms
proof (induction n arbitrary: k)
  case (Suc n)
  define M where "M = fold (copy_byte (s + 1) s) [0..<n] m"
  have M: "M (s + of_nat n) = m s"
  proof (cases n)
    case (Suc i)
    with Suc.IH [of i] Suc.prems show ?thesis by (simp add: M_def algebra_simps)
  qed (simp add: M_def)
  have "copy_byte (s + 1) s n M (s + 1 + of_nat k) = m s"
    using M Suc.IH [of k, folded M_def] Suc.prems of_nat_u32_inj [of k n]
    by (cases "k = n") (auto simp: copy_byte_apply)
  then show ?case by (simp add: M_def)
qed simp

lemma copy_byte_Suc: "copy_byte d s (Suc i) = copy_byte (d + 1) (s + 1) i"
  by (simp add: copy_byte_def fun_eq_iff add.assoc)

lemma copy_loop_fold: "copy_loop s d n m = fold (copy_byte d s) [0..<n] m"
proof (induction n arbitrary: s d m)
  case (Suc n)
  have "[0..<Suc n] = 0 # map Suc [0..<n]" by (simp only: upt_conv_Cons map_Suc_upt zero_less_Suc)
  moreover have "copy_byte d s 0 m = m(d := m s)" by (simp add: copy_byte_def)
  moreover have "copy_byte d s \<circ> Suc = copy_byte (d + 1) (s + 1)"
    by (simp add: comp_def copy_byte_Suc)
  ultimately show ?case using Suc by (simp only: copy_loop.simps fold_simps fold_map)
qed simp

lemma memset_fills:
  "n \<le> 2 ^ 32 \<Longrightarrow> (\<forall>k < n. fold (set_byte p c) [0..<n] m (p + of_nat k) = c)
   \<and> same_outside p n m (fold (set_byte p c) [0..<n] m)"
  proof (induction n)
  case (Suc n)
  have "(of_nat k :: u32) \<noteq> of_nat n" if "k < n" for k
    using that Suc.prems(1) of_nat_u32_inj [of k n] by simp
  with Suc show ?case 
    by (auto simp: same_outside_def less_Suc_eq set_byte_apply [of _ _ _ "fold (set_byte p c) [0..<n] m"])
qed simp

lemma strcpy_step_outside:
  assumes "copy_safe dest src (Suc (Suc n))"
  shows "copy_safe (dest + 1) (src + 1) (Suc n)"
proof -
  have "dest + 1 + of_nat i \<noteq> src + 1 + of_nat j" if "i < j" "j < Suc n" for i j
    using assms [unfolded copy_safe_def, rule_format, of "Suc i" "Suc j"] that
    by (simp add: add.assoc)
  then show ?thesis by (simp add: copy_safe_def)
qed

lemma strcpy_spec:
  "cstr m src xs \<Longrightarrow> copy_safe dest src (Suc (length xs)) \<Longrightarrow> length xs < 2 ^ 32 \<Longrightarrow>
   \<exists>m'. strcpy dest src m = Some (dest + of_nat (length xs) + 1, m')
     \<and> cstr m' dest xs \<and> same_outside dest (Suc (length xs)) m m'"
proof (induction xs arbitrary: m src dest)
  case Nil
  then show ?case
    by (subst strcpy.simps) (auto simp: cstr_simps same_outside_def Let_def)
next
  case (Cons x xs)
  let ?m = "m(dest := x)"
  have "\<forall>j < Suc (length xs). dest \<noteq> src + 1 + of_nat j"
    using Cons.prems(2) [unfolded copy_safe_def, rule_format, of 0 "Suc _"]
    by (auto simp: add.assoc)
  moreover have "cstr m (src + 1) xs" using Cons.prems(1) by (simp add: cstr_Cons)
  ultimately have "cstr ?m (src + 1) xs" by (auto simp: cstr_def block_at_def)
  moreover have "copy_safe (dest + 1) (src + 1) (Suc (length xs))"
    using Cons.prems(2) strcpy_step_outside by simp
  moreover have "length xs < 2 ^ 32" using Cons.prems(3) by simp
  ultimately obtain m' where m': "strcpy (dest + 1) (src + 1) ?m = Some (dest + 1 + of_nat (length xs) + 1, m')"
    "cstr m' (dest + 1) xs" "same_outside (dest + 1) (Suc (length xs)) ?m m'"
    using Cons.IH by blast
  have far: "\<forall>i < Suc (length xs). dest \<noteq> dest + 1 + of_nat i"
  proof (intro allI impI)
    fix i assume "i < Suc (length xs)"
    with Cons.prems(3) have "Suc i < 2 ^ 32" by simp
    then have "(of_nat (Suc i) :: u32) \<noteq> of_nat 0" by (subst of_nat_u32_inj) simp_all
    then show "dest \<noteq> dest + 1 + of_nat i" by (simp add: add.assoc)
  qed
  with m'(3) have "m' dest = x" by (simp add: same_outside_def)
  moreover have "same_outside dest (Suc (Suc (length xs))) m m'"
    unfolding same_outside_def
  proof (intro allI impI)
    fix q assume q: "\<forall>i < Suc (Suc (length xs)). q \<noteq> dest + of_nat i"
    then have "q \<noteq> dest + of_nat 0" by blast
    moreover have "q \<noteq> dest + 1 + of_nat i" if "i < Suc (length xs)" for i
      using q [rule_format, of "Suc i"] that by (simp add: add.assoc)
    ultimately show "m' q = m q" using m'(3) by (simp add: same_outside_def)
  qed
  ultimately show ?case
    using Cons.prems(1) m' by (subst strcpy.simps) (auto simp: cstr_simps Let_def algebra_simps)
qed

section \<open>Regions of memory\<close>

definition region :: "u32 \<Rightarrow> nat \<Rightarrow> u32 set" where
  "region p n = (\<lambda>i. p + of_nat i) ` {..<n}"

lemma region_mem: "i < n \<Longrightarrow> p + of_nat i \<in> region p n"
  by (simp add: region_def)

lemma region_mono: "k \<le> n \<Longrightarrow> region p k \<subseteq> region p n"
  by (auto simp: region_def)

lemma region_shift: "region (p + of_nat k) n \<subseteq> region p (k + n)"
  by (auto simp: region_def image_iff add.assoc intro!: bexI [of _ "k + _"])

lemma region_range:
  assumes "q \<in> region p n" and "unat p + n \<le> 2 ^ 32"
  shows "unat p \<le> unat q \<and> unat q < unat p + n"
proof -
  obtain i where i: "q = p + of_nat i" "i < n" using assms(1) by (auto simp: region_def)
  then have "unat q = unat p + i"
    using assms(2) by (simp add: unat_word_ariths unsigned_of_nat take_bit_nat_eq_self)
  with i show ?thesis by simp
qed

lemma cstr_at: "cstr m p xs \<Longrightarrow> i < length xs \<Longrightarrow> m (p + of_nat i) = xs ! i"
  by (auto simp: cstr_def block_at_def nth_append)

lemma cstr_end: "cstr m p xs \<Longrightarrow> m (p + of_nat (length xs)) = 0"
  by (auto simp: cstr_def block_at_def nth_append)

lemma cstrI:
  assumes "\<And>i. i < length xs \<Longrightarrow> m (p + of_nat i) = xs ! i" and "m (p + of_nat (length xs)) = 0"
    and "0 \<notin> set xs"
  shows "cstr m p xs"
  using assms by (auto simp: cstr_def block_at_def nth_append less_Suc_eq)

lemma cstr_frame:
  assumes "cstr m p xs" and "\<And>q. q \<in> region p (Suc (length xs)) \<Longrightarrow> m' q = m q"
  shows "cstr m' p xs"
  using assms by (auto simp: cstr_def block_at_def region_def)

lemma copy_mem_region:
  assumes "region dst (unat n) \<inter> region src (unat n) = {}"
  shows "i < unat n \<Longrightarrow> copy_mem src dst n m (dst + of_nat i) = m (src + of_nat i)"
    and "q \<notin> region dst (unat n) \<Longrightarrow> copy_mem src dst n m q = m q"
proof -
  have "dst + of_nat i \<noteq> src + of_nat j" if "i < j" "j < unat n" for i j
    using assms that region_mem [of i "unat n" dst] region_mem [of j "unat n" src] by force
  then have safe: "copy_safe dst src (unat n)" by (simp add: copy_safe_def)
  have "unat n \<le> 2 ^ 32" using unat_u32_bound [of n] by simp
  note c = copy_up [OF this safe, of m, folded copy_loop_fold]
  from c show "i < unat n \<Longrightarrow> copy_mem src dst n m (dst + of_nat i) = m (src + of_nat i)"
    by (simp add: copy_mem_def)
  from c show "q \<notin> region dst (unat n) \<Longrightarrow> copy_mem src dst n m q = m q"
    by (auto simp: copy_mem_def same_outside_def region_def)
qed

section \<open>Properties\<close>

text \<open>A memory with the string \<open>"ab"\<close> at 0x1000 and \<open>"b"\<close> at 0x2000.\<close>

definition demo_memory :: memory where
  "demo_memory = (\<lambda>_. 0)(0x1000 := 0x61, 0x1001 := 0x62, 0x2000 := 0x62)"

lemma demo_strings: "cstr demo_memory 0x1000 [0x61, 0x62]" "cstr demo_memory 0x2000 [0x62]"
  by (simp_all add: cstr_simps demo_memory_def)

text \<open>
  The sign of \<^verbatim>\<open>strcmp\<close> is the lexicographic order of the strings with their terminators, read as
  signed characters (the standard function compares unsigned ones).
\<close>

lemma strcmp_signed_order:
  assumes "cstr m p xs" and "cstr m q ys"
  shows "\<exists>d. strcmp m p q = Some d \<and> (d < 0 \<longleftrightarrow> str_less xs ys) \<and> (0 < d \<longleftrightarrow> str_less ys xs)"
proof -
  from strcmp_spec [OF assms] obtain d where d: "strcmp m p q = Some d" "d = 0 \<longleftrightarrow> xs = ys"
    "d < 0 \<longleftrightarrow> str_less xs ys" by blast
  have "xs \<noteq> ys \<longleftrightarrow> str_less xs ys \<or> str_less ys xs"
    by (rule str_less_total)
  moreover have "\<not> (str_less xs ys \<and> str_less ys xs)" by (rule str_less_asym)
  ultimately show ?thesis using d by (intro exI [of _ d]) linarith
qed

text \<open>
  C29. The string comparisons end on NUL-terminated strings, and zero means equality: for \<^verbatim>\<open>strcmp\<close> and
  \<^verbatim>\<open>str_compare\<close> of the whole strings, for \<^verbatim>\<open>strncmp\<close> of their first \<open>n\<close> characters. The sign of
  \<^verbatim>\<open>strcmp\<close> is the lexicographic order of signed characters (the standard function compares
  unsigned ones). Swapping the arguments of \<^verbatim>\<open>str_compare\<close> negates its result.
\<close>

theorem string_comparison_equality:
  assumes "cstr m p xs" and "cstr m q ys"
  shows "(\<exists>d. strcmp m p q = Some d \<and> (d = 0 \<longleftrightarrow> xs = ys)
        \<and> (d < 0 \<longleftrightarrow> str_less xs ys) \<and> (0 < d \<longleftrightarrow> str_less ys xs))
    \<and> (\<exists>d. str_compare m p q = Some d \<and> str_compare m q p = Some (- d) \<and> (d = 0 \<longleftrightarrow> xs = ys))
    \<and> (strncmp m p q n = 0 \<longleftrightarrow> take (unat n) xs = take (unat n) ys)"
  using sc.cmp_eq [OF assms] strcmp_signed_order [OF assms] cc.cmp_eq [OF assms] str_compare_swap [OF assms]
    strncmp_zero [OF assms] by (auto simp: strncmp_def)

theorem string_comparison_equality_witness:
  "strncmp demo_memory 0x1000 0x2000 1 \<noteq> 0 \<and> (\<exists>d. strcmp demo_memory 0x1000 0x2000 = Some d \<and> d < 0)"
  using string_comparison_equality [OF demo_strings, of 1] by (auto simp: str_less_simps)

text \<open>
  \<^verbatim>\<open>strlen\<close> of a string of \<open>n\<close> characters is \<open>n + 1\<close>: the loop steps over the terminator before
  the pointers are subtracted.
\<close>

lemma strlen_counts_nul:
  assumes "cstr m p xs"
  shows "strlen m p = Some (of_nat (length xs) + 1)"
  using strlen_loop_spec [OF assms] by (simp add: strlen_def)

text \<open>
  \<^verbatim>\<open>strcpy\<close> to a place that does not overlap upwards with its source puts the string there, changes
  no byte outside the copy, and returns the address after the terminator (the standard function
  returns \<open>dest\<close>). \<^verbatim>\<open>strlen\<close> counts the terminator (the standard function does not).
\<close>

lemma strcpy_copies:
  assumes "cstr m src xs" and "copy_safe dest src (Suc (length xs))" and "length xs < 2 ^ 32"
  shows "(\<exists>m'. strcpy dest src m = Some (dest + of_nat (length xs) + 1, m')
      \<and> cstr m' dest xs \<and> same_outside dest (Suc (length xs)) m m')
    \<and> strlen m src = Some (of_nat (length xs) + 1)"
  using strcpy_spec [OF assms] strlen_counts_nul [OF assms(1)] by blast

lemma strcpy_copies_witness:
  "\<exists>m'. strcpy 0x3000 0x2000 demo_memory = Some (0x3002, m') \<and> cstr m' 0x3000 [0x62]"
proof -
  have "copy_safe 0x3000 0x2000 (Suc (length [0x62 :: u8]))"
    by (auto simp: copy_safe_def less_Suc_eq)
  from strcpy_copies [OF demo_strings(2) this] show ?thesis by auto
qed

text \<open>
  C30. \<^verbatim>\<open>memcpy\<close>, \<^verbatim>\<open>copy_mem\<close> and \<^verbatim>\<open>memset\<close> as their loops go, byte by byte upwards. On every input,
  overlapping ones included, the two copies leave the same memory, no byte outside the destination
  changes, and \<^verbatim>\<open>memset\<close> fills its destination. Where the destination does not start inside the
  source (no byte is overwritten before it is read), the copied bytes are the source's; where it
  starts one byte above the source, every byte becomes the first one.
\<close>

theorem block_copy:
  "copy_mem src dest n m = snd (memcpy dest src n m) \<and> fst (memcpy dest src n m) = dest
    \<and> same_outside dest (unat n) m (snd (memcpy dest src n m))
    \<and> (copy_safe dest src (unat n) \<longrightarrow>
        (\<forall>k < unat n. snd (memcpy dest src n m) (dest + of_nat k) = m (src + of_nat k)))
    \<and> (dest = src + 1 \<longrightarrow> (\<forall>k < unat n. snd (memcpy dest src n m) (dest + of_nat k) = m src))
    \<and> (\<forall>k < unat n. memset dest c n m (dest + of_nat k) = ucast c)
    \<and> same_outside dest (unat n) m (memset dest c n m)"
proof -
  have n: "unat n \<le> 2 ^ 32" using unat_u32_bound [of n] by simp
  from copy_up [OF n] copy_outside [of dest "unat n" m src] copy_smear [OF n, where s = src and m = m]
    memset_fills [OF n] show ?thesis
    by (simp add: memcpy_def copy_mem_def copy_loop_fold memset_def)
qed

theorem block_copy_witness:
  "snd (memcpy 0x3000 0x1000 2 demo_memory) 0x3001 = 0x62"
proof -
  have two: "unat (2 :: u32) = Suc (Suc 0)" by simp
  have "copy_safe 0x3000 0x1000 (unat (2 :: u32))"
    unfolding copy_safe_def two by (auto simp: less_Suc_eq)
  with block_copy [of "0x1000" "0x3000" 2 demo_memory] show ?thesis
    unfolding two by (auto simp: less_Suc_eq demo_memory_def)
qed

end
