(* ===== verification/Stdlib_Conv.thy ===== *)
theory Stdlib_Conv
  imports Prelude
begin

text \<open>
  The number formatting of \<^verbatim>\<open>kernel/stdlib.c\<close>. Each routine fills the local array \<^verbatim>\<open>tmp\<close> with
  the digits, least significant first (here the list of the \<^verbatim>\<open>len\<close> bytes written so far), and
  copies it reversed, with a terminating NUL, to the caller's buffer: the result is the list of
  the bytes stored from \<^verbatim>\<open>buf[0]\<close> on.
\<close>

section \<open>Model\<close>

definition BUF_SIZE :: nat where
  "BUF_SIZE = 64 + 1"

text \<open>The \<^verbatim>\<open>do ... while\<close> of \<^verbatim>\<open>itoa\<close>; \<^verbatim>\<open>n\<close> is a \<^verbatim>\<open>long\<close>, division truncates towards zero.\<close>

function itoa_loop :: "int \<Rightarrow> u8 list \<Rightarrow> u8 list" where
  "itoa_loop n tmp =
     (let tmp' = tmp @ [word_of_int (n smod 10 + 48)];
          n' = n sdiv 10
      in if 0 < n' \<and> length tmp' < BUF_SIZE - 2 then itoa_loop n' tmp' else tmp')"
  by pat_completeness auto
termination
  by (relation "measure (\<lambda>(n, tmp). BUF_SIZE - length tmp)") (auto simp: Let_def BUF_SIZE_def)

definition copy_reversed :: "u8 list \<Rightarrow> u8 list" where
  "copy_reversed tmp = map (\<lambda>i. tmp ! (length tmp - 1 - i)) [0..<length tmp] @ [0]"

definition itoa :: "u32 \<Rightarrow> u8 list" where
  "itoa n =
     (let sign = sint n < 0;
          n' = (if sign then - n else n);
          tmp = itoa_loop (sint n') [];
          tmp' = (if sign then tmp @ [of_char CHR ''-''] else tmp)
      in copy_reversed tmp')"

definition hex_digits :: "u8 list" where
  "hex_digits = bytes_of ''0123456789abcdef''"

function itox_loop :: "u32 \<Rightarrow> u8 list \<Rightarrow> u8 list" where
  "itox_loop n tmp =
     (let tmp' = tmp @ [hex_digits ! unat (n mod 16)];
          n' = n div 16
      in if 0 < n' \<and> length tmp' < BUF_SIZE - 1 then itox_loop n' tmp' else tmp')"
  by pat_completeness auto
termination
  by (relation "measure (\<lambda>(n, tmp). BUF_SIZE - length tmp)") (auto simp: Let_def BUF_SIZE_def)

definition itox :: "u32 \<Rightarrow> u8 list" where
  "itox n = copy_reversed (itox_loop n [])"

declare itoa_loop.simps [simp del] itox_loop.simps [simp del]

section \<open>Reference readings\<close>

text \<open>The decimal and hexadecimal numerals of a natural number, most significant digit first.\<close>

definition dec_digit :: "nat \<Rightarrow> u8" where
  "dec_digit d = of_nat (d + 48)"

fun dec_digits :: "nat \<Rightarrow> u8 list" where
  "dec_digits n =
     (if n < 10 then [dec_digit n] else dec_digits (n div 10) @ [dec_digit (n mod 10)])"

fun hex_numeral :: "nat \<Rightarrow> u8 list" where
  "hex_numeral n =
     (if n < 16 then [hex_digits ! n] else hex_numeral (n div 16) @ [hex_digits ! (n mod 16)])"

declare dec_digits.simps [simp del] hex_numeral.simps [simp del]

text \<open>Reading a numeral back, the way a parser does: one digit at a time from the left.\<close>

definition read_dec :: "u8 list \<Rightarrow> nat" where
  "read_dec ds = foldl (\<lambda>v d. 10 * v + (unat d - 48)) 0 ds"

definition hex_digit_val :: "u8 \<Rightarrow> nat" where
  "hex_digit_val d = (if unat d \<le> 57 then unat d - 48 else unat d - 87)"

definition read_hex :: "u8 list \<Rightarrow> nat" where
  "read_hex ds = foldl (\<lambda>v d. 16 * v + hex_digit_val d) 0 ds"

text \<open>The numeral \<^verbatim>\<open>itoa\<close> is to write, and what it writes for the least \<^verbatim>\<open>long\<close>.\<close>

definition dec_numeral :: "u32 \<Rightarrow> u8 list" where
  "dec_numeral n = (if sint n = - 2147483648 then bytes_of ''-(''
     else (if sint n < 0 then [of_char CHR ''-''] else []) @ dec_digits (nat \<bar>sint n\<bar>))"

section \<open>Lemmas\<close>

lemma dec_digits_small: "n < 10 \<Longrightarrow> dec_digits n = [dec_digit n]"
  by (subst dec_digits.simps) simp

lemma dec_digits_large:
  "10 \<le> n \<Longrightarrow> dec_digits n = dec_digits (n div 10) @ [dec_digit (n mod 10)]"
  by (subst dec_digits.simps) simp

lemma hex_numeral_small: "n < 16 \<Longrightarrow> hex_numeral n = [hex_digits ! n]"
  by (subst hex_numeral.simps) simp

lemma hex_numeral_large:
  "16 \<le> n \<Longrightarrow> hex_numeral n = hex_numeral (n div 16) @ [hex_digits ! (n mod 16)]"
  by (subst hex_numeral.simps) simp

lemma length_dec_digits: "n < 10 ^ Suc k \<Longrightarrow> length (dec_digits n) \<le> Suc k"
proof (induction k arbitrary: n)
  case 0
  then show ?case by (simp add: dec_digits_small)
next
  case (Suc k)
  show ?case
  proof (cases "n < 10")
    case True
    then show ?thesis by (simp add: dec_digits_small)
  next
    case False
    from Suc.prems have "n div 10 < 10 ^ Suc k" by (simp add: less_mult_imp_div_less mult.commute)
    then have "length (dec_digits (n div 10)) \<le> Suc k" by (rule Suc.IH)
    with False show ?thesis by (simp add: dec_digits_large)
  qed
qed

lemma length_hex_numeral: "n < 16 ^ Suc k \<Longrightarrow> length (hex_numeral n) \<le> Suc k"
proof (induction k arbitrary: n)
  case 0
  then show ?case by (simp add: hex_numeral_small)
next
  case (Suc k)
  show ?case
  proof (cases "n < 16")
    case True
    then show ?thesis by (simp add: hex_numeral_small)
  next
    case False
    from Suc.prems have "n div 16 < 16 ^ Suc k" by (simp add: less_mult_imp_div_less mult.commute)
    then have "length (hex_numeral (n div 16)) \<le> Suc k" by (rule Suc.IH)
    with False show ?thesis by (simp add: hex_numeral_large)
  qed
qed

lemma dec_digits_nonempty: "Suc 0 \<le> length (dec_digits n)"
  by (subst dec_digits.simps) simp

lemma hex_numeral_nonempty: "Suc 0 \<le> length (hex_numeral n)"
  by (subst hex_numeral.simps) simp

lemma word_of_int_digit:
  assumes "0 \<le> n"
  shows "(word_of_int (n smod 10 + 48) :: u8) = dec_digit (nat n mod 10)"
proof -
  from assms obtain k where k: "n = int k" using zero_le_imp_eq_int by blast
  have "int k smod 10 + 48 = int (k mod 10 + 48)"
    by (simp add: signed_modulo_int_def zmod_int sgn_if)
  then show ?thesis by (simp only: dec_digit_def k nat_int of_int_of_nat_eq)
qed

lemma itoa_loop_dec_digits:
  "0 \<le> n \<Longrightarrow> length tmp + length (dec_digits (nat n)) \<le> 63
   \<Longrightarrow> itoa_loop n tmp = tmp @ rev (dec_digits (nat n))"
proof (induction n tmp rule: itoa_loop.induct)
  case (1 n tmp)
  let ?d = "word_of_int (n smod 10 + 48) :: u8"
  have d: "?d = dec_digit (nat n mod 10)"
    using "1.prems"(1) by (rule word_of_int_digit)
  have q: "n sdiv 10 = n div 10" and qn: "nat (n div 10) = nat n div 10"
    using "1.prems"(1) by (auto simp: signed_divide_int_def nat_div_distrib sgn_if)
  show ?case
  proof (cases "n < 10")
    case True
    with "1.prems"(1) have "\<not> 0 < n sdiv 10" by (simp add: q)
    moreover from True "1.prems"(1) have "dec_digits (nat n) = [dec_digit (nat n mod 10)]"
      by (simp add: dec_digits_small)
    ultimately show ?thesis by (subst itoa_loop.simps) (simp only: Let_def d if_False rev.simps append_Nil simp_thms)
  next
    case False
    then have dig: "dec_digits (nat n) = dec_digits (nat n div 10) @ [dec_digit (nat n mod 10)]"
      by (intro dec_digits_large) simp
    from False have pos: "0 < n sdiv 10" by (simp add: q)
    from "1.prems"(2) dig dec_digits_nonempty [of "nat n div 10"]
    have len: "length (tmp @ [?d]) < BUF_SIZE - 2" by (simp add: BUF_SIZE_def)
    have "itoa_loop (n sdiv 10) (tmp @ [?d]) = (tmp @ [?d]) @ rev (dec_digits (nat (n sdiv 10)))"
      by (rule "1.IH" [OF refl refl]) (use pos len "1.prems" dig in \<open>simp_all add: q qn\<close>)
    with pos len dig show ?thesis
      by (subst itoa_loop.simps) (simp add: Let_def d [simplified] q qn)
  qed
qed

lemma itox_loop_hex_numeral:
  "length tmp + length (hex_numeral (unat n)) \<le> 64
   \<Longrightarrow> itox_loop n tmp = tmp @ rev (hex_numeral (unat n))"
proof (induction n tmp rule: itox_loop.induct)
  case (1 n tmp)
  let ?d = "hex_digits ! unat (n mod 16)"
  have q: "unat (n div 16) = unat n div 16" and m: "unat (n mod 16) = unat n mod 16"
    by (simp_all add: unat_div unat_mod)
  show ?case
  proof (cases "unat n < 16")
    case True
    then have "\<not> 0 < n div 16" by (simp add: word_greater_zero_iff unat_eq_zero q flip: unat_eq_zero)
    with True show ?thesis
      by (subst itox_loop.simps) (simp add: Let_def m hex_numeral_small)
  next
    case False
    then have dig: "hex_numeral (unat n) = hex_numeral (unat n div 16) @ [hex_digits ! (unat n mod 16)]"
      by (intro hex_numeral_large) simp
    from False have pos: "0 < n div 16"
      by (simp add: word_less_nat_alt q)
    from "1.prems" dig hex_numeral_nonempty [of "unat n div 16"]
    have len: "length (tmp @ [?d]) < BUF_SIZE - 1" by (simp add: BUF_SIZE_def)
    have "itox_loop (n div 16) (tmp @ [?d]) = (tmp @ [?d]) @ rev (hex_numeral (unat (n div 16)))"
      by (rule "1.IH" [OF refl refl]) (use pos len "1.prems" dig in \<open>simp_all add: q\<close>)
    with pos len dig show ?thesis
      by (subst itox_loop.simps) (simp add: Let_def q m)
  qed
qed

lemma copy_reversed_eq: "copy_reversed tmp = rev tmp @ [0]"
  by (simp add: copy_reversed_def map_nth_rev)

lemma sint_u32_bounds: "- 2147483648 \<le> sint (n :: u32) \<and> sint n < 2147483648"
  using sint_range_size [of n] by (simp add: word_size)

lemma sint_uminus_u32:
  assumes "sint (n :: u32) \<noteq> - 2147483648"
  shows "sint (- n) = - sint n"
proof -
  have "sint (- n) = signed_take_bit 31 (- sint n)"
    by (simp add: sint_word_ariths)
  then show ?thesis
    using assms sint_u32_bounds [of n] by (simp add: signed_take_bit_int_eq_self_iff)
qed

lemma unat_dec_digit [simp]: "d < 10 \<Longrightarrow> unat (dec_digit d) = d + 48"
  by (simp add: dec_digit_def unsigned_of_nat take_bit_nat_eq_self del: of_nat_add)

lemma read_dec_dec_digits: "read_dec (dec_digits n) = n"
proof (induction n rule: dec_digits.induct)
  case (1 n)
  show ?case
  proof (cases "n < 10")
    case True
    then show ?thesis
      by (simp add: dec_digits_small read_dec_def)
  next
    case False
    with "1.IH" show ?thesis
      by (simp add: dec_digits_large read_dec_def)
  qed
qed

lemma hex_digit_val_hex_digits: "d < 16 \<Longrightarrow> hex_digit_val (hex_digits ! d) = d"
proof -
  have "\<forall>d \<in> set [0..<16]. hex_digit_val (hex_digits ! d) = d"
    by code_simp
  then show "d < 16 \<Longrightarrow> ?thesis" by simp
qed

lemma read_hex_hex_numeral: "read_hex (hex_numeral n) = n"
proof (induction n rule: hex_numeral.induct)
  case (1 n)
  show ?case
  proof (cases "n < 16")
    case True
    then show ?thesis
      by (simp add: hex_numeral_small read_hex_def hex_digit_val_hex_digits)
  next
    case False
    with "1.IH" show ?thesis
      by (simp add: hex_numeral_large read_hex_def hex_digit_val_hex_digits)
  qed
qed

lemma dec_digits_range: "d \<in> set (dec_digits n) \<Longrightarrow> 48 \<le> unat d \<and> unat d \<le> 57"
proof (induction n rule: dec_digits.induct)
  case (1 n)
  show ?case
  proof (cases "n < 10")
    case True
    with "1.prems" have "d = dec_digit n" by (simp add: dec_digits_small)
    with True show ?thesis by (simp add:)
  next
    case False
    with "1.prems" have "d \<in> set (dec_digits (n div 10)) \<or> d = dec_digit (n mod 10)"
      by (auto simp: dec_digits_large)
    with False "1.IH" show ?thesis by auto
  qed
qed

lemma itoa_eq:
  assumes "sint n \<noteq> - 2147483648"
  shows "itoa n = (if sint n < 0 then [of_char CHR ''-''] else [])
           @ dec_digits (nat \<bar>sint n\<bar>) @ [0]"
proof -
  let ?n = "if sint n < 0 then - n else n"
  have abs: "sint ?n = \<bar>sint n\<bar>" using assms by (auto simp: sint_uminus_u32)
  have "nat \<bar>sint n\<bar> < 10 ^ Suc 9" using sint_u32_bounds [of n] by auto
  then have "length (dec_digits (nat \<bar>sint n\<bar>)) \<le> Suc 9" by (rule length_dec_digits)
  then have "itoa_loop (sint ?n) [] = rev (dec_digits (nat \<bar>sint n\<bar>))"
    unfolding abs by (subst itoa_loop_dec_digits) simp_all
  then show ?thesis by (auto simp: itoa_def Let_def copy_reversed_eq)
qed

lemma itox_eq: "itox n = hex_numeral (unat n) @ [0]"
proof -
  have "unat n < 16 ^ Suc 7" using unat_u32_bound [of n] by simp
  then have "length (hex_numeral (unat n)) \<le> Suc 7" by (rule length_hex_numeral)
  then show ?thesis by (simp add: itox_def copy_reversed_eq itox_loop_hex_numeral)
qed

section \<open>Properties\<close>

text \<open>
  The least \<^verbatim>\<open>long\<close> has no negation: \<^verbatim>\<open>itoa\<close> divides the still negative number and stores the
  single character \<^verbatim>\<open>'0' - 8\<close>, an opening bracket, after the minus sign.
\<close>

lemma itoa_least_long: "itoa 0x80000000 = bytes_of ''-('' @ [0]"
  by code_simp

lemma itoa_numeral: "itoa n = dec_numeral n @ [0]"
proof (cases "sint n = - 2147483648")
  case True
  then have "sint n = sint (0x80000000 :: u32)" by simp
  then have "n = 0x80000000" by (simp only: signed_word_eqI)
  then show ?thesis by (simp add: itoa_least_long dec_numeral_def del: bytes_of_simps)
next
  case False
  then show ?thesis by (simp add: itoa_eq dec_numeral_def)
qed

lemma hex_numeral_nonzero: "0 \<notin> set (hex_numeral n)"
proof -
  have "\<forall>d \<in> set [0..<16]. hex_digits ! d \<noteq> 0" by code_simp
  then have d: "d < 16 \<Longrightarrow> hex_digits ! d \<noteq> 0" for d by simp
  show ?thesis
  proof (induction n rule: hex_numeral.induct)
    case (1 n)
    then show ?case
      using d [of n] d [of "n mod 16"] by (cases "n < 16") (auto simp: hex_numeral_small hex_numeral_large)
  qed
qed

lemma dec_numeral_nonzero: "0 \<notin> set (dec_numeral n)"
  using dec_digits_range [of 0] by (auto simp: dec_numeral_def)

text \<open>
  C38. \<^verbatim>\<open>itoa\<close> writes, for every \<^verbatim>\<open>long\<close> but the least one, an optional minus sign, at most ten
  decimal digits that read back as the absolute value, and a terminating NUL. For the least one it
  writes no number, but a minus sign and an opening bracket.
\<close>

theorem itoa_roundtrip:
  assumes "sint n \<noteq> - 2147483648"
  shows "(\<exists>ds. itoa n = (if sint n < 0 then [of_char CHR ''-''] else []) @ ds @ [0]
    \<and> int (read_dec ds) = \<bar>sint n\<bar>
    \<and> list_all (\<lambda>d. 48 \<le> unat d \<and> unat d \<le> 57) ds
    \<and> 1 \<le> length ds \<and> length ds \<le> 10) \<and> itoa 0x80000000 = bytes_of ''-('' @ [0]"
proof (intro exI conjI)
  have "nat \<bar>sint n\<bar> < 10 ^ Suc 9" using sint_u32_bounds [of n] by auto
  then show "length (dec_digits (nat \<bar>sint n\<bar>)) \<le> 10" using length_dec_digits by fastforce
qed (use assms in \<open>simp_all add: itoa_eq read_dec_dec_digits dec_digits_nonempty
       list_all_iff dec_digits_range itoa_least_long del: bytes_of_simps\<close>)

theorem itoa_roundtrip_witness:
  "sint (- 305 :: u32) \<noteq> - 2147483648 \<and>
   (\<exists>ds. itoa (- 305) = [of_char CHR ''-''] @ ds @ [0] \<and> int (read_dec ds) = 305)"
proof -
  have h: "sint (- 305 :: u32) \<noteq> - 2147483648" by simp
  from itoa_roundtrip [OF h] show ?thesis by auto
qed

text \<open>
  \<^verbatim>\<open>itox\<close> writes every \<^verbatim>\<open>unsigned long\<close> as one to eight hexadecimal digits that read back as the
  number, and a terminating NUL.
\<close>

lemma itox_roundtrip:
  "\<exists>ds. itox n = ds @ [0] \<and> read_hex ds = unat n \<and> 1 \<le> length ds \<and> length ds \<le> 8"
proof (intro exI conjI)
  have "unat n < 16 ^ Suc 7" using unat_u32_bound [of n] by simp
  then show "length (hex_numeral (unat n)) \<le> 8" using length_hex_numeral by fastforce
qed (simp_all add: itox_eq read_hex_hex_numeral hex_numeral_nonempty)

end
