(* ===== verification/Console.thy ===== *)
theory Console
  imports Keyboard Cstring Stdlib_Conv
begin

text \<open>
  The screen half of \<^verbatim>\<open>kernel/console_io.c\<close>: characters and hexadecimal numbers in the text-mode
  video memory at 0xb8000, the cursor, formatted output and line input.
\<close>

section \<open>Characters\<close>

definition SCREEN_START :: u32 where "SCREEN_START = 0xb8000"
definition COLUMNS :: u32 where "COLUMNS = 80"
definition ROWS :: u32 where "ROWS = 25"
definition ATTR :: u32 where "ATTR = 0x07"
definition ASCII_ESC :: u8 where "ASCII_ESC = 0x1b"
definition ASCII_BS :: u8 where "ASCII_BS = 0x08"
definition ASCII_HT :: u8 where "ASCII_HT = 0x09"

definition update_cursor :: "'a con_state_scheme \<Rightarrow> 'a con_state_scheme" where
  "update_cursor s =
     (let cursor_address = cursor_y s * 80 + cursor_x s;
          cursor_address_msb = ucast (drop_bit 8 cursor_address);
          cursor_address_lsb = ucast cursor_address;
          (if_bit, s) = kern_lock s;
          s = outb_p 0x0e 0x3d4 s;
          s = outb_p cursor_address_msb 0x3d5 s;
          s = outb_p 0x0f 0x3d4 s;
          s = outb_p cursor_address_lsb 0x3d5 s;
          s = kern_unlock if_bit s
      in if cursor_y s \<ge> ROWS then
           (let start_address = (cursor_y s - ROWS + 1) * 80;
                start_address_msb = ucast (drop_bit 8 start_address);
                start_address_lsb = ucast start_address;
                (if_bit, s) = kern_lock s;
                s = outb_p 0x0c 0x3d4 s;
                s = outb_p start_address_msb 0x3d5 s;
                s = outb_p 0x0d 0x3d4 s;
                s = outb_p start_address_lsb 0x3d5 s
            in kern_unlock if_bit s)
         else s)"

text \<open>The character is a signed \<^verbatim>\<open>char\<close>: its sign is extended before the attribute is put in.\<close>

definition cell_word :: "u8 \<Rightarrow> u16" where
  "cell_word c = ucast (push_bit 8 ATTR OR (scast c :: u32))"

definition put_char_pos :: "u8 \<Rightarrow> u8 \<Rightarrow> u8 \<Rightarrow> 'a con_state_scheme \<Rightarrow> 'a con_state_scheme" where
  "put_char_pos c x y s =
     (let pos = SCREEN_START + (ucast y * COLUMNS + ucast x) * 2
      in s\<lparr>mem := write16 pos (cell_word c) (mem s)\<rparr>)"

definition put_char :: "u8 \<Rightarrow> 'a con_state_scheme \<Rightarrow> 'a con_state_scheme" where
  "put_char c s =
     (let s =
        (if c = 0x0d then s\<lparr>cursor_x := 0\<rparr>
         else if c = 0x0a then (let s = s\<lparr>cursor_y := cursor_y s + 1\<rparr> in s\<lparr>cursor_x := 0\<rparr>)
         else
           (let s = put_char_pos c (ucast (cursor_x s)) (ucast (cursor_y s)) s
            in if cursor_x s < COLUMNS - 1 then s\<lparr>cursor_x := cursor_x s + 1\<rparr>
               else (let s = s\<lparr>cursor_x := 0\<rparr> in s\<lparr>cursor_y := cursor_y s + 1\<rparr>)))
      in update_cursor s)"

text \<open>
  \<^verbatim>\<open>put_str\<close> reads its string from memory while it writes the screen. \<open>put_bytes\<close> is the same for a
  string the screen does not overlap, given by its bytes (the literals of the kernel).
\<close>

partial_function (option) put_str :: "u32 \<Rightarrow> 'a con_state_scheme \<Rightarrow> 'a con_state_scheme option" where
  "put_str str s =
     (if mem s str \<noteq> 0 then (let s = put_char (mem s str) s in put_str (str + 1) s) else Some s)"

definition put_bytes :: "u8 list \<Rightarrow> 'a con_state_scheme \<Rightarrow> 'a con_state_scheme" where
  "put_bytes cs s = fold put_char cs s"

partial_function (option) put_str_pos ::
  "u32 \<Rightarrow> u8 \<Rightarrow> u8 \<Rightarrow> 'a con_state_scheme \<Rightarrow> 'a con_state_scheme option" where
  "put_str_pos str x y s =
     (if mem s str \<noteq> 0 then
        (if mem s str = 0x0d then put_str_pos (str + 1) 0 y s
         else if mem s str = 0x0a then put_str_pos (str + 1) x (y + 1) s
         else
           (let s = put_char_pos (mem s str) x y s
            in if ucast x < COLUMNS - 1 then put_str_pos (str + 1) (x + 1) y s
               else put_str_pos (str + 1) 0 (y + 1) s))
      else Some s)"

section \<open>Hexadecimal numbers\<close>

definition hex_char :: "u8 \<Rightarrow> u8" where
  "hex_char v = (if v < 10 then 0x30 + v else 0x41 + v - 10)"

fun dump_hex_loop :: "nat \<Rightarrow> u32 \<Rightarrow> u32 \<Rightarrow> u8 \<Rightarrow> 'a con_state_scheme \<Rightarrow> 'a con_state_scheme" where
  "dump_hex_loop 0 val dump_digit y s = s"
| "dump_hex_loop (Suc num_digits) val dump_digit y s =
     (let tmp_val = ucast (val AND 0x0000000f);
          s = put_char_pos (hex_char tmp_val) (ucast dump_digit) y s
      in dump_hex_loop num_digits (drop_bit 4 val) (dump_digit - 1) y s)"

definition dump_hex :: "u32 \<Rightarrow> u32 \<Rightarrow> 'a con_state_scheme \<Rightarrow> 'a con_state_scheme" where
  "dump_hex val num_digits s =
     (let new_x = cursor_x s + num_digits;
          dump_digit = new_x - 1;
          s = dump_hex_loop (unat num_digits) val dump_digit (ucast (cursor_y s)) s;
          s = s\<lparr>cursor_x := new_x\<rparr>
      in update_cursor s)"

definition dump_hex_pos :: "u32 \<Rightarrow> u32 \<Rightarrow> u8 \<Rightarrow> u8 \<Rightarrow> 'a con_state_scheme \<Rightarrow> 'a con_state_scheme" where
  "dump_hex_pos val num_digits x y s =
     (let new_x = ucast x + num_digits;
          dump_digit = new_x - 1
      in dump_hex_loop (unat num_digits) val dump_digit y s)"

section \<open>Formatted output\<close>

text \<open>What \<^verbatim>\<open>put_str\<close> prints of a buffer given by its bytes: those before the first NUL.\<close>

definition buf_text :: "u8 list \<Rightarrow> u8 list" where
  "buf_text buf = takeWhile (\<lambda>c. c \<noteq> 0) buf"

text \<open>
  The variable arguments by value, a string argument by its bytes. \<^const>\<open>None\<close>: an argument is
  missing or of the wrong kind, or the format ends in the middle of a directive (the loop then runs
  past its terminator).
\<close>

datatype parg = PInt u32 | PStr "u8 list"

function printk_loop ::
  "bool \<Rightarrow> u8 list \<Rightarrow> parg list \<Rightarrow> 'a con_state_scheme \<Rightarrow> 'a con_state_scheme option" where
  "printk_loop longflag [] ap s = Some s"
| "printk_loop longflag (c # fmt) ap s =
     (if c = of_char CHR ''%'' \<or> longflag then
        (case fmt of
           [] \<Rightarrow> None
         | d # rest \<Rightarrow>
             (if d \<in> {of_char CHR ''d'', of_char CHR ''c'', of_char CHR ''u''} then
                (case ap of
                   PInt ival # ap \<Rightarrow> printk_loop False rest ap (put_bytes (buf_text (itoa ival)) s)
                 | _ \<Rightarrow> None)
              else if d = of_char CHR ''x'' then
                (case ap of
                   PInt ival # ap \<Rightarrow> printk_loop False rest ap (put_bytes (buf_text (itox ival)) s)
                 | _ \<Rightarrow> None)
              else if d = of_char CHR ''s'' then
                (case ap of
                   PStr sval # ap \<Rightarrow> printk_loop False rest ap (put_bytes sval s)
                 | _ \<Rightarrow> None)
              else if d = of_char CHR ''l'' then printk_loop True fmt ap s
              else printk_loop False rest ap s))
      else printk_loop False fmt ap (put_char c s))"
  by pat_completeness auto
termination by (relation "measure (\<lambda>(_, fmt, _, _). length fmt)") auto

definition printk :: "string \<Rightarrow> parg list \<Rightarrow> 'a con_state_scheme \<Rightarrow> 'a con_state_scheme option" where
  "printk fmt ap s = printk_loop False (bytes_of fmt) ap s"

section \<open>Line input\<close>

definition keymap :: "u8 list" where
  "keymap =
     [0x00, ASCII_ESC] @ bytes_of ''1234567890-^'' @ [ASCII_BS, ASCII_HT]
     @ bytes_of ''qwertyuiop@['' @ [0x0a, 0x00] @ bytes_of ''asdfghjkl;:'' @ [0x00, 0x00]
     @ bytes_of '']zxcvbnm,./'' @ [0x00] @ bytes_of ''*'' @ [0x00] @ bytes_of '' ''
     @ [0x00, 0x00, 0x00, 0x00, 0x00, 0x00, 0x00, 0x00, 0x00, 0x00, 0x00, 0x00, 0x00]
     @ bytes_of ''789-456+1230.''
     @ replicate 4 0x00 @ replicate 24 0x00
     @ [0x00, 0x00, 0x00] @ bytes_of ''_'' @ replicate 4 0x00
     @ replicate 5 0x00 @ [0x5c, 0x00, 0x00]"

definition get_keycode :: "u8 \<Rightarrow> u8" where
  "get_keycode keydata = keydata AND NOT IOADR_KBC_DATA_BIT_BRAKE"

text \<open>
  The readers that loop over \<^verbatim>\<open>get_keydata\<close> take the bytes its successive calls deliver, and return
  the bytes they leave; \<^const>\<open>None\<close> is a reader still waiting after the last of them.
\<close>

fun get_keycode_pressed :: "u8 list \<Rightarrow> (u8 \<times> u8 list) option" where
  "get_keycode_pressed [] = None"
| "get_keycode_pressed (keycode # ks) =
     (if keycode AND IOADR_KBC_DATA_BIT_BRAKE \<noteq> 0 then get_keycode_pressed ks
      else Some (keycode AND NOT IOADR_KBC_DATA_BIT_BRAKE, ks))"

fun get_keycode_released :: "u8 list \<Rightarrow> (u8 \<times> u8 list) option" where
  "get_keycode_released [] = None"
| "get_keycode_released (keycode # ks) =
     (if keycode AND IOADR_KBC_DATA_BIT_BRAKE = 0 then get_keycode_released ks
      else Some (keycode AND NOT IOADR_KBC_DATA_BIT_BRAKE, ks))"

definition get_char :: "u8 list \<Rightarrow> (u8 \<times> u8 list) option" where
  "get_char ks = map_option (\<lambda>(code, ks). (keymap ! unat code, ks)) (get_keycode_pressed ks)"

lemma get_keycode_pressed_shorter: "get_keycode_pressed ks = Some (c, ks') \<Longrightarrow> length ks' < length ks"
  by (induction ks) (auto split: if_splits)

function get_line_loop ::
  "u32 \<Rightarrow> u32 \<Rightarrow> u32 \<Rightarrow> u8 list \<Rightarrow> 'a con_state_scheme \<Rightarrow> (u32 \<times> u8 list \<times> 'a con_state_scheme) option" where
  "get_line_loop buf buf_size i ks s =
     (if i < buf_size - 1 then
        (case get_char ks of
           None \<Rightarrow> None
         | Some (c, ks') \<Rightarrow>
             (let s = s\<lparr>mem := (mem s)(buf + i := c)\<rparr>
              in if mem s (buf + i) = ASCII_BS then
                   (if i = 0 then get_line_loop buf buf_size i ks' s
                    else
                      (let s = s\<lparr>cursor_x := cursor_x s - 1\<rparr>;
                           s = update_cursor s;
                           s = put_char_pos 0x20 (ucast (cursor_x s)) (ucast (cursor_y s)) s
                       in get_line_loop buf buf_size (i - 1) ks' s))
                 else
                   (let s = put_char (mem s (buf + i)) s
                    in if mem s (buf + i) = 0x0a
                       then (let s = put_char 0x0d s
                             in Some (i, ks', s\<lparr>mem := (mem s)(buf + i := 0)\<rparr>))
                       else get_line_loop buf buf_size (i + 1) ks' s)))
      else Some (i, ks, s\<lparr>mem := (mem s)(buf + i := 0)\<rparr>))"
  by pat_completeness auto
termination
  by (relation "measure (\<lambda>(_, _, _, ks, _). length ks)")
    (auto simp: get_char_def dest: get_keycode_pressed_shorter)

definition get_line ::
  "u32 \<Rightarrow> u32 \<Rightarrow> u8 list \<Rightarrow> 'a con_state_scheme \<Rightarrow> (u32 \<times> u8 list \<times> 'a con_state_scheme) option" where
  "get_line buf buf_size ks s = get_line_loop buf buf_size 0 ks s"

text \<open>
  The same call on the real key buffer. A read that finds the buffer empty blocks the caller in the middle
  of the line: the result is then the \<^verbatim>\<open>if_bit\<close> it resumes with and the index at which it goes on
  reading when it is switched to again (\<open>get_line_resume\<close>). \<^const>\<open>None\<close>: no current task to block.
\<close>

datatype line_result = Line u32 | Waiting u8 u32

partial_function (option) get_line_run ::
  "u32 \<Rightarrow> u32 \<Rightarrow> u32 \<Rightarrow> 'a con_state_scheme \<Rightarrow> (line_result \<times> 'a con_state_scheme) option" where
  "get_line_run buf buf_size i s =
     (if i < buf_size - 1 then
        (case get_keydata_step s of
           None \<Rightarrow> None
         | Some (r, s) \<Rightarrow>
             (case r of
                Blocked if_bit \<Rightarrow> Some (Waiting if_bit i, s)
              | Got keycode \<Rightarrow>
                  if keycode AND IOADR_KBC_DATA_BIT_BRAKE \<noteq> 0 then get_line_run buf buf_size i s
                  else
                    (let c = keymap ! unat (keycode AND NOT IOADR_KBC_DATA_BIT_BRAKE);
                         s = s\<lparr>mem := (mem s)(buf + i := c)\<rparr>
                     in if mem s (buf + i) = ASCII_BS then
                          (if i = 0 then get_line_run buf buf_size i s
                           else
                             (let s = s\<lparr>cursor_x := cursor_x s - 1\<rparr>;
                                  s = update_cursor s;
                                  s = put_char_pos 0x20 (ucast (cursor_x s)) (ucast (cursor_y s)) s
                              in get_line_run buf buf_size (i - 1) s))
                        else
                          (let s = put_char (mem s (buf + i)) s
                           in if mem s (buf + i) = 0x0a
                              then (let s = put_char 0x0d s
                                    in Some (Line i, s\<lparr>mem := (mem s)(buf + i := 0)\<rparr>))
                              else get_line_run buf buf_size (i + 1) s))))
      else Some (Line i, s\<lparr>mem := (mem s)(buf + i := 0)\<rparr>))"

definition get_line_resume ::
  "u32 \<Rightarrow> u32 \<Rightarrow> u8 \<Rightarrow> u32 \<Rightarrow> 'a con_state_scheme \<Rightarrow> (line_result \<times> 'a con_state_scheme) option" where
  "get_line_resume buf buf_size if_bit i s = get_line_run buf buf_size i (wakeup_resume if_bit s)"

section \<open>The console does not touch the rest of the kernel\<close>

lemma lock_con_more: "con_state.more (snd (kern_lock s)) = con_state.more s"
  by (simp add: kern_lock_def Let_def cli_def)

lemma update_cursor_more: "con_state.more (update_cursor s) = con_state.more s"
  by (auto simp: update_cursor_def Let_def split_beta outb_p_def kern_unlock_def sti_def lock_con_more)

lemma put_char_more: "con_state.more (put_char c s) = con_state.more s"
  by (simp add: put_char_def update_cursor_more Let_def put_char_pos_def)

lemma put_bytes_more: "con_state.more (put_bytes cs s) = con_state.more s"
  by (induction cs arbitrary: s) (simp_all add: put_bytes_def put_char_more)

end
