(* ===== verification/Console_Props.thy ===== *)
theory Console_Props
  imports Console
begin

text \<open>
  What the screen output and the line input of \<open>Console\<close> do: the cursor stays in its columns, a
  printed text fills consecutive cells of the video memory and nothing else, hexadecimal dumps show
  the digits of the number, and an edited line ends up in the caller's buffer within its bounds.
\<close>

section \<open>Cells of the screen\<close>

text \<open>The two bytes of cell number \<open>k\<close>, counted from the top left corner.\<close>

definition cell_addr :: "nat \<Rightarrow> u32" where
  "cell_addr k = SCREEN_START + of_nat (2 * k)"

definition cell :: "'a con_state_scheme \<Rightarrow> nat \<Rightarrow> u16" where
  "cell s k = read16 (mem s) (cell_addr k)"

text \<open>The cursor as a cell number, and the cells a character position can address (rows 0 to 255).\<close>

definition cursor :: "'a con_state_scheme \<Rightarrow> nat" where
  "cursor s = unat (cursor_y s) * 80 + unat (cursor_x s)"

definition SCREEN_CELLS :: nat where "SCREEN_CELLS = 80 * 256"

lemma of_nat_u32_iff: "i < 2 ^ 32 \<Longrightarrow> j < 2 ^ 32 \<Longrightarrow> (of_nat i :: u32) = of_nat j \<longleftrightarrow> i = j"
  by (simp add: word_unat_eq_iff unsigned_of_nat take_bit_nat_eq_self)

lemma read16_write16_other:
  "q \<noteq> p \<Longrightarrow> q \<noteq> p + 1 \<Longrightarrow> q + 1 \<noteq> p \<Longrightarrow> q + 1 \<noteq> p + 1 \<Longrightarrow> read16 (write16 p v m) q = read16 m q"
  unfolding read16_def write16_def by (simp only: fun_upd_apply if_False)

lemma cells_apart:
  assumes "i < 2 ^ 30" and "j < 2 ^ 30" and "i \<noteq> j"
  shows "read16 (write16 (cell_addr i) v m) (cell_addr j) = read16 m (cell_addr j)"
proof -
  have "(of_nat (2 * j + b) :: u32) \<noteq> of_nat (2 * i + a)" if "a < 2" "b < 2" for a b
  proof -
    have "2 * j + b \<noteq> 2 * i + a" using assms(3) that by presburger
    then show ?thesis using assms(1,2) that by (subst of_nat_u32_iff) simp_all
  qed
  from this [of 0 0] this [of 0 1] this [of 1 0] this [of 1 1]
  show ?thesis by (intro read16_write16_other) (simp_all add: cell_addr_def add.assoc add.commute)
qed

lemma cell_write:
  assumes "i < 2 ^ 30" and "j < 2 ^ 30"
  shows "read16 (write16 (cell_addr i) v m) (cell_addr j) = (if i = j then v else read16 m (cell_addr j))"
  using assms cells_apart by auto

lemma write16_outside: "q \<noteq> p \<Longrightarrow> q \<noteq> p + 1 \<Longrightarrow> write16 p v m q = m q"
  by (simp add: write16_def)

section \<open>Printing a character\<close>

lemma lock_con_mem [simp]:
  "mem (snd (kern_lock s)) = mem s" "cursor_x (snd (kern_lock s)) = cursor_x s"
  "cursor_y (snd (kern_lock s)) = cursor_y s" "keycode_queue (snd (kern_lock s)) = keycode_queue s"
  by (simp_all add: kern_lock_def Let_def cli_def)

lemma unlock_con_mem [simp]: "mem (kern_unlock b s) = mem s"
  by (simp add: kern_unlock_def sti_def)

lemma outb_con [simp]:
  "mem (outb_p v p s) = mem s" "cursor_x (outb_p v p s) = cursor_x s"
  "cursor_y (outb_p v p s) = cursor_y s"
  by (simp_all add: outb_p_def)

lemma update_cursor_frame [simp]:
  "mem (update_cursor s) = mem s" "cursor_x (update_cursor s) = cursor_x s"
  "cursor_y (update_cursor s) = cursor_y s"
  by (simp_all add: update_cursor_def Let_def split_beta)

lemma cell_update_cursor [simp]: "cell (update_cursor s) k = cell s k"
  by (simp add: cell_def)

text \<open>The address of a position.\<close>

lemma pos_cell:
  "SCREEN_START + (ucast (y :: u8) * COLUMNS + ucast (x :: u8)) * 2 = cell_addr (unat y * 80 + unat x)"
  by (simp add: cell_addr_def COLUMNS_def algebra_simps)

lemma put_char_pos_mem:
  "mem (put_char_pos c x y s) = write16 (cell_addr (unat y * 80 + unat x)) (cell_word c) (mem s)"
  by (simp only: put_char_pos_def pos_cell Let_def) simp

lemma put_char_pos_cursor [simp]:
  "cursor_x (put_char_pos c x y s) = cursor_x s" "cursor_y (put_char_pos c x y s) = cursor_y s"
  by (simp_all add: put_char_pos_def Let_def)

lemma unat_ucast_u8: "unat x < 256 \<Longrightarrow> unat (ucast (x :: u32) :: u8) = unat x"
  by (simp add: unsigned_ucast_eq take_bit_nat_eq_self)

lemma cursor_small:
  assumes "cursor_x s < 80" and "cursor s < SCREEN_CELLS"
  shows "unat (cursor_x s) < 80" "unat (cursor_y s) < 256"
  using assms by (auto simp: word_less_nat_alt cursor_def SCREEN_CELLS_def)

lemma put_char_print:
  assumes "c \<noteq> 0x0d" and "c \<noteq> 0x0a" and x: "cursor_x s < 80" and l: "cursor s < SCREEN_CELLS"
  shows "cursor_x (put_char c s) < 80 \<and> cursor (put_char c s) = Suc (cursor s)
    \<and> mem (put_char c s) = write16 (cell_addr (cursor s)) (cell_word c) (mem s)"
proof -
  note S = cursor_small [OF x l]
  have m: "mem (put_char_pos c (ucast (cursor_x s)) (ucast (cursor_y s)) s)
      = write16 (cell_addr (cursor s)) (cell_word c) (mem s)"
    using S by (simp add: put_char_pos_mem unat_ucast_u8 cursor_def)
  show ?thesis
  proof (cases "cursor_x s < 79")
    case True
    then have "unat (cursor_x s + 1) = Suc (unat (cursor_x s))" "cursor_x s + 1 < 80"
      by (simp_all add: word_less_nat_alt unat_word_ariths)
    with True assms(1,2) m show ?thesis by (simp add: put_char_def COLUMNS_def cursor_def)
  next
    case False
    with S have "unat (cursor_x s) = 79" by (simp add: word_less_nat_alt)
    moreover have "unat (cursor_y s + 1) = Suc (unat (cursor_y s))"
      using S by (simp add: unat_word_ariths)
    ultimately show ?thesis using False assms(1,2) m
      by (simp add: put_char_def COLUMNS_def cursor_def Let_def)
  qed
qed

lemma put_char_column:
  assumes "cursor_x s < 80"
  shows "cursor_x (put_char c s) < 80"
proof -
  have "cursor_x s < 79 \<Longrightarrow> cursor_x s + 1 < 80"
    by (simp add: word_less_nat_alt unat_word_ariths)
  with assms show ?thesis by (simp add: put_char_def COLUMNS_def Let_def)
qed

lemma put_bytes_simps [simp]:
  "put_bytes [] s = s" "put_bytes (c # cs) s = put_bytes cs (put_char c s)"
  by (simp_all add: put_bytes_def)

lemma put_bytes_column: "cursor_x s < 80 \<Longrightarrow> cursor_x (put_bytes cs s) < 80"
  by (induction cs arbitrary: s) (simp_all add: put_char_column)

text \<open>A text without line breaks fills consecutive cells.\<close>

lemma put_bytes_cells:
  assumes "0x0d \<notin> set cs" and "0x0a \<notin> set cs" and "cursor_x s < 80"
    and "cursor s + length cs \<le> SCREEN_CELLS"
  shows "cursor (put_bytes cs s) = cursor s + length cs
    \<and> (\<forall>k < SCREEN_CELLS. cell (put_bytes cs s) k =
        (if cursor s \<le> k \<and> k < cursor s + length cs then cell_word (cs ! (k - cursor s)) else cell s k))"
  using assms
proof (induction cs arbitrary: s)
  case (Cons c cs)
  from Cons.prems have P: "cursor_x (put_char c s) < 80" "cursor (put_char c s) = Suc (cursor s)"
    "mem (put_char c s) = write16 (cell_addr (cursor s)) (cell_word c) (mem s)"
    using put_char_print [of c s] by auto
  have c1: "cell (put_char c s) k = (if k = cursor s then cell_word c else cell s k)"
    if "k < SCREEN_CELLS" for k
    using that Cons.prems(4) by (simp add: cell_def P(3) cell_write SCREEN_CELLS_def)
  from Cons.IH [of "put_char c s"] Cons.prems P(1,2) show ?case
    by (auto simp: c1 nth_Cons' le_Suc_eq)
qed auto

text \<open>
  Nothing but the screen is written: the cells of 256 rows, and 176 more for column numbers from 80
  to 255 in the last row.
\<close>

definition screen_area :: "u32 set" where
  "screen_area = (\<lambda>i. SCREEN_START + of_nat i) ` {..<41312}"

lemma cell_in_area: "k < 20656 \<Longrightarrow> cell_addr k \<in> screen_area \<and> cell_addr k + 1 \<in> screen_area"
  by (auto simp: screen_area_def cell_addr_def image_iff add.assoc
      intro: bexI [of _ "2 * k"] bexI [of _ "Suc (2 * k)"])

lemma put_char_pos_outside:
  assumes "q \<notin> screen_area"
  shows "mem (put_char_pos c x y s) q = mem s q"
proof -
  have "unat y * 80 + unat x < 20656" using unat_less_256 [of x] unat_less_256 [of y] by linarith
  from cell_in_area [OF this] assms show ?thesis
    by (simp only: put_char_pos_mem) (rule write16_outside; blast)
qed

lemma put_char_outside: "q \<notin> screen_area \<Longrightarrow> mem (put_char c s) q = mem s q"
  by (simp add: put_char_def Let_def put_char_pos_outside)

lemma put_bytes_outside: "q \<notin> screen_area \<Longrightarrow> mem (put_bytes cs s) q = mem s q"
  by (induction cs arbitrary: s) (simp_all add: put_char_outside)

text \<open>\<^verbatim>\<open>put_str\<close> on a string off the screen.\<close>

lemma put_str_bytes:
  "cstr (mem s) p xs \<Longrightarrow> \<forall>i \<le> length xs. p + of_nat i \<notin> screen_area \<Longrightarrow>
   put_str p s = Some (put_bytes xs s)"
proof (induction xs arbitrary: p s)
  case Nil
  then show ?case by (subst put_str.simps) (simp add: cstr_Nil)
next
  case (Cons x xs)
  have off: "\<forall>i \<le> length xs. p + 1 + of_nat i \<notin> screen_area"
  proof (intro allI impI)
    fix i assume "i \<le> length xs"
    with Cons.prems(2) have "p + of_nat (Suc i) \<notin> screen_area" by auto
    then show "p + 1 + of_nat i \<notin> screen_area" by (simp add: add.assoc)
  qed
  have "cstr (mem s) (p + 1) xs" using Cons.prems(1) by (simp add: cstr_Cons)
  then have "cstr (mem (put_char x s)) (p + 1) xs"
    using off by (simp add: cstr_def block_at_def put_char_outside)
  with Cons.IH [OF this off] Cons.prems(1) show ?case
    by (subst put_str.simps) (simp add: cstr_Cons Let_def)
qed

section \<open>Hexadecimal dumps\<close>

text \<open>Digit \<open>i\<close> of a number, from the right.\<close>

definition hex_digit_at :: "u32 \<Rightarrow> nat \<Rightarrow> u8" where
  "hex_digit_at val i = hex_char (ucast (drop_bit (4 * i) val AND 0x0000000f))"

lemma hex_digit_at_shift: "hex_digit_at (drop_bit 4 val) i = hex_digit_at val (Suc i)"
  by (simp add: hex_digit_at_def drop_bit_drop_bit add.commute)

lemma dump_hex_loop_cursor [simp]:
  "cursor_x (dump_hex_loop n val d y s) = cursor_x s" "cursor_y (dump_hex_loop n val d y s) = cursor_y s"
  by (induction n arbitrary: val d s) (simp_all add: Let_def)

lemma ucast_of_nat_u8: "m < 2 ^ 32 \<Longrightarrow> (ucast (of_nat m :: u32) :: u8) = of_nat m"
  by (simp add: unsigned_of_nat take_bit_nat_eq_self)

lemma unat_of_nat_u8: "m < 256 \<Longrightarrow> unat (of_nat m :: u8) = m"
  by (simp add: unsigned_of_nat take_bit_nat_eq_self)

lemma dump_hex_loop_cells:
  assumes "x + n \<le> 256" and "k < SCREEN_CELLS"
  shows "cell (dump_hex_loop n val (of_nat (x + n) - 1) y s) k =
    (if unat y * 80 + x \<le> k \<and> k < unat y * 80 + x + n
     then cell_word (hex_digit_at val (unat y * 80 + x + n - 1 - k)) else cell s k)"
  using assms(1)
proof (induction n arbitrary: val s)
  case (Suc n)
  let ?s = "put_char_pos (hex_digit_at val 0) (of_nat (x + n)) y s"
  have d: "(of_nat (x + Suc n) - 1 :: u32) = of_nat (x + n)" by simp
  have step: "dump_hex_loop (Suc n) val (of_nat (x + Suc n) - 1) y s
      = dump_hex_loop n (drop_bit 4 val) (of_nat (x + n) - 1) y ?s"
    unfolding d dump_hex_loop.simps Let_def
    using ucast_of_nat_u8 [of "x + n"] Suc.prems by (simp add: hex_digit_at_def del: of_nat_add)
  have "unat (of_nat (x + n) :: u8) = x + n"
    using Suc.prems by (intro unat_of_nat_u8) simp
  moreover have "unat y * 80 + (x + n) < 80 * 256 + 256"
    using Suc.prems unat_less_256 [of y] by linarith
  then have "unat y * 80 + (x + n) < 2 ^ 30" by simp
  moreover have "k < 2 ^ 30" using assms(2) by (simp add: SCREEN_CELLS_def)
  ultimately have m: "cell ?s k = (if k = unat y * 80 + (x + n) then cell_word (hex_digit_at val 0) else cell s k)"
    by (simp add: cell_def put_char_pos_mem cell_write SCREEN_CELLS_def)
  have IH: "cell (dump_hex_loop n (drop_bit 4 val) (of_nat (x + n) - 1) y ?s) k =
      (if unat y * 80 + x \<le> k \<and> k < unat y * 80 + x + n
       then cell_word (hex_digit_at (drop_bit 4 val) (unat y * 80 + x + n - 1 - k)) else cell ?s k)"
    using Suc.IH [of "drop_bit 4 val" ?s] Suc.prems by simp
  show ?case
  proof (cases "unat y * 80 + x \<le> k \<and> k < unat y * 80 + x + n")
    case True
    then have "Suc (unat y * 80 + x + n - 1 - k) = unat y * 80 + x + Suc n - 1 - k" by linarith
    with True show ?thesis unfolding step IH hex_digit_at_shift by simp
  next
    case False
    then show ?thesis unfolding step IH m by auto
  qed
qed auto

section \<open>Line input\<close>

text \<open>
  The line a sequence of key bytes edits, given the characters already in it: printable keys are
  appended, backspace takes the last one back, the line ends at a newline or when it has \<open>lim\<close>
  characters. The key bytes left over are returned too.
\<close>

function edit_line :: "nat \<Rightarrow> u8 list \<Rightarrow> u8 list \<Rightarrow> (u8 list \<times> u8 list) option" where
  "edit_line lim line ks =
     (if length line < lim then
        (case get_char ks of
           None \<Rightarrow> None
         | Some (c, ks') \<Rightarrow>
             (if c = ASCII_BS then edit_line lim (butlast line) ks'
              else if c = 0x0a then Some (line, ks')
              else edit_line lim (line @ [c]) ks'))
      else Some (line, ks))"
  by pat_completeness auto
termination
  by (relation "measure (\<lambda>(_, _, ks). length ks)")
    (auto simp: get_char_def dest: get_keycode_pressed_shorter)

declare edit_line.simps [simp del] get_line_loop.simps [simp del]

lemma get_char_shorter: "get_char ks = Some (c, ks') \<Longrightarrow> length ks' < length ks"
  by (auto simp: get_char_def dest: get_keycode_pressed_shorter)

lemma edit_line_bound:
  "length line \<le> lim \<Longrightarrow> edit_line lim line ks = Some (line', ks') \<Longrightarrow> length line' \<le> lim"
proof (induction "length ks" arbitrary: line ks rule: less_induct)
  case less
  show ?case
  proof (cases "length line < lim")
    case False
    with less.prems show ?thesis by (simp add: edit_line.simps [of lim line])
  next
    case True
    with less.prems(2) obtain c ks1 where g: "get_char ks = Some (c, ks1)"
      by (auto simp: edit_line.simps [of lim line] split: option.splits)
    note IH = less.hyps [OF get_char_shorter [OF g]]
    from True g less.prems(2) IH [of "butlast line"] IH [of "line @ [c]"] show ?thesis
      by (auto simp: edit_line.simps [of lim line ks] split: if_splits)
  qed
qed

text \<open>The buffer, off the screen.\<close>

definition buffer_ok :: "u32 \<Rightarrow> u32 \<Rightarrow> bool" where
  "buffer_ok buf n \<longleftrightarrow> 0 < n \<and> (\<forall>i < unat n. buf + of_nat i \<notin> screen_area)"

definition buffer_area :: "u32 \<Rightarrow> u32 \<Rightarrow> u32 set" where
  "buffer_area buf n = (\<lambda>i. buf + of_nat i) ` {..<unat n}"

lemma buffer_inj:
  assumes "i < unat (n :: u32)" and "j < unat n"
  shows "(buf :: u32) + of_nat i = buf + of_nat j \<longleftrightarrow> i = j"
proof -
  have "i < 2 ^ 32" "j < 2 ^ 32" using assms unat_u32_bound [of n] by simp_all
  then show ?thesis by (simp add: of_nat_u32_iff)
qed

lemma block_at_upd:
  assumes "block_at m buf xs" and "length xs < unat (n :: u32)"
  shows "block_at (m(buf + of_nat (length xs) := c)) buf (xs @ [c])"
proof -
  have "buf + of_nat i \<noteq> buf + of_nat (length xs)" if "i < length xs" for i
    using that assms(2) buffer_inj [of i n "length xs"] by simp
  with assms(1) show ?thesis by (auto simp: block_at_def nth_append less_Suc_eq)
qed

lemma block_at_prefix: "block_at m p (xs @ ys) \<Longrightarrow> block_at m p xs"
  by (force simp: block_at_def nth_append)

lemma append_butlast_last_cons: "xs \<noteq> [] \<Longrightarrow> butlast xs @ [last xs, c] = xs @ [c]"
  by (induction xs) auto

lemma block_at_cong:
  "block_at m p xs \<Longrightarrow> \<forall>i < length xs. m' (p + of_nat i) = m (p + of_nat i) \<Longrightarrow> block_at m' p xs"
  by (simp add: block_at_def)

lemma edit_line_key:
  "length line < lim \<Longrightarrow> get_char ks = Some (c, ks') \<Longrightarrow>
   edit_line lim line ks = (if c = ASCII_BS then edit_line lim (butlast line) ks'
     else if c = 0x0a then Some (line, ks') else edit_line lim (line @ [c]) ks')"
  by (simp add: edit_line.simps [of lim line])

text \<open>One key in the buffer: backspace on an empty line, backspace, newline, and any other character.\<close>

definition rub_out :: "'a con_state_scheme \<Rightarrow> 'a con_state_scheme" where
  "rub_out s = (let s = s\<lparr>cursor_x := cursor_x s - 1\<rparr>; s = update_cursor s
     in put_char_pos 0x20 (ucast (cursor_x s)) (ucast (cursor_y s)) s)"

lemma get_line_key:
  assumes "i < n - 1" and "get_char ks = Some (c, ks')" and "s1 = s\<lparr>mem := (mem s)(buf + i := c)\<rparr>"
  shows "c = ASCII_BS \<Longrightarrow> i = 0 \<Longrightarrow> get_line_loop buf n i ks s = get_line_loop buf n i ks' s1"
    and "c = ASCII_BS \<Longrightarrow> i \<noteq> 0 \<Longrightarrow> get_line_loop buf n i ks s = get_line_loop buf n (i - 1) ks' (rub_out s1)"
    and "c \<noteq> ASCII_BS \<Longrightarrow> get_line_loop buf n i ks s =
      (if mem (put_char c s1) (buf + i) = 0x0a
       then Some (i, ks', (put_char 0x0d (put_char c s1))
         \<lparr>mem := (mem (put_char 0x0d (put_char c s1)))(buf + i := 0)\<rparr>)
       else get_line_loop buf n (i + 1) ks' (put_char c s1))"
  unfolding get_line_loop.simps [of buf n i ks s]
  using assms by (simp_all add: rub_out_def Let_def)

lemma rub_out_outside: "q \<notin> screen_area \<Longrightarrow> mem (rub_out s) q = mem s q"
  by (simp add: rub_out_def Let_def put_char_pos_outside)

text \<open>
  What a call of \<^verbatim>\<open>get_line\<close> that ends leaves: the line and its terminator in the buffer, no other
  byte off the screen changed.
\<close>

definition line_stored :: "u32 \<Rightarrow> u32 \<Rightarrow> memory \<Rightarrow> u8 list \<Rightarrow> 'a con_state_scheme \<Rightarrow> bool" where
  "line_stored buf n m line s \<longleftrightarrow> block_at (mem s) buf (line @ [0])
     \<and> (\<forall>q. q \<notin> screen_area \<longrightarrow> q \<notin> buffer_area buf n \<longrightarrow> mem s q = m q)"

text \<open>
  What holds while the line is typed: it is in the buffer, no other byte off the screen has changed.
  Storing a character extends it, output does not disturb it.
\<close>

definition line_typed :: "u32 \<Rightarrow> u32 \<Rightarrow> memory \<Rightarrow> u8 list \<Rightarrow> 'a con_state_scheme \<Rightarrow> bool" where
  "line_typed buf n m line s \<longleftrightarrow> length line < unat n \<and> block_at (mem s) buf line
     \<and> (\<forall>q. q \<notin> screen_area \<longrightarrow> q \<notin> buffer_area buf n \<longrightarrow> mem s q = m q)"

lemma line_end:
  assumes "line_typed buf n m line s"
  shows "line_stored buf n m line (s\<lparr>mem := (mem s)(buf + of_nat (length line) := 0)\<rparr>)"
  using assms block_at_upd [of "mem s" buf line n 0] by (auto simp: line_typed_def line_stored_def buffer_area_def)

lemma line_typed_char:
  assumes "line_typed buf n m line s" and "length line < unat n - 1"
  shows "line_typed buf n m (line @ [c]) (s\<lparr>mem := (mem s)(buf + of_nat (length line) := c)\<rparr>)"
  using assms block_at_upd [of "mem s" buf line n c] by (auto simp: line_typed_def buffer_area_def)

lemma line_typed_prefix: "line_typed buf n m (xs @ ys) s \<Longrightarrow> line_typed buf n m xs s"
  using block_at_prefix by (auto simp: line_typed_def)

lemma line_typed_last: "line_typed buf n m (line @ [c]) s \<Longrightarrow> mem s (buf + of_nat (length line)) = c"
  by (simp add: line_typed_def block_at_def nth_append)

lemma line_typed_output:
  assumes "buffer_ok buf n" and "line_typed buf n m line s" and "\<And>q. q \<notin> screen_area \<Longrightarrow> mem t q = mem s q"
  shows "line_typed buf n m line t"
proof -
  have "block_at (mem t) buf line"
    by (rule block_at_cong [of "mem s"]) (use assms in \<open>auto simp: line_typed_def buffer_ok_def\<close>)
  with assms(2,3) show ?thesis by (simp add: line_typed_def)
qed

lemmas line_typed_outputs = line_typed_output [OF _ _ rub_out_outside] line_typed_output [OF _ _ put_char_outside]

lemma room_left:
  assumes "length line < unat (n :: u32)"
  shows "of_nat (length line) < n - 1 \<longleftrightarrow> length line < unat n - 1"
proof -
  have "1 \<le> n" using assms by (simp add: word_le_nat_alt)
  then have "unat (n - 1) = unat n - 1" by (simp add: unat_sub)
  moreover have "unat (of_nat (length line) :: u32) = length line"
    using assms unat_u32_bound [of n] by (simp add: unsigned_of_nat take_bit_nat_eq_self)
  ultimately show ?thesis by (simp add: word_less_nat_alt)
qed

lemma one_less:
  assumes "line \<noteq> []" and "length line < unat (n :: u32)"
  shows "(of_nat (length line) :: u32) \<noteq> 0" "(of_nat (length line) :: u32) - 1 = of_nat (length (butlast line))"
  using assms unat_u32_bound [of n] of_nat_u32_iff [of "length line" 0] by (auto simp: of_nat_diff Suc_le_eq)

lemma get_line_loop_spec:
  assumes b: "buffer_ok buf n"
  shows "line_typed buf n m line s \<Longrightarrow>
    (case edit_line (unat n - 1) line ks of
       None \<Rightarrow> get_line_loop buf n (of_nat (length line)) ks s = None
     | Some (line', ks') \<Rightarrow> \<exists>s'. get_line_loop buf n (of_nat (length line)) ks s
         = Some (of_nat (length line'), ks', s') \<and> line_stored buf n m line' s')"
proof (induction "length ks" arbitrary: line ks s rule: less_induct)
  case less
  let ?i = "of_nat (length line) :: u32"
  note out = line_typed_outputs [OF b]
  have n: "length line < unat n" using less.prems by (simp add: line_typed_def)
  note li = room_left [OF n]
  consider (full) "\<not> length line < unat n - 1" | (wait) "length line < unat n - 1" "get_char ks = None"
    | (key) c ks' where "length line < unat n - 1" "get_char ks = Some (c, ks')" by fastforce
  then show ?case
  proof cases
    case full
    with li line_end [OF less.prems] show ?thesis
      by (simp add: edit_line.simps [of _ line] get_line_loop.simps [of _ _ ?i])
  next
    case wait
    with li show ?thesis by (simp add: edit_line.simps [of _ line] get_line_loop.simps [of _ _ ?i])
  next
    case key
    let ?s = "s\<lparr>mem := (mem s)(buf + ?i := c)\<rparr>"
    note IH = less.hyps [OF get_char_shorter [OF key(2)]]
    note E = edit_line_key [OF key]
    note G = get_line_key [OF li [THEN iffD2, OF key(1)] key(2) refl, of buf s]
    note typed = line_typed_char [OF less.prems key(1), of c]
    note shown = out(2) [OF typed, of c]
    consider (bs0) "c = ASCII_BS" "line = []" | (bs) "c = ASCII_BS" "line \<noteq> []"
      | (nl) "c = 0x0a" "c \<noteq> ASCII_BS" | (ch) "c \<noteq> 0x0a" "c \<noteq> ASCII_BS" by blast
    then show ?thesis
    proof cases
      case bs0
      have "line_typed buf n m [] ?s" using line_typed_prefix [OF typed] bs0(2) line_typed_prefix by fastforce
      from IH [OF this] E G(1) bs0 show ?thesis by (auto split: option.splits)
    next
      case bs
      from typed have "line_typed buf n m (butlast line) ?s"
        unfolding append_butlast_last_cons [OF bs(2), symmetric] by (rule line_typed_prefix)
      from IH [OF out(1) [OF this]] E G(2) bs one_less [OF bs(2) n] show ?thesis by (auto split: option.splits)
    next
      case nl
      have "line_typed buf n m line (put_char 0x0d (put_char c ?s))"
        by (rule out(2), rule line_typed_prefix, rule shown)
      from line_end [OF this] show ?thesis
        using E G(3) nl line_typed_last [OF shown] by (auto split: option.splits)
    next
      case ch
      from IH [OF shown] show ?thesis
        using E G(3) ch line_typed_last [OF shown] by (auto simp: add.commute split: option.splits)
    qed
  qed
qed

section \<open>Formats\<close>

text \<open>A format as the programmer means it: plain text and directives with their arguments.\<close>

datatype seg = Text "u8 list" | Dec u32 | Hex u32 | LongHex u32 | Str "u8 list"

fun seg_format :: "seg \<Rightarrow> u8 list" where
  "seg_format (Text t) = t"
| "seg_format (Dec n) = bytes_of ''%d''"
| "seg_format (Hex n) = bytes_of ''%x''"
| "seg_format (LongHex n) = bytes_of ''%lx''"
| "seg_format (Str t) = bytes_of ''%s''"

fun seg_args :: "seg \<Rightarrow> parg list" where
  "seg_args (Text t) = []"
| "seg_args (Dec n) = [PInt n]"
| "seg_args (Hex n) = [PInt n]"
| "seg_args (LongHex n) = [PInt n]"
| "seg_args (Str t) = [PStr t]"

fun seg_text :: "seg \<Rightarrow> u8 list" where
  "seg_text (Text t) = t"
| "seg_text (Dec n) = dec_numeral n"
| "seg_text (Hex n) = hex_numeral (unat n)"
| "seg_text (LongHex n) = hex_numeral (unat n)"
| "seg_text (Str t) = t"

fun seg_ok :: "seg \<Rightarrow> bool" where
  "seg_ok (Text t) = (of_char CHR ''%'' \<notin> set t)"
| "seg_ok _ = True"

lemma numeral_text [simp]: "buf_text (itoa n) = dec_numeral n" "buf_text (itox n) = hex_numeral (unat n)"
proof -
  have "buf_text (xs @ [0]) = xs" if "0 \<notin> set xs" for xs :: "u8 list"
    using that by (induction xs) (auto simp: buf_text_def)
  then show "buf_text (itoa n) = dec_numeral n" "buf_text (itox n) = hex_numeral (unat n)"
    by (simp_all add: itoa_numeral itox_eq dec_numeral_nonzero hex_numeral_nonzero)
qed

lemma put_bytes_append: "put_bytes (xs @ ys) s = put_bytes ys (put_bytes xs s)"
  by (simp add: put_bytes_def)

lemma printk_plain:
  "of_char CHR ''%'' \<notin> set t \<Longrightarrow> printk_loop False (t @ fmt) ap s = printk_loop False fmt ap (put_bytes t s)"
  by (induction t arbitrary: s) auto

lemma printk_seg:
  "seg_ok g \<Longrightarrow> printk_loop False (seg_format g @ fmt) (seg_args g @ ap) s
     = printk_loop False fmt ap (put_bytes (seg_text g) s)"
  by (cases g) (simp_all add: printk_plain)

text \<open>A directive and its arguments: what is printed, the rest of the arguments.\<close>

fun directive :: "u8 \<Rightarrow> parg list \<Rightarrow> (u8 list \<times> parg list) option" where
  "directive d ap =
     (if d \<in> {of_char CHR ''d'', of_char CHR ''c'', of_char CHR ''u''} then
        (case ap of PInt n # ap \<Rightarrow> Some (dec_numeral n, ap) | _ \<Rightarrow> None)
      else if d = of_char CHR ''x'' then (case ap of PInt n # ap \<Rightarrow> Some (hex_numeral (unat n), ap) | _ \<Rightarrow> None)
      else if d = of_char CHR ''s'' then (case ap of PStr t # ap \<Rightarrow> Some (t, ap) | _ \<Rightarrow> None)
      else Some ([], ap))"

lemma printk_directive:
  assumes "c = of_char CHR ''%'' \<or> l" and "d \<noteq> of_char CHR ''l''"
  shows "printk_loop l (c # d # rest) ap s = (case directive d ap of
      None \<Rightarrow> None | Some (t, ap) \<Rightarrow> printk_loop False rest ap (put_bytes t s))"
  using assms by (auto split: list.splits parg.splits)

lemma printk_long:
  "c = of_char CHR ''%'' \<or> l \<Longrightarrow>
   printk_loop l (c # of_char CHR ''l'' # rest) ap s = printk_loop True (of_char CHR ''l'' # rest) ap s"
  by simp

declare printk_loop.simps(2) [simp del]

text \<open>Whatever the format, \<^verbatim>\<open>printk\<close> prints some bytes.\<close>

lemma printk_output:
  "printk_loop l f ap s = Some s' \<Longrightarrow> \<exists>bs. s' = put_bytes bs s"
proof (induction "length f" arbitrary: l f ap s rule: less_induct)
  case less
  show ?case
  proof (cases f)
    case Nil
    with less.prems show ?thesis by (auto intro: exI [of _ "[]"])
  next
    case (Cons c fmt)
    show ?thesis
    proof (cases "c = of_char CHR ''%'' \<or> l")
      case False
      with less.prems Cons have "printk_loop False fmt ap (put_char c s) = Some s'"
        by (simp add: printk_loop.simps(2))
      from less.hyps [OF _ this] Cons obtain bs where "s' = put_bytes bs (put_char c s)" by auto
      then show ?thesis by (intro exI [of _ "c # bs"]) simp
    next
      case True
      with less.prems(1) Cons obtain d rest where f: "fmt = d # rest"
        by (cases fmt) (auto simp: printk_loop.simps(2))
      show ?thesis
      proof (cases "d = of_char CHR ''l''")
        case d: True
        with less.prems(1) Cons f have "printk_loop True (d # rest) ap s = Some s'"
          using printk_long [OF True, of rest ap s] by simp
        from less.hyps [OF _ this] Cons f show ?thesis by simp
      next
        case False
        with less.prems(1) Cons f obtain t ap' where
          "printk_loop False rest ap' (put_bytes t s) = Some s'"
          by (auto simp: printk_directive [OF True] simp del: directive.simps split: option.splits)
        from less.hyps [OF _ this] Cons f obtain bs where "s' = put_bytes bs (put_bytes t s)" by auto
        then show ?thesis by (intro exI [of _ "t @ bs"]) (simp add: put_bytes_append)
      qed
    qed
  qed
qed

lemma printk_column:
  "printk_loop l f ap s = Some s' \<Longrightarrow> cursor_x s < 80 \<Longrightarrow> cursor_x s' < 80"
  using printk_output [of l f ap s s'] put_bytes_column by blast

lemma printk_segs:
  "\<forall>g \<in> set gs. seg_ok g \<Longrightarrow> printk_loop False (concat (map seg_format gs)) (concat (map seg_args gs)) s
    = Some (put_bytes (concat (map seg_text gs)) s)"
proof (induction gs arbitrary: s)
  case (Cons g gs)
  then show ?case by (simp add: printk_seg put_bytes_append)
qed simp

section \<open>Properties\<close>

text \<open>
  C6. Line input. Into a buffer off the screen, \<^verbatim>\<open>get_line\<close> stores exactly the line the typed keys
  edit (backspace takes a character back, the newline ends the line and is not stored), followed by
  a NUL, and returns its length; the line has less than \<open>buf_size\<close> characters, no byte outside the
  buffer and the screen changes, and as long as the keys do not complete a line it keeps waiting.
\<close>

theorem get_line_edits:
  assumes "buffer_ok buf n"
  shows "case edit_line (unat n - 1) [] ks of
      None \<Rightarrow> get_line buf n ks s = None
    | Some (line, ks') \<Rightarrow> length line < unat n
        \<and> (\<exists>s'. get_line buf n ks s = Some (of_nat (length line), ks', s')
          \<and> block_at (mem s') buf (line @ [0])
          \<and> (\<forall>q. q \<notin> screen_area \<longrightarrow> q \<notin> buffer_area buf n \<longrightarrow> mem s' q = mem s q))"
proof -
  have n: "0 < unat n" using assms by (simp add: buffer_ok_def unat_gt_0 word_neq_0_conv)
  have "length line < unat n" if "edit_line (unat n - 1) [] ks = Some (line, ks')" for line ks'
    using edit_line_bound [OF _ that] n by simp
  then show ?thesis
    using get_line_loop_spec [OF assms, of "mem s" "[]" s ks] n
    by (auto simp: get_line_def line_typed_def line_stored_def block_at_def split: option.splits)
qed

text \<open>Typing \<open>a\<close>, \<open>s\<close>, backspace and enter.\<close>

theorem get_line_edits_witness:
  "\<exists>s'. get_line 0x1000 16 [0x1e, 0x9e, 0x1f, 0x0e, 0x1c] boot_con = Some (1, [], s')
     \<and> mem s' 0x1000 = 0x61 \<and> mem s' 0x1001 = 0"
proof -
  have ok: "buffer_ok 0x1000 16"
  proof -
    have "(0x1000 :: u32) + of_nat i \<noteq> SCREEN_START + of_nat j" if "i < 16" "j < 41312" for i j
    proof -
      have "(of_nat (0x1000 + i) :: u32) \<noteq> of_nat (0xb8000 + j)"
        using that by (subst of_nat_u32_iff) simp_all
      then show ?thesis by (simp add: SCREEN_START_def)
    qed
    then show ?thesis by (auto simp: buffer_ok_def screen_area_def)
  qed
  have k: "keymap ! 0x1e = 0x61" "keymap ! 0x1f = 0x73" "keymap ! 0x0e = ASCII_BS" "keymap ! 0x1c = 0x0a"
    by (simp_all add: keymap_def ASCII_ESC_def ASCII_BS_def ASCII_HT_def)
  have e: "edit_line (unat (16 :: u32) - 1) [] [0x1e, 0x9e, 0x1f, 0x0e, 0x1c] = Some ([0x61], [])"
    by (simp add: edit_line.simps get_char_def IOADR_KBC_DATA_BIT_BRAKE_def k ASCII_BS_def [symmetric])
      (simp add: ASCII_BS_def)
  from get_line_edits [OF ok, of "[0x1e, 0x9e, 0x1f, 0x0e, 0x1c]" boot_con] e
  obtain s' where "get_line 0x1000 16 [0x1e, 0x9e, 0x1f, 0x0e, 0x1c] boot_con = Some (1, [], s')"
    "block_at (mem s') 0x1000 [0x61, 0]" by auto
  then show ?thesis by (auto simp: block_at_Cons)
qed

text \<open>
  C26. Text on the screen. \<^verbatim>\<open>put_str\<close> of a NUL-terminated string off the screen, without line breaks,
  fills the cells from the cursor on with its characters, changes no other cell and no byte
  off the screen, and leaves the cursor behind the text, in a column below 80: the text wraps from
  the end of a row to the start of the next.
\<close>

theorem put_str_fills_cells:
  assumes "cstr (mem s) p xs" and "\<forall>i \<le> length xs. p + of_nat i \<notin> screen_area"
    and "0x0d \<notin> set xs" and "0x0a \<notin> set xs" and "cursor_x s < 80"
    and "cursor s + length xs \<le> SCREEN_CELLS"
  shows "\<exists>s'. put_str p s = Some s' \<and> cursor s' = cursor s + length xs \<and> cursor_x s' < 80
    \<and> (\<forall>k < SCREEN_CELLS. cell s' k =
        (if cursor s \<le> k \<and> k < cursor s + length xs then cell_word (xs ! (k - cursor s)) else cell s k))
    \<and> (\<forall>q. q \<notin> screen_area \<longrightarrow> mem s' q = mem s q)"
  using put_str_bytes [OF assms(1,2)] put_bytes_cells [OF assms(3-6)] put_bytes_column [OF assms(5)]
    put_bytes_outside by blast

text \<open>Printing the string \<open>"b"\<close> of the demonstration memory at the top left corner.\<close>

theorem put_str_fills_cells_witness:
  "\<exists>s'. put_str 0x2000 (boot_con\<lparr>mem := demo_memory\<rparr>) = Some s' \<and> cursor s' = 1 \<and> cell s' 0 = 0x0762"
proof -
  let ?s = "boot_con\<lparr>mem := demo_memory\<rparr>"
  have off: "\<forall>i \<le> length [0x62 :: u8]. (0x2000 :: u32) + of_nat i \<notin> screen_area"
  proof -
    have "(0x2000 :: u32) + of_nat i \<noteq> SCREEN_START + of_nat j" if "i < 2" "j < 41312" for i j
    proof -
      have "(of_nat (0x2000 + i) :: u32) \<noteq> of_nat (0xb8000 + j)"
        using that by (subst of_nat_u32_iff) simp_all
      then show ?thesis by (simp add: SCREEN_START_def)
    qed
    then show ?thesis by (auto simp: screen_area_def)
  qed
  have c: "cursor_x ?s = 0" "cursor ?s = 0"
    by (simp_all add: cursor_def boot_con_def con_init_def timer_state.defs con_state.defs Let_def)
  have "cstr (mem ?s) 0x2000 [0x62]" using demo_strings(2) by simp
  from put_str_fills_cells [OF this off] obtain s' where
    "put_str 0x2000 ?s = Some s'" "cursor s' = 1" "cell s' 0 = cell_word 0x62"
    unfolding c by (auto simp: SCREEN_CELLS_def)
  moreover have "cell_word 0x62 = 0x0762" by (simp add: cell_word_def ATTR_def)
  ultimately show ?thesis by auto
qed

text \<open>
  The cursor column. Whatever is printed (control characters included, with \<^verbatim>\<open>put_str\<close> or with
  any format and arguments of \<^verbatim>\<open>printk\<close>), the cursor stays in the columns 0 to 79.
\<close>

lemma cursor_column_invariant:
  assumes "cursor_x s < 80"
  shows "cursor_x (put_char c s) < 80 \<and> cursor_x (put_bytes cs s) < 80
    \<and> (\<forall>s'. printk fmt ap s = Some s' \<longrightarrow> cursor_x s' < 80)"
  using assms printk_column by (auto simp: printk_def put_bytes_column put_char_column)

text \<open>
  C37. Formats. A format of plain text (without a percent sign) and the directives \<open>%d\<close>, \<open>%x\<close>, \<open>%lx\<close>
  and \<open>%s\<close> prints, for matching arguments, the plain text with the decimal numeral, the hexadecimal
  numeral or the string in place of each directive.
\<close>

theorem printk_renders:
  assumes "\<forall>g \<in> set gs. seg_ok g"
  shows "printk_loop False (concat (map seg_format gs)) (concat (map seg_args gs)) s
    = Some (put_bytes (concat (map seg_text gs)) s)"
  by (rule printk_segs [OF assms])

theorem printk_renders_witness:
  "printk ''n=%d!'' [PInt 42] boot_con = Some (put_bytes (bytes_of ''n=42!'') boot_con)"
proof -
  have "dec_numeral 42 = bytes_of ''42''"
    by (simp add: dec_numeral_def dec_digits_large dec_digits_small dec_digit_def)
  then show ?thesis
    using printk_renders [of "[Text (bytes_of ''n=''), Dec 42, Text (bytes_of ''!'')]" boot_con]
    by (simp add: printk_def)
qed

text \<open>
  Hexadecimal dumps. \<^verbatim>\<open>dump_hex\<close> shows the low \<open>n\<close> digits of the number, the most significant
  first, in the \<open>n\<close> cells from the cursor on, changes no other cell, and moves the cursor
  right by \<open>n\<close> columns, without wrapping at the end of the row.
\<close>

lemma dump_hex_digits:
  assumes "unat (cursor_x s) + unat n \<le> 256" and "unat (cursor_y s) < 256" and "k < SCREEN_CELLS"
  shows "cell (dump_hex val n s) k =
      (if cursor s \<le> k \<and> k < cursor s + unat n
       then cell_word (hex_digit_at val (cursor s + unat n - 1 - k)) else cell s k)
    \<and> cursor_x (dump_hex val n s) = cursor_x s + n \<and> cursor_y (dump_hex val n s) = cursor_y s"
proof -
  let ?y = "ucast (cursor_y s) :: u8"
  have "dump_hex val n s = update_cursor ((dump_hex_loop (unat n) val
      (of_nat (unat (cursor_x s) + unat n) - 1) ?y s)\<lparr>cursor_x := cursor_x s + n\<rparr>)"
    by (simp add: dump_hex_def Let_def)
  moreover have "unat ?y = unat (cursor_y s)" using assms(2) by (rule unat_ucast_u8)
  ultimately show ?thesis
    using dump_hex_loop_cells [OF assms(1,3), of val ?y s]
    by (simp add: cursor_def) (simp add: cell_def)
qed

text \<open>
  The key map: every code the readers pass on is below 128, inside the key map, whatever bytes
  the controller sends, and \<^verbatim>\<open>get_char\<close> delivers the character of the first key press among them.
\<close>

lemma keymap_in_bounds:
  "length keymap = 128
   \<and> (case get_keycode_pressed ks of None \<Rightarrow> True | Some (code, ks') \<Rightarrow> unat code < length keymap)
   \<and> get_char ks = (case dropWhile (\<lambda>k. bit k 7) ks of
       [] \<Rightarrow> None | k # ks' \<Rightarrow> Some (keymap ! unat k, ks'))"
proof -
  have len: "length keymap = 128" by (simp add: keymap_def)
  have brake: "k AND IOADR_KBC_DATA_BIT_BRAKE \<noteq> 0 \<longleftrightarrow> bit k 7" for k :: u8
    using and_exp_eq_0_iff_not_bit [of k 7] by (simp add: IOADR_KBC_DATA_BIT_BRAKE_def)
  have clear: "k AND NOT IOADR_KBC_DATA_BIT_BRAKE = k" if "\<not> bit k 7" for k :: u8
  proof (rule bit_word_eqI)
    fix n assume "n < LENGTH(8)"
    have "bit IOADR_KBC_DATA_BIT_BRAKE n \<longleftrightarrow> n = 7"
      using bit_exp_iff [where 'a = u8, of 7 n] by (auto simp: IOADR_KBC_DATA_BIT_BRAKE_def)
    with that \<open>n < LENGTH(8)\<close> show "bit (k AND NOT IOADR_KBC_DATA_BIT_BRAKE) n = bit k n"
      by (auto simp: bit_simps)
  qed
  have g: "get_keycode_pressed ks = (case dropWhile (\<lambda>k. bit k 7) ks of
      [] \<Rightarrow> None | k # ks' \<Rightarrow> Some (k, ks'))" for ks
    by (induction ks) (simp_all add: brake clear)
  have small: "unat k < 128" if "\<not> bit k 7" for k :: u8
  proof -
    have "k = take_bit 7 k" by (rule bit_word_eqI) (use that in \<open>auto simp: bit_simps less_Suc_eq numeral_eq_Suc\<close>)
    then have "unat k = take_bit 7 (unat k)" by (metis unsigned_take_bit_eq)
    then show ?thesis using take_bit_nat_less_exp [of 7 "unat k"] by simp
  qed
  show ?thesis
  proof (cases "dropWhile (\<lambda>k. bit k 7) ks")
    case Nil
    show ?thesis by (simp add: len g get_char_def Nil del: dropWhile_eq_Nil_conv)
  next
    case (Cons k ks')
    then have "\<not> bit k 7" using hd_dropWhile [of "\<lambda>k. bit k 7" ks] by simp
    with Cons small show ?thesis by (simp add: len g get_char_def)
  qed
qed

end
