(* ===== verification/Console_Line.thy ===== *)
theory Console_Line
  imports Console_Props
begin

text \<open>
  \<^verbatim>\<open>get_line\<close> between its blocking reads. On the real key buffer (\<open>get_line_run\<close>) it does the same to
  memory and cursor as \<open>get_line\<close> does on the list of the bytes its reads deliver; it blocks exactly
  when the bytes in the buffer do not complete the line, and goes on with the next bytes from there.
\<close>

section \<open>One key\<close>

text \<open>What is on the screen and in memory.\<close>

definition console :: "'a con_state_scheme \<Rightarrow> memory \<times> u32 \<times> u32" where
  "console s = (mem s, cursor_x s, cursor_y s)"

text \<open>The loop's body for a key that was pressed.\<close>

type_synonym 'a line_reader =
  "u32 \<Rightarrow> u32 \<Rightarrow> u32 \<Rightarrow> 'a con_state_scheme \<Rightarrow> (line_result \<times> 'a con_state_scheme) option"

definition run_key_of :: "'a line_reader \<Rightarrow> u32 \<Rightarrow> u32 \<Rightarrow> u32 \<Rightarrow> u8 \<Rightarrow> 'a con_state_scheme
    \<Rightarrow> (line_result \<times> 'a con_state_scheme) option" where
  "run_key_of run buf n i c s =
     (let s1 = s\<lparr>mem := (mem s)(buf + i := c)\<rparr>
      in if c = ASCII_BS then run buf n (if i = 0 then i else i - 1) (if i = 0 then s1 else rub_out s1)
         else if mem (put_char c s1) (buf + i) = 0x0a
           then Some (Line i, (put_char 0x0d (put_char c s1))
             \<lparr>mem := (mem (put_char 0x0d (put_char c s1)))(buf + i := 0)\<rparr>)
         else run buf n (i + 1) (put_char c s1))"

lemma run_key_of_body:
  "(let c = keymap ! unat (k AND NOT IOADR_KBC_DATA_BIT_BRAKE);
        s = s\<lparr>mem := (mem s)(buf + i := c)\<rparr>
    in if mem s (buf + i) = ASCII_BS then
         (if i = 0 then run buf n i s
          else
            (let s = s\<lparr>cursor_x := cursor_x s - 1\<rparr>;
                 s = update_cursor s;
                 s = put_char_pos 0x20 (ucast (cursor_x s)) (ucast (cursor_y s)) s
             in run buf n (i - 1) s))
       else
         (let s = put_char (mem s (buf + i)) s
          in if mem s (buf + i) = 0x0a
             then (let s = put_char 0x0d s
                   in Some (Line i, s\<lparr>mem := (mem s)(buf + i := 0)\<rparr>))
             else run buf n (i + 1) s)) =
   run_key_of run buf n i (keymap ! unat (k AND NOT IOADR_KBC_DATA_BIT_BRAKE)) s"
  by (simp add: run_key_of_def rub_out_def Let_def)

lemma get_line_run_unfold:
  "get_line_run buf n i s =
     (if i < n - 1 then
        (case get_keydata_step s of
           None \<Rightarrow> None
         | Some (Blocked b, u) \<Rightarrow> Some (Waiting b i, u)
         | Some (Got k, u) \<Rightarrow>
             if k AND IOADR_KBC_DATA_BIT_BRAKE \<noteq> 0 then get_line_run buf n i u
             else run_key_of get_line_run buf n i (keymap ! unat (k AND NOT IOADR_KBC_DATA_BIT_BRAKE)) u)
      else Some (Line i, s\<lparr>mem := (mem s)(buf + i := 0)\<rparr>))"
  unfolding get_line_run.simps [of buf n i s] run_key_of_body
  by (simp split: option.split key_result.split)

section \<open>What the loop keeps\<close>

text \<open>
  Whatever every step of the loop keeps, short of blocking, a finished call keeps; a call that blocks
  keeps it up to the read that blocks.
\<close>

locale line_steps =
  fixes keeps :: "'a con_state_scheme \<Rightarrow> 'a con_state_scheme \<Rightarrow> bool"
  assumes same: "keeps s s" and trans: "keeps s t \<Longrightarrow> keeps t u \<Longrightarrow> keeps s u"
    and read: "get_keydata_step s = Some (Got k, u) \<Longrightarrow> keeps s u"
    and store: "keeps s (s\<lparr>mem := m\<rparr>)"
    and rubbed: "keeps s (rub_out s)" and shown: "keeps s (put_char c s)"
begin

definition line_kept :: "'a con_state_scheme \<Rightarrow> line_result \<Rightarrow> 'a con_state_scheme \<Rightarrow> bool" where
  "line_kept s r s' \<longleftrightarrow> (case r of Line v \<Rightarrow> keeps s s'
     | Waiting b j \<Rightarrow> \<exists>u. keeps s u \<and> get_keydata_step u = Some (Blocked b, s'))"

lemma line_kept_step: "keeps s t \<Longrightarrow> line_kept t r s' \<Longrightarrow> line_kept s r s'"
  unfolding line_kept_def by (cases r) (auto intro: trans)

lemma line_kept_end: "line_kept s (Line i) (s\<lparr>mem := m\<rparr>)"
  by (simp add: line_kept_def store)

lemma stored_shown: "keeps s (put_char c (s\<lparr>mem := m\<rparr>))"
  using trans [OF store shown] .

lemma stored_rubbed: "keeps s (rub_out (s\<lparr>mem := m\<rparr>))"
  using trans [OF store rubbed] .

lemma run_kept: "get_line_run buf n i s = Some (r, s') \<Longrightarrow> line_kept s r s'"
proof -
  have "line_kept s (fst y) (snd y)" if y: "get_line_run buf n i s = Some y" for y
  proof (rule get_line_run.raw_induct [where P = "\<lambda>buf n i s y. line_kept s (fst y) (snd y)", OF _ y], goal_cases step)
    case step: (step run buf n i s y)
    note IH = step(1)
    have body: "line_kept s (fst y) (snd y)"
      if "run_key_of run buf n i c u = Some y" "keeps s u" for c u
      using that by (auto simp: run_key_of_def Let_def split: if_splits
        intro: line_kept_step [OF trans [OF _ store]] line_kept_step [OF trans [OF _ stored_rubbed]]
          line_kept_step [OF trans [OF _ stored_shown]] IH
          line_kept_step [OF trans [OF _ trans [OF stored_shown shown]] line_kept_end])
    show ?case
    proof (cases "i < n - 1")
      case False
      with step(2) show ?thesis using line_kept_end by auto
    next
      case True
      with step(2) obtain k u where ku: "get_keydata_step s = Some (k, u)" by (auto split: option.splits)
      show ?thesis
      proof (cases k)
        case (Blocked b)
        with ku True step(2) have "y = (Waiting b i, u)" "get_keydata_step s = Some (Blocked b, u)" by auto
        then show ?thesis using same [of s] unfolding line_kept_def by auto
      next
        case (Got x)
        with ku have "keeps s u" using read by simp
        show ?thesis
        proof (cases "x AND IOADR_KBC_DATA_BIT_BRAKE = 0")
          case False
          with step(2) ku Got True have "run buf n i u = Some y" by simp
          from IH [OF this] show ?thesis by (rule line_kept_step [OF \<open>keeps s u\<close>])
        next
          case True
          with step(2) [unfolded run_key_of_body] ku Got \<open>i < n - 1\<close>
          have "run_key_of run buf n i (keymap ! unat (x AND NOT IOADR_KBC_DATA_BIT_BRAKE)) u = Some y" by simp
          then show ?thesis using \<open>keeps s u\<close> by (rule body)
        qed
      qed
    qed
  qed
  then show "get_line_run buf n i s = Some (r, s') \<Longrightarrow> line_kept s r s'" by force
qed

end

section \<open>The calls on the real buffer and on a list of keys\<close>

text \<open>Output depends on what is on the screen and in memory only, and leaves the scheduler alone.\<close>

lemma console_cursor [simp]: "console (update_cursor s) = console s"
  by (simp add: console_def)

lemma console_store: "console s = console t \<Longrightarrow> console (s\<lparr>mem := (mem s)(p := c)\<rparr>) = console (t\<lparr>mem := (mem t)(p := c)\<rparr>)"
  by (simp add: console_def)

lemma console_put_char: "console s = console t \<Longrightarrow> console (put_char c s) = console (put_char c t)"
  by (simp add: put_char_def Let_def) (simp add: console_def put_char_pos_def)

lemma console_rub_out: "console s = console t \<Longrightarrow> console (rub_out s) = console (rub_out t)"
  by (simp add: rub_out_def Let_def put_char_pos_def console_def)

lemma keycode_queue_out [simp]:
  "keycode_queue (update_cursor s) = keycode_queue s" "keycode_queue (put_char_pos c x y s) = keycode_queue s"
  "keycode_queue (put_char c s) = keycode_queue s" "keycode_queue (rub_out s) = keycode_queue s"
proof -
  show a: "keycode_queue (update_cursor s) = keycode_queue s" for s :: "'a con_state_scheme"
    by (simp add: update_cursor_def Let_def split_beta)
  show b: "keycode_queue (put_char_pos c x y s) = keycode_queue s" for c x y and s :: "'a con_state_scheme"
    by (simp add: put_char_pos_def)
  show "keycode_queue (put_char c s) = keycode_queue s" "keycode_queue (rub_out s) = keycode_queue s"
    by (simp_all add: put_char_def rub_out_def Let_def a b)
qed

lemma kq_holds_out [simp]:
  "kq_holds (put_char c s) xs \<longleftrightarrow> kq_holds s xs" "kq_holds (rub_out s) xs \<longleftrightarrow> kq_holds s xs"
  "kq_holds (s\<lparr>mem := m\<rparr>) xs \<longleftrightarrow> kq_holds s xs"
  by (simp_all add: kq_holds_def)

text \<open>The parts of the state the reader does not touch while it does not block.\<close>

definition line_frame :: "'a con_state_scheme \<Rightarrow> sched_part \<times> 'a" where
  "line_frame s = (sched_view s, con_state.more s)"

lemma line_frame_cursor [simp]: "line_frame (update_cursor s) = line_frame s"
proof -
  have "sched_view (update_cursor s) = sched_view s"
    by (simp add: update_cursor_def Let_def split_beta)
  then show ?thesis by (simp add: line_frame_def update_cursor_more)
qed

lemma line_frame_write [simp]: "line_frame (s\<lparr>mem := m\<rparr>) = line_frame s"
  "line_frame (s\<lparr>cursor_x := x\<rparr>) = line_frame s" "line_frame (s\<lparr>cursor_y := y\<rparr>) = line_frame s"
  by (simp_all add: line_frame_def sched_view_def)

lemma line_frame_out [simp]: "line_frame (put_char c s) = line_frame s" "line_frame (rub_out s) = line_frame s"
  by (simp_all add: put_char_def rub_out_def put_char_pos_def Let_def)

lemma read_keeps:
  assumes "get_keydata_step s = Some (Got k, u)"
  shows "console u = console s" "line_frame u = line_frame s"
proof -
  obtain b s1 where L: "kern_lock s = (b, s1)" by fastforce
  have u: "u = kern_unlock b (snd (dequeue s1))"
    using assms by (auto simp: get_keydata_step_def L Let_def split_beta split: if_splits)
  have s1: "s1 = snd (kern_lock s)" by (simp add: L)
  have c: "console (snd (kern_lock t)) = console t" "console (kern_unlock b t) = console t"
    "con_state.more (kern_unlock b t) = con_state.more t" for t :: "'a con_state_scheme"
    by (simp_all add: console_def kern_lock_def kern_unlock_def cli_def sti_def Let_def)
  have d: "console (snd (dequeue t)) = console t" "con_state.more (snd (dequeue t)) = con_state.more t"
    for t :: "'a con_state_scheme"
    by (simp_all add: dequeue_def Let_def split_beta c)
      (simp_all add: console_def kern_lock_def kern_unlock_def cli_def sti_def Let_def)
  show "console u = console s" by (simp add: u s1 c d)
  show "line_frame u = line_frame s" by (simp add: line_frame_def u s1 c d lock_con_more)
qed

lemma get_char_Cons:
  "get_char (k # ks) = (if k AND IOADR_KBC_DATA_BIT_BRAKE \<noteq> 0 then get_char ks
     else Some (keymap ! unat (k AND NOT IOADR_KBC_DATA_BIT_BRAKE), ks))"
  by (simp add: get_char_def)

lemma get_char_append:
  "get_char xs = Some (c, ys) \<Longrightarrow> get_char (xs @ zs) = Some (c, ys @ zs)"
  "get_char xs = None \<Longrightarrow> get_char (xs @ zs) = get_char zs"
  by (induction xs) (auto simp: get_char_Cons get_char_def split: if_splits)

text \<open>The reads up to the next key that is pressed.\<close>

lemma run_reads:
  assumes "kq_holds s xs" and "i < n - 1"
  shows "\<exists>u. console u = console s \<and> line_frame u = line_frame s \<and> (case get_char xs of
      None \<Rightarrow> kq_holds u [] \<and> get_line_run buf n i s = get_line_run buf n i u
    | Some (c, ys) \<Rightarrow> kq_holds u ys \<and> get_line_run buf n i s = run_key_of get_line_run buf n i c u)"
  using assms(1)
proof (induction xs arbitrary: s)
  case Nil
  then show ?case by (intro exI [of _ s]) (simp add: get_char_def)
next
  case (Cons k xs)
  from get_keydata_got [OF Cons.prems] obtain u where u: "get_keydata_step s = Some (Got k, u)" "kq_holds u xs"
    by blast
  note keep = read_keeps [OF u(1)]
  show ?case
  proof (cases "k AND IOADR_KBC_DATA_BIT_BRAKE = 0")
    case True
    with u assms(2) keep show ?thesis
      by (intro exI [of _ u]) (simp add: get_char_Cons get_line_run_unfold [of buf n i s])
  next
    case False
    with u assms(2) have e: "get_line_run buf n i s = get_line_run buf n i u" "get_char (k # xs) = get_char xs"
      by (simp_all add: get_char_Cons get_line_run_unfold [of buf n i s])
    from Cons.IH [OF u(2)] show ?thesis unfolding keep e .
  qed
qed

text \<open>The loop body on the two sides.\<close>

lemma loop_key:
  assumes "i < n - 1" and "get_char ks = Some (c, ks')" and "s1 = s\<lparr>mem := (mem s)(buf + i := c)\<rparr>"
  shows "get_line_loop buf n i ks s =
    (if c = ASCII_BS then get_line_loop buf n (if i = 0 then i else i - 1) ks' (if i = 0 then s1 else rub_out s1)
     else if mem (put_char c s1) (buf + i) = 0x0a
       then Some (i, ks', (put_char 0x0d (put_char c s1))
         \<lparr>mem := (mem (put_char 0x0d (put_char c s1)))(buf + i := 0)\<rparr>)
     else get_line_loop buf n (i + 1) ks' (put_char c s1))"
  using get_line_key [OF assms] by simp

definition line_agrees :: "u32 \<Rightarrow> u32 \<Rightarrow> u32 \<Rightarrow> u8 list \<Rightarrow> 'a con_state_scheme \<Rightarrow> u32 \<Rightarrow> 'b con_state_scheme \<Rightarrow> bool" where
  "line_agrees buf n i xs s k t \<longleftrightarrow> (case get_line_loop buf n k xs t of
      Some (v, ys, t') \<Rightarrow> \<exists>s'. get_line_run buf n i s = Some (Line v, s') \<and> console s' = console t'
        \<and> line_frame s' = line_frame s \<and> kq_holds s' ys
    | None \<Rightarrow> \<exists>j u t'. get_line_run buf n i s = get_line_run buf n j u \<and> j < n - 1 \<and> kq_holds u []
        \<and> line_frame u = line_frame s \<and> console u = console t'
        \<and> (\<forall>zs. get_line_loop buf n k (xs @ zs) t = get_line_loop buf n j zs t'))"

lemma line_agrees_step:
  assumes "line_agrees buf n i' ys u k' t1" and "get_line_run buf n i s = get_line_run buf n i' u"
    and "\<And>zs. get_line_loop buf n k (xs @ zs) t = get_line_loop buf n k' (ys @ zs) t1"
    and "line_frame u = line_frame s"
  shows "line_agrees buf n i xs s k t"
proof -
  have e: "get_line_loop buf n k xs t = get_line_loop buf n k' ys t1" using assms(3) [of "[]"] by simp
  show ?thesis using assms(1) unfolding line_agrees_def assms(2,3,4) e .
qed

lemma get_line_run_agrees: "console s = console t \<Longrightarrow> kq_holds s xs \<Longrightarrow> line_agrees buf n i xs s i t"
proof (induction "length xs" arbitrary: i s t xs rule: less_induct)
  case less
  note eq = less.prems(1)
  show ?case
  proof (cases "i < n - 1")
    case False
    then show ?thesis
      using less.prems console_store [OF eq]
      by (simp add: line_agrees_def get_line_run_unfold [of buf n i s] get_line_loop.simps [of buf n i xs] kq_holds_def)
  next
    case True
    from run_reads [OF less.prems(2) True, of buf] obtain u where u: "console u = console s" "line_frame u = line_frame s"
      and r: "case get_char xs of None \<Rightarrow> kq_holds u [] \<and> get_line_run buf n i s = get_line_run buf n i u
        | Some (c, ys) \<Rightarrow> kq_holds u ys \<and> get_line_run buf n i s = run_key_of get_line_run buf n i c u" by blast
    show ?thesis
    proof (cases "get_char xs")
      case None
      then have "get_line_loop buf n i (xs @ zs) t = get_line_loop buf n i zs t" for zs
        using get_char_append(2) [OF None, of zs] True by (simp add: get_line_loop.simps [of buf n i])
      moreover have "get_line_loop buf n i xs t = None" using None True by (simp add: get_line_loop.simps [of buf n i])
      ultimately show ?thesis using u r None True eq unfolding line_agrees_def by auto
    next
      case (Some p)
      then obtain c ys where g: "get_char xs = Some (c, ys)" by (cases p) auto
      with r have q: "kq_holds u ys" and run: "get_line_run buf n i s = run_key_of get_line_run buf n i c u" by simp_all
      let ?u = "u\<lparr>mem := (mem u)(buf + i := c)\<rparr>" and ?t = "t\<lparr>mem := (mem t)(buf + i := c)\<rparr>"
      have c1: "console ?u = console ?t" using console_store u(1) eq by metis
      have q1: "kq_holds ?u ys" "kq_holds (rub_out ?u) ys" "kq_holds (put_char c ?u) ys" using q by simp_all
      note IH = less.hyps [OF get_char_shorter [OF g]]
      note L = loop_key [OF True get_char_append(1) [OF g] refl, where buf = buf and s = t]
      consider (bs) "c = ASCII_BS" | (nl) "c \<noteq> ASCII_BS" "mem (put_char c ?u) (buf + i) = 0x0a"
        | (ch) "c \<noteq> ASCII_BS" "mem (put_char c ?u) (buf + i) \<noteq> 0x0a" by blast
      then show ?thesis
      proof cases
        case bs
        have "line_agrees buf n (if i = 0 then i else i - 1) ys (if i = 0 then ?u else rub_out ?u)
            (if i = 0 then i else i - 1) (if i = 0 then ?t else rub_out ?t)"
          by (rule IH) (use c1 q1 console_rub_out in auto)
        then show ?thesis
          by (rule line_agrees_step) (use L run bs u(2) in \<open>simp_all add: run_key_of_def Let_def\<close>)
      next
        case nl
        have e: "console (put_char c ?u) = console (put_char c ?t)" by (rule console_put_char [OF c1])
        then have "mem (put_char c ?t) (buf + i) = 0x0a" using nl(2) by (simp add: console_def)
        with nl loop_key [OF True g refl, where buf = buf and s = t] have "get_line_loop buf n i xs t = Some (i, ys, (put_char 0x0d (put_char c ?t))
            \<lparr>mem := (mem (put_char 0x0d (put_char c ?t)))(buf + i := 0)\<rparr>)" by simp
        moreover have "get_line_run buf n i s = Some (Line i, (put_char 0x0d (put_char c ?u))
            \<lparr>mem := (mem (put_char 0x0d (put_char c ?u)))(buf + i := 0)\<rparr>)"
          using nl run by (simp add: run_key_of_def Let_def)
        ultimately show ?thesis
          using console_store [OF console_put_char [OF e]] q u(2) by (simp add: line_agrees_def)
      next
        case ch
        have e: "console (put_char c ?u) = console (put_char c ?t)" by (rule console_put_char [OF c1])
        then have m: "mem (put_char c ?t) (buf + i) \<noteq> 0x0a" using ch(2) by (simp add: console_def)
        have "line_agrees buf n (i + 1) ys (put_char c ?u) (i + 1) (put_char c ?t)"
          by (rule IH) (use e q1 in auto)
        then show ?thesis
          by (rule line_agrees_step) (use L run ch m u(2) in \<open>simp_all add: run_key_of_def Let_def\<close>)
      qed
    qed
  qed
qed

section \<open>The scheduler under the call\<close>

text \<open>A call that ends leaves the scheduler alone and the key buffer well-formed.\<close>

definition queue_kept :: "'a con_state_scheme \<Rightarrow> 'a con_state_scheme \<Rightarrow> bool" where
  "queue_kept s u \<longleftrightarrow> line_frame u = line_frame s \<and> ((\<exists>xs. kq_holds s xs) \<longrightarrow> (\<exists>xs. kq_holds u xs))"

lemma read_queue:
  assumes "get_keydata_step s = Some (Got k, u)" and "kq_holds s xs"
  shows "\<exists>ys. kq_holds u ys"
proof -
  obtain b s1 where L: "kern_lock s = (b, s1)" by fastforce
  have u: "u = kern_unlock b (snd (dequeue s1))"
    using assms(1) by (auto simp: get_keydata_step_def L Let_def split_beta split: if_splits)
  have "kq_holds s1 xs" using assms(2) kern_lock_con(1) [OF L] by (simp add: kq_holds_def)
  from kq_get_ok [OF this] have "kq_holds (snd (dequeue s1)) (snd (list_get xs))"
    by (simp add: kq_get_def split_beta Let_def)
  then have "kq_holds u (snd (list_get xs))" by (simp add: u kq_holds_def)
  then show ?thesis by blast
qed

interpretation line: line_steps queue_kept
  by unfold_locales (auto simp: queue_kept_def read_keeps dest: read_queue)

lemma block_console:
  assumes "wakeup_after_event e s = Some (i, s')"
  shows "console s' = console s"
proof -
  obtain b s1 where L: "kern_lock s = (b, s1)" by fastforce
  have "mem s1 = mem s" using arg_cong [OF L, of "mem \<circ> snd"] by (auto simp: kern_lock_def cli_def Let_def split: if_splits)
  moreover have "mem (snd (sched_runq_del c t)) = mem t" for c and t :: "'a con_state_scheme"
  proof (cases "q_head (run_queue t) = TNull")
    case True
    then show ?thesis by (simp add: sched_runq_del_def)
  qed (use sched_frameD [OF sched_frame_del(1)] in blast)
  then have "mem (block_state c u s1) = mem s1" for c u by (simp add: block_state_def Let_def)
  ultimately have "mem s' = mem s" using assms
    by (auto simp: wakeup_after_event_eq [OF L] sched_wakeupevq_enq_eq split: if_splits)
  moreover from block_more [OF assms] have "cursor_x s' = cursor_x s" "cursor_y s' = cursor_y s"
    by (cases s; cases s'; simp)+
  ultimately show ?thesis by (simp add: console_def)
qed

lemma blocked_console:
  assumes "get_keydata_step s = Some (Blocked b, s')"
  shows "console s' = console s"
proof -
  obtain i s1 where L: "kern_lock s = (i, s1)" by fastforce
  have "wakeup_after_event EVENT_TYPE_KBD (kern_unlock i (snd (dequeue s1))) = Some (b, s')"
    using assms by (auto simp: get_keydata_step_def L Let_def split_beta split: if_splits)
  from block_console [OF this] have "console s' = console (kern_unlock i (snd (dequeue s1)))" .
  moreover have "console (kern_unlock i (snd (dequeue s1))) = console s"
  proof -
    have s1: "s1 = snd (kern_lock s)" by (simp add: L)
    have c: "console (snd (kern_lock t)) = console t" "console (kern_unlock b t) = console t" for b and t :: "'a con_state_scheme"
      by (simp_all add: console_def kern_lock_def kern_unlock_def cli_def sti_def Let_def)
    have "console (snd (dequeue t)) = console t" for t :: "'a con_state_scheme"
      by (simp add: dequeue_def Let_def split_beta c)
        (simp add: console_def kern_lock_def kern_unlock_def cli_def sti_def Let_def)
    then show ?thesis by (simp add: s1 c)
  qed
  ultimately show ?thesis by simp
qed

text \<open>
  The bytes in the buffer complete the line: the call returns like \<open>get_line\<close> on these bytes. They do
  not: it uses them all, the caller waits for the keyboard event, and \<open>get_line\<close> on any longer input
  goes on from here.
\<close>

lemma get_line_returns:
  assumes "kq_holds s xs" and "get_line_loop buf n i xs s = Some (v, ys, t)"
  shows "\<exists>s'. get_line_run buf n i s = Some (Line v, s') \<and> console s' = console t
    \<and> line_frame s' = line_frame s \<and> kq_holds s' ys"
  using get_line_run_agrees [OF refl assms(1), of buf n i] assms(2) by (simp add: line_agrees_def)

lemma get_line_blocks:
  assumes q: "kq_holds s xs" and inv: "sched_inv s (a @ c # b) ws es" and cur: "current_task s = c"
    and line: "get_line_loop buf n i xs s = None"
  shows "\<exists>if_bit j s' t. get_line_run buf n i s = Some (Waiting if_bit j, s') \<and> kq_holds s' []
    \<and> sched_inv s' (a @ b) ws (es @ [c]) \<and> wakeup_event (tasks s' c) = EVENT_TYPE_KBD
    \<and> current_task s' = (if a @ b = [] then TNull else hd (b @ a)) \<and> console s' = console t
    \<and> (\<forall>zs. get_line_loop buf n i (xs @ zs) s = get_line_loop buf n j zs t)"
proof -
  from get_line_run_agrees [OF refl q, of buf n i] line obtain j u t where
    run: "get_line_run buf n i s = get_line_run buf n j u" and j: "j < n - 1" and u: "kq_holds u []"
    and f: "line_frame u = line_frame s" and c: "console u = console t"
    and more: "\<forall>zs. get_line_loop buf n i (xs @ zs) s = get_line_loop buf n j zs t"
    unfolding line_agrees_def by auto
  from f have v: "sched_view u = sched_view s" by (simp add: line_frame_def)
  have "sched_inv u (a @ c # b) ws es" using inv sched_inv_cong [OF v] by simp
  moreover have "current_task u = c" using cur sched_viewD [OF v] by simp
  ultimately obtain k s' where k: "get_keydata_step u = Some (Blocked k, s')" "sched_inv s' (a @ b) ws (es @ [c])"
    "wakeup_event (tasks s' c) = EVENT_TYPE_KBD" "kq_holds s' []"
    "current_task s' = (if a @ b = [] then TNull else hd (b @ a))"
    using get_keydata_blocks [OF u] by blast
  have "get_line_run buf n i s = Some (Waiting k j, s')" using j k(1) by (simp add: run get_line_run_unfold [of buf n j u])
  moreover have "console s' = console t" using blocked_console [OF k(1)] c by simp
  ultimately show ?thesis using k more by blast
qed

text \<open>When the reader is switched to again, with other keys in the buffer, it goes on like that.\<close>

lemma get_line_goes_on:
  assumes "kq_holds s ys" and "console s = console t"
  shows "line_agrees buf n j ys (wakeup_resume if_bit s) j t"
    and "get_line_resume buf n if_bit j s = get_line_run buf n j (wakeup_resume if_bit s)"
proof -
  have "kq_holds (wakeup_resume if_bit s) ys" "console (wakeup_resume if_bit s) = console t"
    using assms by (simp_all add: wakeup_resume_def kern_unlock_def sti_def kq_holds_def console_def)
  then show "line_agrees buf n j ys (wakeup_resume if_bit s) j t" by (rule get_line_run_agrees [rotated])
qed (rule get_line_resume_def)

end
