(* ===== verification/Klist.thy ===== *)
theory Klist
  imports Dlist_Chain
begin

text \<open>
  The intrusive list of \<^verbatim>\<open>kernel/include/list.h\<close> and its operations in \<^verbatim>\<open>kernel/queue.c\<close>. A
  \<^verbatim>\<open>struct list *\<close> is an element of an arbitrary pointer type, the memory holding the nodes a
  function from pointers to nodes; the head is a node of its own.
\<close>

section \<open>Model\<close>

record 'p lnode =
  ln_next :: 'p
  ln_prev :: 'p

type_synonym 'p lheap = "'p \<Rightarrow> 'p lnode"

definition ln_set_next :: "'p \<Rightarrow> 'p \<Rightarrow> 'p lheap \<Rightarrow> 'p lheap" where
  "ln_set_next p v h = h(p := (h p)\<lparr>ln_next := v\<rparr>)"

definition ln_set_prev :: "'p \<Rightarrow> 'p \<Rightarrow> 'p lheap \<Rightarrow> 'p lheap" where
  "ln_set_prev p v h = h(p := (h p)\<lparr>ln_prev := v\<rparr>)"

definition queue_init :: "'p \<Rightarrow> 'p lheap \<Rightarrow> 'p lheap" where
  "queue_init head h =
     (let h = ln_set_next head head h
      in ln_set_prev head head h)"

definition queue_enq :: "'p \<Rightarrow> 'p \<Rightarrow> 'p lheap \<Rightarrow> 'p lheap" where
  "queue_enq entry head h =
     (let h = ln_set_prev entry (ln_prev (h head)) h;
          h = ln_set_next entry head h;
          h = ln_set_next (ln_prev (h head)) entry h
      in ln_set_prev head entry h)"

definition queue_del :: "'p \<Rightarrow> 'p lheap \<Rightarrow> 'p lheap" where
  "queue_del entry h =
     (let h = ln_set_next (ln_prev (h entry)) (ln_next (h entry)) h
      in ln_set_prev (ln_next (h entry)) (ln_prev (h entry)) h)"

section \<open>Correctness\<close>

interpretation ln: link_store "\<lambda>h p. ln_next (h p)" "\<lambda>h p. ln_prev (h p)" ln_set_next ln_set_prev
  by unfold_locales (auto simp: ln_set_next_def ln_set_prev_def)

text \<open>The entries of the queue at \<open>head\<close>, first to last.\<close>

definition queue_holds :: "'p \<Rightarrow> 'p lheap \<Rightarrow> 'p list \<Rightarrow> bool" where
  "queue_holds head h xs \<longleftrightarrow>
     distinct (head # xs) \<and> chain (\<lambda>p. ln_next (h p)) (\<lambda>p. ln_prev (h p)) head xs head"

lemma queue_holds_init: "queue_holds head (queue_init head h) []"
  using ln.self_link(1) by (simp add: queue_holds_def queue_init_def)

lemma queue_holds_enq:
  "queue_holds head h xs \<Longrightarrow> t \<noteq> head \<Longrightarrow> t \<notin> set xs \<Longrightarrow> queue_holds head (queue_enq t head h) (xs @ [t])"
  using ln.link_end [of h head xs t] by (auto simp: queue_holds_def queue_enq_def Let_def)

lemma queue_holds_del:
  "queue_holds head h (ys @ t # zs) \<Longrightarrow> queue_holds head (queue_del t h) (ys @ zs)"
  using ln.unlink [of h head ys t zs] by (auto simp: queue_holds_def queue_del_def Let_def)

interpretation kq: list_queue "queue_holds head" "\<lambda>t. t \<noteq> head" "\<lambda>t. queue_enq t head" queue_del
  for head :: 'p
  by unfold_locales
    (auto simp: queue_holds_enq queue_holds_del, simp add: queue_holds_def)

text \<open>Walking the \<^verbatim>\<open>next\<close> pointers from the head meets exactly the entries, in order.\<close>

lemma queue_holds_unique:
  "queue_holds head h xs \<Longrightarrow> queue_holds head h ys \<Longrightarrow> xs = ys"
  using chain_unique [of "\<lambda>p. ln_next (h p)" "\<lambda>p. ln_prev (h p)" head xs head ys] by (simp add: queue_holds_def)

section \<open>Properties\<close>

text \<open>
  C31. \<^verbatim>\<open>queue.c\<close> implements a first-in first-out queue: starting from an initialised head, entries
  enqueued one after the other are the contents of the ring in order, deleting any one of them
  (at the ends or in the middle) leaves exactly the others in order.
\<close>

theorem queue_enq_del_fifo:
  assumes "distinct ts" and "head \<notin> set ts" and "t \<in> set ts"
  shows "queue_holds head (fold (\<lambda>t. queue_enq t head) ts (queue_init head h)) ts
    \<and> queue_holds head (queue_del t (fold (\<lambda>t. queue_enq t head) ts (queue_init head h)))
        (remove1 t ts)"
proof -
  let ?h = "fold (\<lambda>t. queue_enq t head) ts (queue_init head h)"
  from assms(2) have "list_all (\<lambda>t. t \<noteq> head) ts" by (auto simp: list_all_iff)
  then have "queue_holds head ?h ([] @ ts)"
    by (rule kq.holds_enq_all [OF queue_holds_init]) (simp add: assms(1))
  then have enq: "queue_holds head ?h ts" by simp
  show ?thesis using enq kq.holds_del_remove1 [OF enq assms(3)] by (rule conjI)
qed

theorem queue_enq_del_fifo_witness:
  "distinct [1, 2, 3 :: nat] \<and> (0 :: nat) \<notin> set [1, 2, 3] \<and> (2 :: nat) \<in> set [1, 2, 3] \<and>
   queue_holds 0 (queue_del 2 (fold (\<lambda>t. queue_enq t 0) [1, 2, 3]
     (queue_init 0 (\<lambda>_. \<lparr>ln_next = 9, ln_prev = 9\<rparr>)))) [1, 3 :: nat]"
  using queue_enq_del_fifo [of "[1, 2, 3 :: nat]" 0 2 "\<lambda>_. \<lparr>ln_next = 9, ln_prev = 9\<rparr>"] by simp

end
