(* ===== verification/Name_Lookup.thy ===== *)
theory Name_Lookup
  imports Cstring
begin

text \<open>
  Looking up an entry of a linked list by its name: the common shape of \<^verbatim>\<open>fs_open\<close> and
  \<^verbatim>\<open>get_blk_driver\<close>. The locale extends the comparison interface of \<open>Cstring\<close> with a list walk.
\<close>

text \<open>Following \<open>nx\<close> from \<open>a\<close> meets \<open>xs\<close> and then \<open>b\<close>.\<close>

fun path :: "('p \<Rightarrow> 'p) \<Rightarrow> 'p \<Rightarrow> 'p list \<Rightarrow> 'p \<Rightarrow> bool" where
  "path nx a [] b \<longleftrightarrow> a = b"
| "path nx a (x # xs) b \<longleftrightarrow> a = x \<and> path nx (nx x) xs b"

lemma path_cong:
  "(\<And>x. x \<in> set xs \<Longrightarrow> nx' x = nx x) \<Longrightarrow> path nx' a xs b \<longleftrightarrow> path nx a xs b"
  by (induction xs arbitrary: a) auto

lemma find_map: "find P (map f xs) = map_option f (find (\<lambda>x. P (f x)) xs)"
  by (induction xs) auto

text \<open>A comparison with its arguments swapped is one as well.\<close>

lemma string_compare_flip:
  assumes "string_compare cmp"
  shows "string_compare (\<lambda>m p q. cmp m q p)"
proof
  fix m p xs q ys
  assume "cstr m p xs" and "cstr m q ys"
  from string_compare.cmp_eq [OF assms this(2,1)]
  show "\<exists>d. cmp m q p = Some d \<and> (d = 0 \<longleftrightarrow> xs = ys)" by auto
qed

interpretation cf: string_compare "\<lambda>m p q. str_compare m q p"
  by (rule string_compare_flip) unfold_locales

locale name_lookup = string_compare cmp
  for cmp :: "memory \<Rightarrow> u32 \<Rightarrow> u32 \<Rightarrow> int option" +
  fixes nx :: "'s \<Rightarrow> 'p \<Rightarrow> 'p" and nm :: "'s \<Rightarrow> 'p \<Rightarrow> u32" and stop :: 'p
    and walk :: "memory \<Rightarrow> 's \<Rightarrow> u32 \<Rightarrow> 'p \<Rightarrow> 'p option option"
  assumes walk_unfold: "walk m s key p =
      (if p = stop then Some None
       else case cmp m (nm s p) key of
         None \<Rightarrow> None
       | Some d \<Rightarrow> if d = 0 then Some (Some p) else walk m s key (nx s p))"
begin

text \<open>The walk ends with the first entry of that name, or with none.\<close>

lemma walk_finds:
  assumes "path (nx s) p xs stop" and "stop \<notin> set xs"
    and "\<forall>x \<in> set xs. cstr m (nm s x) (name_of x)" and "cstr m key k"
  shows "walk m s key p = Some (find (\<lambda>x. name_of x = k) xs)"
  using assms
proof (induction xs arbitrary: p)
  case Nil
  then show ?case by (subst walk_unfold) simp
next
  case (Cons x xs)
  have "\<exists>d. cmp m (nm s x) key = Some d \<and> (d = 0 \<longleftrightarrow> name_of x = k)"
    by (rule cmp_eq) (use Cons.prems in auto)
  with Cons show ?case by (subst walk_unfold) auto
qed

end

end
