(* ===== verification/Fs.thy ===== *)
theory Fs
  imports Klist Name_Lookup
begin

text \<open>
  The file system, \<^verbatim>\<open>kernel/fs.c\<close>: a list of the two files of the boot image, and opening a file by
  name. A pointer to a node is one of the three static objects; \<^verbatim>\<open>struct file\<close> is the node together
  with its name and data addresses.
\<close>

section \<open>Model\<close>

datatype fptr = FHead | FShell | FUptime

record fs_state =
  fs_links :: "fptr lheap"
  num_files :: u8
  file_name :: "fptr \<Rightarrow> u32"
  data_base_addr :: "fptr \<Rightarrow> u32"

definition PAGE_SIZE :: u32 where
  "PAGE_SIZE = 0x1000"

definition fs_init :: "memory \<Rightarrow> u32 \<Rightarrow> fs_state \<Rightarrow> fs_state" where
  "fs_init m fs_base_addr s =
     (let s = s\<lparr>fs_links := queue_init FHead (fs_links s)\<rparr>;
          s = s\<lparr>num_files := m fs_base_addr\<rparr>;
          s = s\<lparr>file_name := (file_name s)(FShell := fs_base_addr + PAGE_SIZE)\<rparr>;
          s = s\<lparr>data_base_addr := (data_base_addr s)(FShell := fs_base_addr + PAGE_SIZE + 32)\<rparr>;
          s = s\<lparr>fs_links := queue_enq FShell FHead (fs_links s)\<rparr>;
          s = s\<lparr>file_name := (file_name s)(FUptime := fs_base_addr + PAGE_SIZE * 2)\<rparr>;
          s = s\<lparr>data_base_addr := (data_base_addr s)(FUptime := fs_base_addr + PAGE_SIZE * 2 + 32)\<rparr>
      in s\<lparr>fs_links := queue_enq FUptime FHead (fs_links s)\<rparr>)"

text \<open>\<^term>\<open>Some None\<close> is the null pointer, \<^const>\<open>None\<close> a walk that does not end.\<close>

partial_function (option) fs_open_loop ::
  "memory \<Rightarrow> fs_state \<Rightarrow> u32 \<Rightarrow> fptr \<Rightarrow> fptr option option" where
  "fs_open_loop m s name f =
     (if f = FHead then Some None
      else case str_compare m name (file_name s f) of
        None \<Rightarrow> None
      | Some d \<Rightarrow> if d = 0 then Some (Some f) else fs_open_loop m s name (ln_next (fs_links s f)))"

definition fs_open :: "memory \<Rightarrow> fs_state \<Rightarrow> u32 \<Rightarrow> fptr option option" where
  "fs_open m s name = fs_open_loop m s name (ln_next (fs_links s FHead))"

definition fs_close :: "fptr \<Rightarrow> int" where
  "fs_close f = 0"

section \<open>Lemmas\<close>

interpretation fso: name_lookup "\<lambda>m p q. str_compare m q p" "\<lambda>s f. ln_next (fs_links s f)" file_name
  FHead fs_open_loop
  by unfold_locales (rule fs_open_loop.simps)

lemma chain_path: "chain nx pv a xs b \<Longrightarrow> path nx (nx a) xs b"
  by (induction xs arbitrary: a) auto

lemma fs_init_links:
  "fs_links (fs_init m b s) =
     fold (\<lambda>t. queue_enq t FHead) [FShell, FUptime] (queue_init FHead (fs_links s))"
  by (simp add: fs_init_def Let_def)

lemma fs_init_holds: "queue_holds FHead (fs_links (fs_init m b s)) [FShell, FUptime]"
proof -
  have "queue_holds FHead (fold (\<lambda>t. queue_enq t FHead) [FShell, FUptime]
      (queue_init FHead (fs_links s))) ([] @ [FShell, FUptime])"
    by (rule kq.holds_enq_all [OF queue_holds_init]) simp_all
  then show ?thesis by (simp add: fs_init_links)
qed

text \<open>
  \<^verbatim>\<open>fs_init\<close> links the shell and the uptime program, in this order, with the names at the start
  of the second and third page of the image and the programs 32 bytes behind them.
\<close>

lemma fs_init_files:
  "queue_holds FHead (fs_links (fs_init m b s)) [FShell, FUptime]
   \<and> num_files (fs_init m b s) = m b
   \<and> map (\<lambda>f. (file_name (fs_init m b s) f, data_base_addr (fs_init m b s) f)) [FShell, FUptime]
     = [(b + 0x1000, b + 0x1020), (b + 0x2000, b + 0x2020)]"
  using fs_init_holds by (simp add: fs_init_def PAGE_SIZE_def Let_def)

section \<open>Properties\<close>

text \<open>
  C28. Opening a file. Whatever files are linked, \<^verbatim>\<open>fs_open\<close> returns the first one whose name is the
  given one, and the null pointer exactly if there is none; the walk always ends.
\<close>

theorem fs_open_finds:
  assumes "queue_holds FHead (fs_links s) fs"
    and "\<forall>f \<in> set fs. cstr m (file_name s f) (name_of f)" and "cstr m name k"
  shows "fs_open m s name = Some (find (\<lambda>f. name_of f = k) fs)"
proof -
  from assms(1) have "path (\<lambda>f. ln_next (fs_links s f)) (ln_next (fs_links s FHead)) fs FHead"
    and "FHead \<notin> set fs" by (auto simp: queue_holds_def dest: chain_path)
  from fso.walk_finds [OF this assms(2,3)] show ?thesis by (simp add: fs_open_def)
qed

text \<open>A boot image at 0x11000 with the names \<open>"s"\<close> and \<open>"u"\<close>, and a request for \<open>"u"\<close>.\<close>

definition demo_image :: memory where
  "demo_image = (\<lambda>_. 0)(0x11000 := 2, 0x12000 := 0x73, 0x13000 := 0x75, 0x5000 := 0x75)"

definition demo_fs :: fs_state where
  "demo_fs = fs_init demo_image 0x11000
     \<lparr>fs_links = (\<lambda>_. \<lparr>ln_next = FHead, ln_prev = FHead\<rparr>), num_files = 0,
      file_name = (\<lambda>_. 0), data_base_addr = (\<lambda>_. 0)\<rparr>"

lemma demo_fs_names:
  "file_name demo_fs FShell = 0x12000" "file_name demo_fs FUptime = 0x13000"
  by (simp_all add: demo_fs_def fs_init_def PAGE_SIZE_def Let_def)

theorem fs_open_finds_witness: "fs_open demo_image demo_fs 0x5000 = Some (Some FUptime)"
proof -
  have "queue_holds FHead (fs_links demo_fs) [FShell, FUptime]"
    unfolding demo_fs_def by (rule fs_init_holds)
  moreover have "\<forall>f \<in> set [FShell, FUptime]. cstr demo_image (file_name demo_fs f)
      (case f of FShell \<Rightarrow> [0x73] | _ \<Rightarrow> [0x75])"
    by (simp add: demo_fs_names demo_image_def cstr_simps)
  moreover have "cstr demo_image 0x5000 [0x75]" by (simp add: demo_image_def cstr_simps)
  ultimately show ?thesis
    by (subst fs_open_finds [where fs = "[FShell, FUptime]" and k = "[0x75]"
          and name_of = "\<lambda>f. case f of FShell \<Rightarrow> [0x73] | _ \<Rightarrow> [0x75]"]) simp_all
qed

end
