(* ===== verification/Debug.thy ===== *)
theory Debug
  imports Console_Props Fs
begin

text \<open>
  The places where the kernel stops: \<^verbatim>\<open>kern_abort\<close> (\<^verbatim>\<open>kernel/debug.c\<close>), the exception handlers
  (\<^verbatim>\<open>kernel/excp.c\<close>), and the dump of a list (\<^verbatim>\<open>queue_dump\<close> in \<^verbatim>\<open>kernel/queue.c\<close>), all on top of
  the console.
\<close>

section \<open>Stopping\<close>

text \<open>How a function ends that may abort: with a value, or in an endless loop in the state given.\<close>

datatype ('v, 's) run = Done 'v 's | Stuck 's

text \<open>A character string of the source with its escapes for the line end.\<close>

definition CRLF :: "u8 list" where
  "CRLF = [0x0d, 0x0a]"

text \<open>
  \<^verbatim>\<open>kern_abort\<close> prints the message \<open>"%s %s:%s at %d\n"\<close> and loops; the state is the one it loops in.
\<close>

definition abort_format :: "u8 list" where
  "abort_format = bytes_of ''%s %s:%s at %d'' @ [0x0a]"

definition kern_abort :: "string \<Rightarrow> u32 \<Rightarrow> string \<Rightarrow> string \<Rightarrow> 'a con_state_scheme \<Rightarrow> 'a con_state_scheme" where
  "kern_abort file line func msg s =
     the (printk_loop False abort_format
       [PStr (bytes_of msg), PStr (bytes_of file), PStr (bytes_of func), PInt line] s)"

text \<open>A message with its line end; the formats of the kernel fit their arguments.\<close>

definition printk_line :: "string \<Rightarrow> parg list \<Rightarrow> 'a con_state_scheme \<Rightarrow> 'a con_state_scheme" where
  "printk_line fmt ap s = the (printk (fmt @ [CHR 0x0a]) ap s)"

definition do_exception :: "'a con_state_scheme \<Rightarrow> ('v, 'a con_state_scheme) run" where
  "do_exception s = (let s = put_bytes (bytes_of ''exception'' @ CRLF) s in Stuck s)"

definition do_page_fault :: "u32 \<Rightarrow> u32 \<Rightarrow> 'a con_state_scheme \<Rightarrow> ('v, 'a con_state_scheme) run" where
  "do_page_fault error_code address s =
     (let s = put_bytes (bytes_of ''page fault'' @ CRLF) s;
          s = put_bytes (bytes_of ''error code: 0x'') s;
          s = dump_hex error_code 8 s;
          s = put_bytes CRLF s;
          s = put_bytes (bytes_of ''address   : 0x'') s;
          s = dump_hex address 8 s;
          s = put_bytes CRLF s
      in Stuck s)"

section \<open>Dumping a list\<close>

text \<open>The nodes are at 32-bit addresses here. \<^const>\<open>None\<close>: the walk does not come back to the head.\<close>

partial_function (option) queue_dump_loop ::
  "u32 lheap \<Rightarrow> u32 \<Rightarrow> u32 \<Rightarrow> u32 \<Rightarrow> 'a con_state_scheme \<Rightarrow> 'a con_state_scheme option" where
  "queue_dump_loop h head entry n s =
     (if entry = head then Some s
      else
        (let s = dump_hex n 2 s;
             s = put_bytes (bytes_of ''='') s;
             s = dump_hex entry 8 s;
             s = put_bytes (bytes_of '': p='') s;
             s = dump_hex (ln_prev (h entry)) 8 s;
             s = put_bytes (bytes_of '', n='') s;
             s = dump_hex (ln_next (h entry)) 8 s;
             s = put_bytes CRLF s
         in queue_dump_loop h head (ln_next (h entry)) (n + 1) s))"

definition queue_dump :: "u32 lheap \<Rightarrow> u32 \<Rightarrow> 'a con_state_scheme \<Rightarrow> 'a con_state_scheme option" where
  "queue_dump h head s =
     (let s = put_bytes (bytes_of ''h ='') s;
          s = dump_hex head 8 s;
          s = put_bytes (bytes_of '': p='') s;
          s = dump_hex (ln_prev (h head)) 8 s;
          s = put_bytes (bytes_of '', n='') s;
          s = dump_hex (ln_next (h head)) 8 s;
          s = put_bytes CRLF s
      in queue_dump_loop h head (ln_next (h head)) 0 s)"

section \<open>Lemmas\<close>

text \<open>The message of an abort is printed in full.\<close>

lemma kern_abort_message:
  "kern_abort file line func msg s =
     put_bytes (bytes_of msg @ bytes_of '' '' @ bytes_of file @ bytes_of '':'' @ bytes_of func
       @ bytes_of '' at '' @ dec_numeral line @ [0x0a]) s"
proof -
  let ?gs = "[Str (bytes_of msg), Text (bytes_of '' ''), Str (bytes_of file), Text (bytes_of '':''),
    Str (bytes_of func), Text (bytes_of '' at ''), Dec line, Text [0x0a]]"
  have "printk_loop False (concat (map seg_format ?gs)) (concat (map seg_args ?gs)) s
      = Some (put_bytes (concat (map seg_text ?gs)) s)"
    using printk_segs [of ?gs s] by simp
  then show ?thesis by (simp add: kern_abort_def abort_format_def)
qed

text \<open>On a list in order the dump ends.\<close>

lemma queue_dump_loop_ends:
  "path (\<lambda>p. ln_next (h p)) entry xs head \<Longrightarrow> head \<notin> set xs \<Longrightarrow> \<exists>s'. queue_dump_loop h head entry n s = Some s'"
proof (induction xs arbitrary: entry n s)
  case Nil
  then show ?case by (subst queue_dump_loop.simps) simp
next
  case (Cons x xs)
  then show ?case by (subst queue_dump_loop.simps) (simp add: Let_def)
qed

end
