(* ===== verification/Heap.thy ===== *)
theory Heap
  imports Debug
begin

text \<open>
  The allocators, the second half of \<^verbatim>\<open>kernel/memory.c\<close>: pages from a table of 3584 flags, and
  \<^verbatim>\<open>kmalloc\<close>, which hands out the bytes of one page and never takes them back.
\<close>

section \<open>Pages\<close>

text \<open>
  \<open>heap_alloc_table i\<close> is the byte \<open>i\<close> behind the start of the table, also past its end: the search
  for a free page looks at byte 3584 before it compares the index, and a free may write anywhere.
\<close>

record heap_state = con_state +
  heap_alloc_table :: "nat \<Rightarrow> u8"
  sTotalSize :: u32
  sTopAddr :: u32

definition MAX_HEAP_PAGES :: nat where "MAX_HEAP_PAGES = 3584"
definition HEAP_START_ADDR :: u32 where "HEAP_START_ADDR = 0x00100000"

function alloc_scan :: "(nat \<Rightarrow> u8) \<Rightarrow> nat \<Rightarrow> nat" where
  "alloc_scan t i = (if t i \<noteq> 0 \<and> i < MAX_HEAP_PAGES then alloc_scan t (i + 1) else i)"
  by pat_completeness auto
termination by (relation "measure (\<lambda>(_, i). MAX_HEAP_PAGES - i)") auto

declare alloc_scan.simps [simp del]

definition mem_alloc :: "'a heap_state_scheme \<Rightarrow> u32 \<times> 'a heap_state_scheme" where
  "mem_alloc s =
     (let i = alloc_scan (heap_alloc_table s) 0
      in if i \<ge> MAX_HEAP_PAGES then (0, s)
         else (let s = s\<lparr>heap_alloc_table := (heap_alloc_table s)(i := 1)\<rparr>
               in (HEAP_START_ADDR + of_nat i * PAGE_SIZE, s)))"

definition mem_free :: "u32 \<Rightarrow> 'a heap_state_scheme \<Rightarrow> 'a heap_state_scheme" where
  "mem_free page s =
     (let i = (page - HEAP_START_ADDR) div PAGE_SIZE
      in s\<lparr>heap_alloc_table := (heap_alloc_table s)(unat i := 0)\<rparr>)"

section \<open>Bytes\<close>

definition kmalloc :: "u32 \<Rightarrow> 'a heap_state_scheme \<Rightarrow> (u32, 'a heap_state_scheme) run" where
  "kmalloc n s =
     (let (failed, s) =
        (if sTopAddr s = 0 then
           (let (p, s) = mem_alloc s; s = s\<lparr>sTopAddr := p\<rparr> in (sTopAddr s = 0, s))
         else (False, s))
      in if failed then Stuck (kern_abort ''memory.c'' 142 ''kmalloc'' ''Memory allocate failed'' s)
         else
           (let s = s\<lparr>sTotalSize := sTotalSize s + n\<rparr>
            in if sTotalSize s > PAGE_SIZE then
                 (let s = the (printk_loop False (bytes_of ''kmalloc: %d left: %d'' @ [0x0a])
                        [PInt n, PInt (PAGE_SIZE - sTotalSize s)] s)
                  in Stuck (kern_abort ''memory.c'' 150 ''kmalloc'' ''Too much memory'' s))
               else Done (sTopAddr s + sTotalSize s - n) s))"

definition kfree :: "u32 \<Rightarrow> 'a heap_state_scheme \<Rightarrow> 'a heap_state_scheme" where
  "kfree p s = s"

section \<open>The contract of a page allocator\<close>

text \<open>
  \<open>used s\<close> is the set of page numbers handed out, among \<open>pages\<close>. An allocation takes an unused page
  unless all are used, a free gives back the page it is told.
\<close>

locale page_allocator =
  fixes pages :: "nat set" and used :: "'s \<Rightarrow> nat set"
    and alloc :: "'s \<Rightarrow> nat option \<times> 's" and free :: "nat \<Rightarrow> 's \<Rightarrow> 's"
  assumes alloc_some: "alloc s = (Some i, s') \<Longrightarrow> i \<in> pages \<and> i \<notin> used s \<and> used s' = insert i (used s)"
    and alloc_none: "alloc s = (None, s') \<Longrightarrow> pages \<subseteq> used s \<and> s' = s"
    and free_used: "i \<in> pages \<Longrightarrow> used (free i s) = used s - {i}"
begin

fun allocs :: "nat \<Rightarrow> 's \<Rightarrow> nat option list \<times> 's" where
  "allocs 0 s = ([], s)"
| "allocs (Suc n) s = (case alloc s of (r, s') \<Rightarrow> case allocs n s' of (rs, t) \<Rightarrow> (r # rs, t))"

lemma allocs_fresh:
  "allocs n s = (map Some is, s') \<Longrightarrow>
   distinct is \<and> set is \<subseteq> pages \<and> set is \<inter> used s = {} \<and> used s' = used s \<union> set is"
proof (induction n arbitrary: s "is")
  case (Suc n)
  then obtain i js t where a: "alloc s = (Some i, t)" and r: "is = i # js" "allocs n t = (map Some js, s')"
    by (cases "is") (auto split: prod.splits)
  from alloc_some [OF a] Suc.IH [OF r(2)] r(1) show ?case by auto
qed simp

text \<open>A page given back can be had again.\<close>

lemma free_alloc:
  assumes "i \<in> pages" and "alloc (free i s) = (r, s')"
  shows "r \<noteq> None"
proof
  assume "r = None"
  with assms(2) have "pages \<subseteq> used (free i s)" using alloc_none by blast
  with free_used [OF assms(1)] assms(1) show False by blast
qed

end

section \<open>The table is such an allocator\<close>

definition used_pages :: "'a heap_state_scheme \<Rightarrow> nat set" where
  "used_pages s = {i. i < MAX_HEAP_PAGES \<and> heap_alloc_table s i \<noteq> 0}"

definition page_addr :: "nat \<Rightarrow> u32" where
  "page_addr i = HEAP_START_ADDR + of_nat i * PAGE_SIZE"

definition page_alloc :: "'a heap_state_scheme \<Rightarrow> nat option \<times> 'a heap_state_scheme" where
  "page_alloc s = (let (p, s') = mem_alloc s in
     (if p = 0 then None else Some (unat ((p - HEAP_START_ADDR) div PAGE_SIZE)), s'))"

lemma alloc_scan_spec:
  "i \<le> MAX_HEAP_PAGES \<Longrightarrow> (\<forall>j < i. t j \<noteq> 0) \<Longrightarrow>
   alloc_scan t i \<le> MAX_HEAP_PAGES \<and> (\<forall>j < alloc_scan t i. t j \<noteq> 0)
   \<and> (alloc_scan t i < MAX_HEAP_PAGES \<longrightarrow> t (alloc_scan t i) = 0)"
proof (induction t i rule: alloc_scan.induct)
  case (1 t i)
  show ?case
  proof (cases "t i \<noteq> 0 \<and> i < MAX_HEAP_PAGES")
    case True
    moreover from True 1(3) have "\<forall>j < i + 1. t j \<noteq> 0" by (auto simp: less_Suc_eq)
    ultimately show ?thesis using 1(1) by (simp add: alloc_scan.simps [of t i])
  next
    case False
    with 1(2,3) show ?thesis by (auto simp: alloc_scan.simps [of t i])
  qed
qed

lemma page_addr_index:
  assumes "i < MAX_HEAP_PAGES"
  shows "unat (page_addr i) = 0x100000 + i * 0x1000" "page_addr i \<noteq> 0"
    "unat ((page_addr i - HEAP_START_ADDR) div PAGE_SIZE) = i"
proof -
  have o: "unat (of_nat i :: u32) = i"
    using assms by (simp add: MAX_HEAP_PAGES_def unsigned_of_nat take_bit_nat_eq_self)
  have m: "unat ((of_nat i :: u32) * 0x1000) = i * 0x1000"
    using assms by (simp add: unat_word_ariths o MAX_HEAP_PAGES_def)
  show p: "unat (page_addr i) = 0x100000 + i * 0x1000"
    using assms by (simp add: page_addr_def HEAP_START_ADDR_def PAGE_SIZE_def unat_word_ariths m o MAX_HEAP_PAGES_def)
  show "page_addr i \<noteq> 0" using p by auto
  show "unat ((page_addr i - HEAP_START_ADDR) div PAGE_SIZE) = i"
    by (simp add: page_addr_def PAGE_SIZE_def unat_div m)
qed

lemma mem_alloc_cases:
  obtains (full) "mem_alloc s = (0, s)" "\<forall>i < MAX_HEAP_PAGES. heap_alloc_table s i \<noteq> 0"
  | (page) i where "mem_alloc s = (page_addr i, s\<lparr>heap_alloc_table := (heap_alloc_table s)(i := 1)\<rparr>)"
      "i < MAX_HEAP_PAGES" "heap_alloc_table s i = 0" "\<forall>j < i. heap_alloc_table s j \<noteq> 0"
proof -
  let ?i = "alloc_scan (heap_alloc_table s) 0"
  have S: "?i \<le> MAX_HEAP_PAGES" "\<forall>j < ?i. heap_alloc_table s j \<noteq> 0"
    "?i < MAX_HEAP_PAGES \<longrightarrow> heap_alloc_table s ?i = 0"
    using alloc_scan_spec [of 0 "heap_alloc_table s"] by simp_all
  show ?thesis
  proof (cases "?i < MAX_HEAP_PAGES")
    case True
    with S show ?thesis by (intro page [of ?i]) (simp_all add: mem_alloc_def page_addr_def Let_def)
  next
    case False
    with S show ?thesis by (intro full) (simp_all add: mem_alloc_def)
  qed
qed

interpretation pg: page_allocator "{..<MAX_HEAP_PAGES}" used_pages page_alloc
  "\<lambda>i. mem_free (page_addr i)"
proof (unfold_locales, goal_cases)
  case (1 s i s')
  then show ?case
    by (cases s rule: mem_alloc_cases) (auto simp: page_alloc_def page_addr_index used_pages_def split: if_splits)
next
  case (2 s s')
  then show ?case
    by (cases s rule: mem_alloc_cases) (auto simp: page_alloc_def page_addr_index used_pages_def split: if_splits)
next
  case (3 i s)
  then show ?case by (auto simp: mem_free_def page_addr_index used_pages_def)
qed

section \<open>The bytes of one page\<close>

text \<open>The page is there from the first call on, if one is free.\<close>

definition kmalloc_ready :: "'a heap_state_scheme \<Rightarrow> bool" where
  "kmalloc_ready s \<longleftrightarrow> sTopAddr s \<noteq> 0 \<or> (\<exists>i < MAX_HEAP_PAGES. heap_alloc_table s i = 0)"

definition kmalloc_page :: "'a heap_state_scheme \<Rightarrow> 'a heap_state_scheme" where
  "kmalloc_page s = (if sTopAddr s = 0 then (let (p, s) = mem_alloc s in s\<lparr>sTopAddr := p\<rparr>) else s)"

lemma mem_alloc_total [simp]: "sTotalSize (snd (mem_alloc s)) = sTotalSize s"
  by (cases s rule: mem_alloc_cases) simp_all

lemma kmalloc_page_top:
  "kmalloc_ready s \<Longrightarrow> sTopAddr (kmalloc_page s) \<noteq> 0"
  "sTotalSize (kmalloc_page s) = sTotalSize s"
  by (cases s rule: mem_alloc_cases; auto simp: kmalloc_page_def kmalloc_ready_def page_addr_index)+

lemma kmalloc_eq:
  assumes "kmalloc_ready s"
  shows "kmalloc n s = (let s = kmalloc_page s; s = s\<lparr>sTotalSize := sTotalSize s + n\<rparr>
    in if sTotalSize s > PAGE_SIZE then
         Stuck (kern_abort ''memory.c'' 150 ''kmalloc'' ''Too much memory''
           (the (printk_loop False (bytes_of ''kmalloc: %d left: %d'' @ [0x0a])
             [PInt n, PInt (PAGE_SIZE - sTotalSize s)] s)))
       else Done (sTopAddr s + sTotalSize s - n) s)"
  using kmalloc_page_top(1) [OF assms]
  by (auto simp: kmalloc_def kmalloc_page_def Let_def split_beta)

lemma kmalloc_done:
  assumes "kmalloc_ready s" and "sTotalSize s + n \<le> PAGE_SIZE"
  shows "kmalloc n s = Done (sTopAddr (kmalloc_page s) + sTotalSize s)
    ((kmalloc_page s)\<lparr>sTotalSize := sTotalSize s + n\<rparr>)"
  using assms by (simp add: kmalloc_eq Let_def kmalloc_page_top not_less)

lemma kmalloc_stuck:
  assumes "kmalloc_ready s" and "sTotalSize s + n > PAGE_SIZE"
  shows "\<exists>t. kmalloc n s = Stuck t"
  using assms by (simp add: kmalloc_eq Let_def kmalloc_page_top)

lemma kmalloc_trace: "kmalloc n s = Done p t \<Longrightarrow> trace t = trace s"
  by (cases s rule: mem_alloc_cases; cases "sTopAddr s = 0") (auto simp: kmalloc_def Let_def split: if_splits)

text \<open>A sequence of requests: the addresses, until one aborts.\<close>

fun kmallocs :: "u32 list \<Rightarrow> 'a heap_state_scheme \<Rightarrow> (u32 list, 'a heap_state_scheme) run" where
  "kmallocs [] s = Done [] s"
| "kmallocs (n # ns) s = (case kmalloc n s of
     Stuck t \<Rightarrow> Stuck t
   | Done p s \<Rightarrow> (case kmallocs ns s of Stuck t \<Rightarrow> Stuck t | Done ps s \<Rightarrow> Done (p # ps) s))"

text \<open>Blocks one behind the other.\<close>

fun consecutive :: "u32 \<Rightarrow> u32 list \<Rightarrow> u32 list" where
  "consecutive p [] = []"
| "consecutive p (n # ns) = p # consecutive (p + n) ns"

lemma total_word:
  assumes "unat a + unat b \<le> 4096"
  shows "unat ((a :: u32) + b) = unat a + unat b" "a + b \<le> PAGE_SIZE"
proof -
  show "unat (a + b) = unat a + unat b" using assms by (simp add: unat_word_ariths)
  then show "a + b \<le> PAGE_SIZE" using assms by (simp add: word_le_nat_alt PAGE_SIZE_def)
qed

lemma kmallocs_consecutive:
  assumes "kmalloc_ready s" and "unat (sTotalSize s) + sum_list (map unat ns) \<le> 4096"
  shows "\<exists>t. kmallocs ns s = Done (consecutive (sTopAddr (kmalloc_page s) + sTotalSize s) ns) t"
  using assms
proof (induction ns arbitrary: s)
  case (Cons n ns)
  have fit: "unat (sTotalSize s) + unat n \<le> 4096" using Cons.prems(2) by simp
  let ?t = "(kmalloc_page s)\<lparr>sTotalSize := sTotalSize s + n\<rparr>"
  have k: "kmalloc n s = Done (sTopAddr (kmalloc_page s) + sTotalSize s) ?t"
    by (rule kmalloc_done [OF Cons.prems(1) total_word(2) [OF fit]])
  have top: "sTopAddr (kmalloc_page s) \<noteq> 0" by (rule kmalloc_page_top(1) [OF Cons.prems(1)])
  then have "kmalloc_ready ?t" "kmalloc_page ?t = ?t" by (simp_all add: kmalloc_ready_def kmalloc_page_def)
  moreover have "unat (sTotalSize ?t) + sum_list (map unat ns) \<le> 4096"
    using Cons.prems(2) by (simp add: total_word(1) [OF fit])
  ultimately obtain u where
    "kmallocs ns ?t = Done (consecutive (sTopAddr (kmalloc_page s) + (sTotalSize s + n)) ns) u"
    using Cons.IH [of ?t] by auto
  with k show ?case by (simp add: add.assoc)
qed simp

section \<open>Properties\<close>

text \<open>
  C22. Page allocation. \<^verbatim>\<open>mem_alloc\<close> returns the lowest free page of the 3584 pages from 0x100000
  on, page-aligned and below 0xf00000, marks exactly it as used and changes nothing else; it returns
  the null pointer exactly if all pages are used. Giving a page back frees exactly it, and any
  number of allocations in a row return different pages, none of which was in use.
\<close>

theorem page_allocation:
  "(case mem_alloc s of (p, s') \<Rightarrow>
      (p = 0 \<and> used_pages s = {..<MAX_HEAP_PAGES} \<and> s' = s)
      \<or> (\<exists>i < MAX_HEAP_PAGES. p = page_addr i \<and> i \<notin> used_pages s \<and> (\<forall>j < i. j \<in> used_pages s)
         \<and> s' = s\<lparr>heap_alloc_table := (heap_alloc_table s)(i := 1)\<rparr>
         \<and> used_pages s' = insert i (used_pages s) \<and> used_pages (mem_free p s') = used_pages s))
   \<and> (\<forall>n is s'. pg.allocs n s = (map Some is, s') \<longrightarrow>
        distinct is \<and> set is \<inter> used_pages s = {} \<and> used_pages s' = used_pages s \<union> set is)"
proof (rule conjI)
  show "case mem_alloc s of (p, s') \<Rightarrow>
      (p = 0 \<and> used_pages s = {..<MAX_HEAP_PAGES} \<and> s' = s)
      \<or> (\<exists>i < MAX_HEAP_PAGES. p = page_addr i \<and> i \<notin> used_pages s \<and> (\<forall>j < i. j \<in> used_pages s)
         \<and> s' = s\<lparr>heap_alloc_table := (heap_alloc_table s)(i := 1)\<rparr>
         \<and> used_pages s' = insert i (used_pages s) \<and> used_pages (mem_free p s') = used_pages s)"
  proof (cases s rule: mem_alloc_cases)
    case full
    then show ?thesis by (auto simp: used_pages_def)
  next
    case (page i)
    let ?t = "s\<lparr>heap_alloc_table := (heap_alloc_table s)(i := 1)\<rparr>"
    have u: "used_pages ?t = insert i (used_pages s)" "i \<notin> used_pages s" "\<forall>j < i. j \<in> used_pages s"
      using page(2-4) by (auto simp: used_pages_def)
    have f: "used_pages (mem_free (page_addr i) ?t) = used_pages s"
      using pg.free_used [of i ?t] page(2) u(1,2) by simp
    show ?thesis
      unfolding page(1) prod.case
      by (intro disjI2 exI [of _ i] conjI refl page(2) u f)
  qed
  show "\<forall>n is s'. pg.allocs n s = (map Some is, s') \<longrightarrow>
        distinct is \<and> set is \<inter> used_pages s = {} \<and> used_pages s' = used_pages s \<union> set is"
    using pg.allocs_fresh by blast
qed

text \<open>The heap at boot, before and after one page is taken.\<close>

definition boot_heap :: heap_state where
  "boot_heap = con_state.extend boot_con (heap_state.fields (\<lambda>_. 0) 0 0)"

theorem page_allocation_witness:
  "fst (mem_alloc boot_heap) = 0x100000
   \<and> (\<exists>is s'. pg.allocs 2 boot_heap = (map Some is, s') \<and> distinct is \<and> used_pages s' = used_pages boot_heap \<union> set is)"
proof -
  have p: "mem_alloc t = (page_addr i, t\<lparr>heap_alloc_table := (heap_alloc_table t)(i := 1)\<rparr>)"
    if "heap_alloc_table t i = 0" "\<forall>j < i. heap_alloc_table t j \<noteq> 0" "i < MAX_HEAP_PAGES"
    for t :: heap_state and i
  proof (cases t rule: mem_alloc_cases)
    case full
    with that(1,3) show ?thesis by blast
  next
    case (page k)
    with that have "k = i" by (metis nat_neq_iff)
    with page(1) show ?thesis by blast
  qed
  have z: "heap_alloc_table boot_heap = (\<lambda>_. 0)" by (simp add: boot_heap_def heap_state.defs con_state.defs)
  have m: "(0 :: nat) < MAX_HEAP_PAGES" "(1 :: nat) < MAX_HEAP_PAGES" by (simp_all add: MAX_HEAP_PAGES_def)
  note a = p [of boot_heap 0, unfolded z]
  let ?t = "boot_heap\<lparr>heap_alloc_table := (\<lambda>_. 0)(0 := 1)\<rparr>"
  have b: "mem_alloc ?t = (page_addr 1, ?t\<lparr>heap_alloc_table := (\<lambda>_. 0)(0 := 1, 1 := 1)\<rparr>)"
    using p [of ?t 1] m by simp
  have al: "pg.allocs 2 boot_heap = (map Some [0, 1], ?t\<lparr>heap_alloc_table := (\<lambda>_. 0)(0 := 1, 1 := 1)\<rparr>)"
    using a b m by (simp add: numeral_2_eq_2 page_alloc_def page_addr_index)
  have f: "fst (mem_alloc boot_heap) = 0x100000"
    using a m by (simp add: page_addr_def HEAP_START_ADDR_def)
  from page_allocation [of boot_heap, THEN conjunct2, rule_format, OF al] al f
  show ?thesis by blast
qed

text \<open>
  C36. \<^verbatim>\<open>kmalloc\<close>. As long as the requests add up to at most a page, every request is served, and the
  blocks lie one behind the other in one page: they never overlap. A request over what is left stops
  the kernel. The one exception is a request so large that the 32-bit total wraps around: it
  is served, and the total goes down, so later blocks overlap earlier ones.
\<close>

theorem kmalloc_blocks:
  assumes "kmalloc_ready s" and "unat (sTotalSize s) \<le> 4096"
  shows "(unat (sTotalSize s) + sum_list (map unat ns) \<le> 4096 \<longrightarrow>
      (\<exists>t. kmallocs ns s = Done (consecutive (sTopAddr (kmalloc_page s) + sTotalSize s) ns) t))
    \<and> (4096 < unat (sTotalSize s) + unat n \<longrightarrow> unat (sTotalSize s) + unat n < 2 ^ 32 \<longrightarrow>
        (\<exists>t. kmalloc n s = Stuck t))
    \<and> (2 ^ 32 \<le> unat (sTotalSize s) + unat n \<longrightarrow>
        (\<exists>t. kmalloc n s = Done (sTopAddr (kmalloc_page s) + sTotalSize s) t
          \<and> sTotalSize t < sTotalSize s))"
proof (intro conjI impI)
  assume "unat (sTotalSize s) + sum_list (map unat ns) \<le> 4096"
  then show "\<exists>t. kmallocs ns s = Done (consecutive (sTopAddr (kmalloc_page s) + sTotalSize s) ns) t"
    by (rule kmallocs_consecutive [OF assms(1)])
next
  assume "4096 < unat (sTotalSize s) + unat n" and "unat (sTotalSize s) + unat n < 2 ^ 32"
  then have "sTotalSize s + n > PAGE_SIZE"
    by (simp add: word_less_nat_alt PAGE_SIZE_def unat_word_ariths)
  then show "\<exists>t. kmalloc n s = Stuck t" by (rule kmalloc_stuck [OF assms(1)])
next
  assume "2 ^ 32 \<le> unat (sTotalSize s) + unat n"
  then have w: "4294967296 \<le> unat (sTotalSize s) + unat n" by simp
  have "unat (sTotalSize s + n) = unat (sTotalSize s) + unat n - 4294967296"
    using w unat_u32_bound [of n] assms(2)
    by (simp add: unat_word_ariths mod_if [of _ "4294967296"] not_less)
  then have u: "unat (sTotalSize s + n) < unat (sTotalSize s)"
    using w unat_u32_bound [of n] by linarith
  then have "sTotalSize s + n \<le> PAGE_SIZE"
    using assms(2) by (simp add: word_le_nat_alt PAGE_SIZE_def)
  from kmalloc_done [OF assms(1) this] u
  show "\<exists>t. kmalloc n s = Done (sTopAddr (kmalloc_page s) + sTotalSize s) t \<and> sTotalSize t < sTotalSize s"
    by (simp add: word_less_nat_alt)
qed

theorem kmalloc_blocks_witness:
  "(\<exists>p t. kmallocs [16, 32] boot_heap = Done [p, p + 16] t) \<and> (\<exists>t. kmalloc 4097 boot_heap = Stuck t)
   \<and> (\<exists>p t. kmalloc 0xfffffff8 (boot_heap\<lparr>sTotalSize := 16\<rparr>) = Done p t \<and> sTotalSize t < 16)"
proof -
  have r: "kmalloc_ready boot_heap" "kmalloc_ready (boot_heap\<lparr>sTotalSize := 16\<rparr>)" "sTotalSize boot_heap = 0"
    by (simp_all add: kmalloc_ready_def boot_heap_def heap_state.defs con_state.defs MAX_HEAP_PAGES_def
        exI [of _ "0 :: nat"])
  from kmalloc_blocks [OF r(1), of "[16, 32]" 4097] kmalloc_blocks [OF r(2), of "[]" "0xfffffff8"] r(3)
  show ?thesis by auto
qed

end
