(* ===== verification/Paging.thy ===== *)
theory Paging
  imports Machine
begin

text \<open>
  Paging, the first half of \<^verbatim>\<open>kernel/memory.c\<close> and \<^verbatim>\<open>kernel/include/memory.h\<close>: the page directory at
  0x8f000 and the page table at 0x90000 the kernel builds before it sets the PG bit, and the address
  translation the processor then does with them. An entry is a 32-bit word with bit fields.
\<close>

section \<open>Entries\<close>

text \<open>Storing \<open>v\<close> into the bit field of \<open>w\<close> bits at \<open>lo\<close>.\<close>

definition set_field :: "nat \<Rightarrow> nat \<Rightarrow> u32 \<Rightarrow> u32 \<Rightarrow> u32" where
  "set_field lo w v x = (x AND NOT (push_bit lo (mask w))) OR push_bit lo (v AND mask w)"

text \<open>The fields of \<^verbatim>\<open>struct page_table_entry\<close> and \<^verbatim>\<open>struct page_directory_entry\<close>.\<close>

definition set_pte_p :: "u32 \<Rightarrow> u32 \<Rightarrow> u32" where "set_pte_p = set_field 0 1"
definition set_pte_r_w :: "u32 \<Rightarrow> u32 \<Rightarrow> u32" where "set_pte_r_w = set_field 1 1"
definition set_pte_u_s :: "u32 \<Rightarrow> u32 \<Rightarrow> u32" where "set_pte_u_s = set_field 2 1"
definition set_pte_pwt :: "u32 \<Rightarrow> u32 \<Rightarrow> u32" where "set_pte_pwt = set_field 3 1"
definition set_pte_pcd :: "u32 \<Rightarrow> u32 \<Rightarrow> u32" where "set_pte_pcd = set_field 4 1"
definition set_pte_g :: "u32 \<Rightarrow> u32 \<Rightarrow> u32" where "set_pte_g = set_field 8 1"
definition set_page_base :: "u32 \<Rightarrow> u32 \<Rightarrow> u32" where "set_page_base = set_field 12 20"
definition set_pt_base :: "u32 \<Rightarrow> u32 \<Rightarrow> u32" where "set_pt_base = set_field 12 20"

text \<open>The entries \<^verbatim>\<open>mem_init\<close> writes: the directory's, and a page of RAM or of the video memory.\<close>

definition pde_kernel :: u32 where
  "pde_kernel = set_pt_base 0x00090 (set_pte_r_w 1 (set_pte_p 1 0))"

definition pte_ram :: "u32 \<Rightarrow> u32" where
  "pte_ram base = set_page_base base (set_pte_g 1 (set_pte_r_w 1 (set_pte_p 1 0)))"

definition pte_vram :: "u32 \<Rightarrow> u32" where
  "pte_vram base =
     set_page_base base (set_pte_g 1 (set_pte_pcd 1 (set_pte_pwt 1 (set_pte_r_w 1 (set_pte_p 1 0)))))"

section \<open>The kernel's tables\<close>

text \<open>The entries \<open>is\<close> of the table at \<open>t\<close>, each with the value \<open>f\<close> gives.\<close>

definition put_entries :: "u32 \<Rightarrow> (nat \<Rightarrow> u32) \<Rightarrow> nat list \<Rightarrow> (u32 \<Rightarrow> u8) \<Rightarrow> (u32 \<Rightarrow> u8)" where
  "put_entries t f is m = fold (\<lambda>i. write32 (t + of_nat (4 * i)) (f i)) is m"

definition CR4_BIT_PGE :: u32 where
  "CR4_BIT_PGE = push_bit 7 1"

definition mem_init :: "u32 \<times> (u32 \<Rightarrow> u8) \<Rightarrow> u32 \<times> (u32 \<Rightarrow> u8)" where
  "mem_init = (\<lambda>(cr4, m).
     let cr4 = cr4 OR CR4_BIT_PGE;
         m = put_entries 0x0008f000 (\<lambda>_. pde_kernel) [0] m;
         m = put_entries 0x0008f000 (\<lambda>_. 0) [1..<0x400] m;
         m = put_entries 0x00090000 (\<lambda>_. 0) [0x000..<0x007] m;
         m = put_entries 0x00090000 (\<lambda>i. pte_ram (0x00007 + of_nat (i - 0x007))) [0x007..<0x086] m;
         m = put_entries 0x00090000 (\<lambda>_. 0) [0x086..<0x095] m;
         m = put_entries 0x00090000 (\<lambda>i. pte_ram (0x00095 + of_nat (i - 0x095))) [0x095..<0x0a0] m;
         m = put_entries 0x00090000 (\<lambda>_. 0) [0x0a0..<0x0b8] m;
         m = put_entries 0x00090000 (\<lambda>i. pte_vram (0x000b8 + of_nat (i - 0x0b8))) [0x0b8..<0x0c0] m;
         m = put_entries 0x00090000 (\<lambda>_. 0) [0x0c0..<0x100] m;
         m = put_entries 0x00090000 (\<lambda>i. pte_ram (0x00100 + of_nat (i - 0x100))) [0x100..<0xeff] m;
         m = put_entries 0x00090000 (\<lambda>_. 0) [0xeff..<0x40000] m
     in (cr4, m))"

definition mem_page_start :: "u32 \<Rightarrow> u32" where
  "mem_page_start cr0 = cr0 OR 0x80000000"

section \<open>The processor's translation\<close>

text \<open>
  Two levels of 4 KiB pages: directory entry, table entry, page offset; \<^const>\<open>None\<close> is a page fault
  (an entry without its present bit). \<open>pd\<close> is the directory's address in CR3.
\<close>

definition translate :: "(u32 \<Rightarrow> u8) \<Rightarrow> u32 \<Rightarrow> u32 \<Rightarrow> u32 option" where
  "translate m pd v =
     (let pde = read32 m (pd + 4 * drop_bit 22 v)
      in if \<not> bit pde 0 then None
         else let pte = read32 m (push_bit 12 (drop_bit 12 pde) + 4 * (drop_bit 12 v AND mask 10))
              in if \<not> bit pte 0 then None
                 else Some (push_bit 12 (drop_bit 12 pte) OR (v AND mask 12)))"

section \<open>Lemmas\<close>

lemma write32_outside:
  "q \<noteq> p \<Longrightarrow> q \<noteq> p + 1 \<Longrightarrow> q \<noteq> p + 2 \<Longrightarrow> q \<noteq> p + 3 \<Longrightarrow> write32 p v m q = m q"
  by (simp only: write32_def fun_upd_apply if_False)

lemma read32_write32_other:
  assumes d: "\<And>a b. a \<in> {0, 1, 2, 3} \<Longrightarrow> b \<in> {0, 1, 2, 3} \<Longrightarrow> q + b \<noteq> p + a"
  shows "read32 (write32 p v m) q = read32 m q"
proof -
  have out: "write32 p v m (q + b) = m (q + b)" if b: "b \<in> {0, 1, 2, 3}" for b
  proof (rule write32_outside)
    show "q + b \<noteq> p" using d [of 0 b] b by simp
  qed (rule d; use b in simp)+
  have "write32 p v m q = m q" using out [of 0] by simp
  moreover have "write32 p v m (q + 1) = m (q + 1)" "write32 p v m (q + 2) = m (q + 2)"
    "write32 p v m (q + 3) = m (q + 3)" by (rule out; simp)+
  ultimately show ?thesis by (simp only: read32_def)
qed

lemma of_nat_u32_eq: "i < 2 ^ 32 \<Longrightarrow> j < 2 ^ 32 \<Longrightarrow> (of_nat i :: u32) = of_nat j \<longleftrightarrow> i = j"
  by (simp add: word_unat_eq_iff unsigned_of_nat take_bit_nat_eq_self)

lemma byte_offset: "(a :: u32) \<in> {0, 1, 2, 3} \<Longrightarrow> \<exists>k. a = of_nat k \<and> k < 4"
  by (rule exI [of _ "unat a"]) auto

text \<open>Entries of two tables that do not overlap, up to the end of memory.\<close>

lemma entries_apart:
  assumes "i < 0x40000" and "j < 0x40000" and "i \<noteq> j" and "a \<in> {0, 1, 2, 3}" and "b \<in> {0, 1, 2, 3}"
  shows "(t :: u32) + of_nat (4 * i) + a \<noteq> t + of_nat (4 * j) + b"
proof -
  obtain k l where k: "a = of_nat k" "k < 4" and l: "b = of_nat l" "l < 4"
    using byte_offset [OF assms(4)] byte_offset [OF assms(5)] by blast
  have "4 * i + k \<noteq> 4 * j + l" using assms k l by presburger
  then have "(of_nat (4 * i + k) :: u32) \<noteq> of_nat (4 * j + l)"
    using assms k l by (subst of_nat_u32_eq) simp_all
  then show ?thesis by (simp add: k l add.assoc)
qed

lemma put_entries_read:
  assumes "i < 0x40000" and "\<forall>j \<in> set is. j < 0x40000" and "distinct is"
  shows "read32 (put_entries t f is m) (t + of_nat (4 * i)) =
    (if i \<in> set is then f i else read32 m (t + of_nat (4 * i)))"
  using assms
proof (induction "is" arbitrary: m)
  case (Cons j js)
  let ?m = "write32 (t + of_nat (4 * j)) (f j) m"
  have "i \<noteq> j \<Longrightarrow> read32 ?m (t + of_nat (4 * i)) = read32 m (t + of_nat (4 * i))"
    using Cons.prems entries_apart [of i j _ _ t] by (intro read32_write32_other) simp
  with Cons show ?case by (auto simp: put_entries_def)
qed (simp add: put_entries_def)

text \<open>A table leaves the words outside it alone.\<close>

lemma put_entries_apart:
  assumes "\<forall>j \<in> set is. (q + 4 \<le> unat t + 4 * j \<or> unat t + 4 * j + 4 \<le> q) \<and> unat t + 4 * j + 4 \<le> 2 ^ 32"
    and "q + 4 \<le> 2 ^ 32"
  shows "read32 (put_entries t f is m) (of_nat q) = read32 m (of_nat q)"
  using assms
proof (induction "is" arbitrary: m)
  case (Cons j js)
  have "of_nat q + b \<noteq> t + of_nat (4 * j) + a" if ab: "a \<in> {0, 1, 2, 3}" "b \<in> {0, 1, 2, 3}" for a b
  proof -
    obtain k l where k: "a = of_nat k" "k < 4" and l: "b = of_nat l" "l < 4"
      using byte_offset [OF ab(1)] byte_offset [OF ab(2)] by blast
    have "t + of_nat (4 * j) + a = of_nat (unat t + (4 * j + k))" by (simp add: k)
    moreover have "of_nat q + b = of_nat (q + l)" by (simp add: l)
    moreover have "(of_nat (unat t + (4 * j + k)) :: u32) \<noteq> of_nat (q + l)"
      using Cons.prems k l by (subst of_nat_u32_eq) auto
    ultimately show ?thesis by metis
  qed
  then have "read32 (write32 (t + of_nat (4 * j)) (f j) m) (of_nat q) = read32 m (of_nat q)"
    by (rule read32_write32_other)
  with Cons show ?case by (simp add: put_entries_def)
qed (simp add: put_entries_def)

lemma put_entries_below:
  assumes "q + 4 \<le> unat t" and "\<forall>j \<in> set is. j < 0x40000" and "unat t + 0x100000 \<le> 2 ^ 32"
  shows "read32 (put_entries t f is m) (of_nat q) = read32 m (of_nat q)"
  using assms by (intro put_entries_apart) fastforce+

text \<open>The entry the table holds for page \<open>i\<close>.\<close>

definition kernel_entry :: "nat \<Rightarrow> u32" where
  "kernel_entry i =
     (if 0x007 \<le> i \<and> i \<le> 0x085 \<or> 0x095 \<le> i \<and> i \<le> 0x09f \<or> 0x100 \<le> i \<and> i < 0xeff
      then pte_ram (of_nat i)
      else if 0x0b8 \<le> i \<and> i \<le> 0x0bf then pte_vram (of_nat i) else 0)"

lemma of_nat_rebase: "k \<le> i \<Longrightarrow> (of_nat k :: u32) + of_nat (i - k) = of_nat i"
  by (metis le_add_diff_inverse of_nat_add)

lemmas rebase = of_nat_rebase [of 7, simplified] of_nat_rebase [of "0x95", simplified]
  of_nat_rebase [of "0xb8", simplified] of_nat_rebase [of "0x100", simplified]

lemma mem_init_entry:
  assumes "i < 0x40000"
  shows "read32 (snd (mem_init (cr4, m))) (0x00090000 + of_nat (4 * i)) = kernel_entry i"
  using assms
  by (simp add: mem_init_def put_entries_read kernel_entry_def rebase
      del: upt_rec_numeral of_nat_mult)

lemma mem_init_directory:
  assumes "d < 0x400"
  shows "read32 (snd (mem_init (cr4, m))) (0x0008f000 + of_nat (4 * d)) = (if d = 0 then pde_kernel else 0)"
proof -
  have a: "(0x0008f000 + of_nat (4 * d) :: u32) = of_nat (0x8f000 + 4 * d)" by simp
  have below: "read32 (put_entries 0x00090000 f is m) (0x0008f000 + of_nat (4 * d)) =
      read32 m (0x0008f000 + of_nat (4 * d))" if "\<forall>j \<in> set is. j < 0x40000" for f "is" m
    unfolding a by (rule put_entries_below) (use assms that in auto)
  show ?thesis
    using assms put_entries_read [of 0 "[0]" "0x0008f000" "\<lambda>_. pde_kernel" m]
    by (simp add: mem_init_def below put_entries_read del: upt_rec_numeral of_nat_mult)
qed

text \<open>The fields of the entries.\<close>

lemma pde_kernel_eq: "pde_kernel = 0x00090003"
  by (simp add: pde_kernel_def set_pt_base_def set_pte_r_w_def set_pte_p_def set_field_def
      mask_eq_exp_minus_1 push_bit_eq_mult)

lemma pte_present [simp]: "bit (pte_ram b) 0" "bit (pte_vram b) 0"
  by (simp_all add: pte_ram_def pte_vram_def set_page_base_def set_pte_g_def set_pte_pcd_def
      set_pte_pwt_def set_pte_r_w_def set_pte_p_def set_field_def bit_simps)

lemma pte_page [simp]:
  "drop_bit 12 (pte_ram b) = b AND mask 20" "drop_bit 12 (pte_vram b) = b AND mask 20"
  by (rule bit_word_eqI; auto simp: pte_ram_def pte_vram_def set_page_base_def set_pte_g_def
      set_pte_pcd_def set_pte_pwt_def set_pte_r_w_def set_pte_p_def set_field_def bit_simps)+

text \<open>What the kernel's tables map.\<close>

lemma kernel_mapping:
  "translate (snd (mem_init (cr4, m))) 0x0008f000 v =
     (let i = unat (drop_bit 12 v)
      in if 0x007 \<le> i \<and> i \<le> 0x085 \<or> 0x095 \<le> i \<and> i \<le> 0x09f
            \<or> 0x0b8 \<le> i \<and> i \<le> 0x0bf \<or> 0x100 \<le> i \<and> i < 0x400
         then Some v else None)"
proof -
  let ?m = "snd (mem_init (cr4, m))"
  define d where "d = unat (drop_bit 22 v)"
  have d: "d < 0x400" using unat_u32_bound [of v]
    unfolding d_def unat_drop_bit_eq by (simp add: drop_bit_eq_div)
  have pde: "read32 ?m (0x0008f000 + 4 * drop_bit 22 v) = (if d = 0 then pde_kernel else 0)"
    using mem_init_directory [OF d, of cr4 m] by (simp add: d_def)
  define i where "i = unat (drop_bit 12 v)"
  have di: "d = i div 0x400"
    unfolding d_def i_def unat_drop_bit_eq by (simp add: drop_bit_eq_div div_mult2_eq [symmetric])
  show ?thesis
  proof (cases "d = 0")
    case False
    with di have "0x400 \<le> i" by (cases "i < 0x400") auto
    with False pde show ?thesis by (simp add: translate_def i_def Let_def)
  next
    case True
    with di have i: "i < 0x400" by (simp add: div_eq_0_iff)
    have "drop_bit 12 v AND mask 10 = of_nat i"
      using i unfolding take_bit_eq_mask [symmetric] i_def word_unat_eq_iff unsigned_take_bit_eq
      by (simp add: take_bit_nat_eq_self)
    moreover have "push_bit 12 (drop_bit 12 pde_kernel) = 0x00090000"
      by (simp add: pde_kernel_eq)
    moreover have "0x00090000 + 4 * of_nat i = (0x00090000 + of_nat (4 * i) :: u32)" by simp
    ultimately have pte: "translate ?m 0x0008f000 v = (if bit (kernel_entry i) 0
        then Some (push_bit 12 (drop_bit 12 (kernel_entry i)) OR (v AND mask 12)) else None)"
      using True pde mem_init_entry [of i cr4 m] i
      by (simp add: translate_def Let_def pde_kernel_eq del: of_nat_mult)
    have "push_bit 12 (of_nat i AND mask 20) OR (v AND mask 12) = v"
      by (rule bit_word_eqI) (auto simp: i_def bit_simps)
    then show ?thesis using i by (simp add: pte kernel_entry_def i_def [symmetric])
  qed
qed

section \<open>Properties\<close>

text \<open>
  The page table. \<^verbatim>\<open>mem_init\<close> writes 0x40000 entries from 0x90000 on: page \<open>i\<close> is present and
  mapped to itself for the pages 7 to 0x85, 0x95 to 0x9f and 0x100 to 0xefe, uncached for the video
  memory's 0xb8 to 0xbf, and absent otherwise. The entries reach up to 0x18ffff, over the video
  memory and the first pages of the heap, although a table of this directory has 0x400 entries.
\<close>

lemma mem_init_entries:
  assumes "i < 0x40000"
  shows "read32 (snd (mem_init (cr4, m))) (0x00090000 + of_nat (4 * i)) =
    (if 0x007 \<le> i \<and> i \<le> 0x085 \<or> 0x095 \<le> i \<and> i \<le> 0x09f \<or> 0x100 \<le> i \<and> i < 0xeff
     then pte_ram (of_nat i)
     else if 0x0b8 \<le> i \<and> i \<le> 0x0bf then pte_vram (of_nat i) else 0)"
  using mem_init_entry [OF assms] by (simp only: kernel_entry_def)

lemma mem_init_entries_witness:
  "read32 (snd (mem_init (0, \<lambda>_. 0xff))) (0x00090000 + of_nat (4 * 0x3ffff)) = 0
   \<and> (0x00090000 + of_nat (4 * 0x3ffff) :: u32) = 0x0018fffc"
  using mem_init_entries [of "0x3ffff" 0 "\<lambda>_. 0xff"] by simp

text \<open>
  C23. The kernel's address space. With the tables \<^verbatim>\<open>mem_init\<close> builds, the processor translates the
  addresses of the pages 7 to 0x85, 0x95 to 0x9f, 0xb8 to 0xbf and 0x100 to 0x3ff to themselves and
  faults on every other address: in particular on all from 4 MiB on, since only the first directory
  entry is present, though the table goes on to page 0xefe.
\<close>

theorem kernel_translation:
  "translate (snd (mem_init (cr4, m))) 0x0008f000 v =
     (let i = unat (drop_bit 12 v)
      in if 0x007 \<le> i \<and> i \<le> 0x085 \<or> 0x095 \<le> i \<and> i \<le> 0x09f
            \<or> 0x0b8 \<le> i \<and> i \<le> 0x0bf \<or> 0x100 \<le> i \<and> i < 0x400
         then Some v else None)"
  by (rule kernel_mapping)

end
