(* ===== verification/Task.thy ===== *)
theory Task
  imports Heap Paging
begin

text \<open>
  Starting tasks: \<^verbatim>\<open>kernel/task.c\<close> and \<^verbatim>\<open>kernel/kern_task_init.c\<close>. A new task gets four pages (page
  directory, page table, its \<^verbatim>\<open>struct task\<close>, its stack), a task state segment in the GDT, and a
  piece of code that jumps to it. The structure at page \<open>p\<close> is \<open>tasks (THeap p)\<close>; its fields that
  \<^verbatim>\<open>task_init\<close> does not write keep whatever the page held.
\<close>

section \<open>State\<close>

record task_state = heap_state +
  gdt :: "segment_descriptor list"
  task_id_counter :: u16
  kern_task_tss :: tss
  cr3 :: u32

definition GDT_IDX_OFS :: u32 where "GDT_IDX_OFS = 3"
definition APP_ENTRY_POINT :: u32 where "APP_ENTRY_POINT = 0x20000020"
definition APP_STACK_BASE :: u32 where "APP_STACK_BASE = 0x20002000"
definition CONTEXT_SWITCH_FN_SIZE :: nat where "CONTEXT_SWITCH_FN_SIZE = 12"
definition CONTEXT_SWITCH_FN_TSKNO_FIELD :: nat where "CONTEXT_SWITCH_FN_TSKNO_FIELD = 8"
definition KERN_TASK_GDT_IDX :: u32 where "KERN_TASK_GDT_IDX = 3"

definition context_switch_template :: "u8 list" where
  "context_switch_template =
     [0x55, 0x89, 0xe5, 0xea, 0x00, 0x00, 0x00, 0x00, 0x00, 0x00, 0x5d, 0xc3]"

section \<open>The tables of a task\<close>

definition pde_user :: "u32 \<Rightarrow> u32" where
  "pde_user base = set_pt_base base (set_pte_u_s 1 (set_pte_r_w 1 (set_pte_p 1 0)))"

definition pte_user :: "u32 \<Rightarrow> u32" where
  "pte_user base = set_page_base base (set_pte_u_s 1 (set_pte_r_w 1 (set_pte_p 1 0)))"

text \<open>
  The second loop starts with \<^verbatim>\<open>i\<close> at 0x80, but \<^verbatim>\<open>pde\<close> is already at entry 0x81: the last entry it
  clears is number 0x400, behind the directory.
\<close>

definition task_page_directory :: "u32 \<Rightarrow> u32 \<Rightarrow> (u32 \<Rightarrow> u8) \<Rightarrow> (u32 \<Rightarrow> u8)" where
  "task_page_directory pd_base_addr pt_base_addr m =
     (let m = put_entries pd_base_addr (\<lambda>_. pde_kernel) [0] m;
          m = put_entries pd_base_addr (\<lambda>_. 0) [1..<0x080] m;
          m = put_entries pd_base_addr (\<lambda>_. pde_user (drop_bit 12 pt_base_addr)) [0x080] m
      in put_entries pd_base_addr (\<lambda>i. 0) [0x081..<0x401] m)"

definition task_page_table :: "u32 \<Rightarrow> u32 \<Rightarrow> u32 \<Rightarrow> (u32 \<Rightarrow> u8) \<Rightarrow> (u32 \<Rightarrow> u8)" where
  "task_page_table pt_base_addr data_base phys_stack_base m =
     (let m = put_entries pt_base_addr (\<lambda>_. pte_user (drop_bit 12 data_base)) [0] m;
          m = put_entries pt_base_addr (\<lambda>_. pte_user (drop_bit 12 phys_stack_base)) [1] m
      in put_entries pt_base_addr (\<lambda>_. 0) [2..<0x400] m)"

section \<open>Starting a task\<close>

text \<open>\<^verbatim>\<open>struct task\<close> starts with two pointers and a padded short: \<^verbatim>\<open>tss\<close> is at offset 12.\<close>

definition tss_addr :: "u32 \<Rightarrow> u32" where
  "tss_addr task_addr = task_addr + 12"

definition switch_code :: "u16 \<Rightarrow> u8 list" where
  "switch_code tid = (take CONTEXT_SWITCH_FN_SIZE context_switch_template)
     [CONTEXT_SWITCH_FN_TSKNO_FIELD := ucast (8 * (tid - 1) + 0x20)]"

definition task_tss :: "u32 \<Rightarrow> tss \<Rightarrow> tss" where
  "task_tss pd_base_addr t = t\<lparr>tss_eip := APP_ENTRY_POINT, tss_esp := 0x20001800,
     tss_eflags := 0x00000200, tss_esp0 := APP_STACK_BASE, tss_ss0 := 0x0010,
     tss_es := 0x0038 OR 0x0003, tss_cs := 0x0030 OR 0x0003, tss_ss := 0x0038 OR 0x0003,
     tss_ds := 0x0038 OR 0x0003, tss_fs := 0x0038 OR 0x0003, tss_gs := 0x0038 OR 0x0003,
     tss_cr3 := pd_base_addr OR 0x18\<rparr>"

text \<open>
  \<open>data_base\<close> is \<^verbatim>\<open>f->data_base_addr\<close>. \<^const>\<open>None\<close>: a page could not be had (the code does not check,
  and writes through a null pointer), or the GDT has no entry for the task (it writes past it).
\<close>

definition task_init :: "u32 \<Rightarrow> 'a task_state_scheme \<Rightarrow> 'a task_state_scheme option" where
  "task_init data_base s =
     (let (pd_base_addr, s) = mem_alloc s;
          (pt_base_addr, s) = mem_alloc s;
          (new_task, s) = mem_alloc s;
          (phys_stack_base, s) = mem_alloc s
      in if pd_base_addr = 0 \<or> pt_base_addr = 0 \<or> new_task = 0 \<or> phys_stack_base = 0 then None
         else
           (let s = s\<lparr>mem := task_page_directory pd_base_addr pt_base_addr (mem s)\<rparr>;
                s = s\<lparr>mem := task_page_table pt_base_addr data_base phys_stack_base (mem s)\<rparr>;
                t = (tasks s (THeap new_task))\<lparr>task_id := task_id_counter s\<rparr>;
                s = s\<lparr>task_id_counter := task_id_counter s + 1\<rparr>;
                t = t\<lparr>context_switch_func := switch_code (task_id t)\<rparr>;
                t = t\<lparr>context_switch := CtxOwn\<rparr>
            in case init_gdt (ucast (task_id t) + GDT_IDX_OFS) (tss_addr new_task) sizeof_tss 3 (gdt s) of
                 None \<Rightarrow> None
               | Some g \<Rightarrow>
                   (let s = s\<lparr>gdt := g\<rparr>;
                        t = t\<lparr>tss_of := task_tss pd_base_addr (tss_of t)\<rparr>;
                        s = s\<lparr>tasks := (tasks s)(THeap new_task := t)\<rparr>
                    in Some (snd (sched_runq_enq (THeap new_task) s)))))"

text \<open>
  \<open>tss_loc\<close> is the address of the static \<^verbatim>\<open>kern_task_tss\<close>. Loading the task register makes the
  running code the kernel task.
\<close>

definition kern_task_init :: "u32 \<Rightarrow> 'a task_state_scheme \<Rightarrow> 'a task_state_scheme option" where
  "kern_task_init tss_loc s =
     (let cr = 0x0008f018;
          segment_selector = ucast (8 * KERN_TASK_GDT_IDX);
          s = s\<lparr>kern_task_tss := (kern_task_tss s)\<lparr>tss_esp0 := 0x0007f800, tss_ss0 := 0x0010,
                 tss_cr3 := 0x0008f018\<rparr>\<rparr>
      in case init_gdt KERN_TASK_GDT_IDX tss_loc sizeof_tss 0 (gdt s) of
           None \<Rightarrow> None
         | Some g \<Rightarrow>
             (let s = s\<lparr>gdt := g\<rparr>;
                  old_cr3 = cr3 s;
                  cr = cr OR (old_cr3 AND 0x00000fe7);
                  s = s\<lparr>cr3 := cr\<rparr>;
                  s = s\<lparr>tr := segment_selector\<rparr>
              in Some (s\<lparr>tasks := (tasks s)(TInst KERN_TASK_ID :=
                   (tasks s (TInst KERN_TASK_ID))\<lparr>context_switch := CtxKern\<rparr>)\<rparr>)))"

section \<open>Lemmas\<close>

text \<open>Four pages.\<close>

lemma mem_alloc_frame:
  "sched_view (snd (mem_alloc s)) = sched_view s" "trace (snd (mem_alloc s)) = trace s"
  "mem (snd (mem_alloc s)) = mem s"
  by (cases s rule: mem_alloc_cases; simp add: sched_view_def)+

lemma mem_alloc_task_frame [simp]:
  "gdt (snd (mem_alloc s)) = gdt s" "task_id_counter (snd (mem_alloc s)) = task_id_counter s"
  by (cases s rule: mem_alloc_cases; simp)+

lemma mem_alloc_page:
  assumes "mem_alloc s = (p, s')" and "p \<noteq> 0"
  shows "\<exists>i < MAX_HEAP_PAGES. p = page_addr i \<and> i \<notin> used_pages s \<and> used_pages s' = insert i (used_pages s)"
  using assms by (cases s rule: mem_alloc_cases) (auto simp: used_pages_def)

text \<open>The state of \<^verbatim>\<open>task_init\<close> after its four allocations.\<close>

definition alloc4 :: "'a heap_state_scheme \<Rightarrow> (u32 \<times> u32 \<times> u32 \<times> u32) \<times> 'a heap_state_scheme" where
  "alloc4 s = (let (a, s) = mem_alloc s; (b, s) = mem_alloc s; (c, s) = mem_alloc s; (d, s) = mem_alloc s
     in ((a, b, c, d), s))"

lemma alloc4_pages:
  assumes "alloc4 s = ((a, b, c, d), s')" and "a \<noteq> 0" "b \<noteq> 0" "c \<noteq> 0" "d \<noteq> 0"
  shows "\<exists>i j k l. a = page_addr i \<and> b = page_addr j \<and> c = page_addr k \<and> d = page_addr l
    \<and> {i, j, k, l} \<subseteq> {..<MAX_HEAP_PAGES} \<and> distinct [i, j, k, l]
    \<and> {i, j, k, l} \<inter> used_pages s = {} \<and> used_pages s' = used_pages s \<union> {i, j, k, l}"
proof -
  obtain s1 s2 s3 where m: "mem_alloc s = (a, s1)" "mem_alloc s1 = (b, s2)" "mem_alloc s2 = (c, s3)"
    "mem_alloc s3 = (d, s')"
    using assms(1) by (auto simp: alloc4_def Let_def split: prod.splits)
  from mem_alloc_page [OF m(1) assms(2)] mem_alloc_page [OF m(2) assms(3)]
    mem_alloc_page [OF m(3) assms(4)] mem_alloc_page [OF m(4) assms(5)]
  obtain i j k l where i: "i < MAX_HEAP_PAGES" "a = page_addr i" "i \<notin> used_pages s"
      "used_pages s1 = insert i (used_pages s)"
    and j: "j < MAX_HEAP_PAGES" "b = page_addr j" "j \<notin> used_pages s1"
      "used_pages s2 = insert j (used_pages s1)"
    and k: "k < MAX_HEAP_PAGES" "c = page_addr k" "k \<notin> used_pages s2"
      "used_pages s3 = insert k (used_pages s2)"
    and l: "l < MAX_HEAP_PAGES" "d = page_addr l" "l \<notin> used_pages s3"
      "used_pages s' = insert l (used_pages s3)"
    by blast
  have "{i, j, k, l} \<subseteq> {..<MAX_HEAP_PAGES}" using i(1) j(1) k(1) l(1) by simp
  moreover have "distinct [i, j, k, l]" using i(4) j(3,4) k(3,4) l(3) by auto
  moreover have "{i, j, k, l} \<inter> used_pages s = {}" using i(3,4) j(3,4) k(3,4) l(3) by simp
  moreover have "used_pages s' = used_pages s \<union> {i, j, k, l}" using i(4) j(4) k(4) l(4) by auto
  ultimately show ?thesis using i(2) j(2) k(2) l(2) by blast
qed

lemma alloc4_steps:
  assumes "alloc4 s = ((a, b, c, d), s')"
  obtains s1 s2 s3 where "mem_alloc s = (a, s1)" "mem_alloc s1 = (b, s2)" "mem_alloc s2 = (c, s3)"
    "mem_alloc s3 = (d, s')"
  using assms by (auto simp: alloc4_def Let_def split: prod.splits)

lemma alloc4_frame:
  assumes "alloc4 s = ((a, b, c, d), s')"
  shows "sched_view s' = sched_view s" "trace s' = trace s" "mem s' = mem s"
proof -
  obtain s1 s2 s3 where m: "mem_alloc s = (a, s1)" "mem_alloc s1 = (b, s2)" "mem_alloc s2 = (c, s3)"
    "mem_alloc s3 = (d, s')" by (rule alloc4_steps [OF assms])
  show "sched_view s' = sched_view s" "trace s' = trace s" "mem s' = mem s"
    using mem_alloc_frame [of s] mem_alloc_frame [of s1] mem_alloc_frame [of s2] mem_alloc_frame [of s3]
    by (simp_all add: m)
qed

lemma alloc4_task_frame:
  assumes "alloc4 s = ((a, b, c, d), s')"
  shows "gdt s' = gdt s" "task_id_counter s' = task_id_counter s"
proof -
  obtain s1 s2 s3 where m: "mem_alloc s = (a, s1)" "mem_alloc s1 = (b, s2)" "mem_alloc s2 = (c, s3)"
    "mem_alloc s3 = (d, s')" by (rule alloc4_steps [OF assms])
  show "gdt s' = gdt s" "task_id_counter s' = task_id_counter s"
    using mem_alloc_task_frame [of s] mem_alloc_task_frame [of s1] mem_alloc_task_frame [of s2]
      mem_alloc_task_frame [of s3] by (simp_all add: m)
qed

text \<open>\<^verbatim>\<open>task_init\<close> in closed form.\<close>

definition new_task_of :: "u16 \<Rightarrow> u32 \<Rightarrow> task \<Rightarrow> task" where
  "new_task_of tid pd k = k\<lparr>task_id := tid, context_switch_func := switch_code tid,
     context_switch := CtxOwn, tss_of := task_tss pd (tss_of k)\<rparr>"

lemma task_init_eq:
  assumes "alloc4 s = ((pd, pt, new, stk), s4)"
  shows "task_init data_base s =
    (if pd = 0 \<or> pt = 0 \<or> new = 0 \<or> stk = 0 then None
     else case init_gdt (ucast (task_id_counter s) + GDT_IDX_OFS) (tss_addr new) sizeof_tss 3 (gdt s) of
       None \<Rightarrow> None
     | Some g \<Rightarrow>
         (let u = s4\<lparr>mem := task_page_table pt data_base stk (task_page_directory pd pt (mem s4)),
              task_id_counter := task_id_counter s + 1, gdt := g\<rparr>
          in Some (snd (sched_runq_enq (THeap new) (u\<lparr>tasks := (tasks u)(THeap new :=
               new_task_of (task_id_counter s) pd (tasks u (THeap new)))\<rparr>)))))"
proof -
  obtain s1 s2 s3 where m: "mem_alloc s = (pd, s1)" "mem_alloc s1 = (pt, s2)" "mem_alloc s2 = (new, s3)"
    "mem_alloc s3 = (stk, s4)" by (rule alloc4_steps [OF assms])
  note F = alloc4_task_frame [OF assms]
  show ?thesis
    by (simp add: task_init_def m F Let_def new_task_of_def split: option.splits)
qed

text \<open>The state at boot: an empty heap and the descriptor table of \<^verbatim>\<open>sys.S\<close>.\<close>

definition boot_task :: task_state where
  "boot_task = heap_state.extend boot_heap (task_state.fields gdt_initial 1 tss_zero 0)"

lemma boot_task_fields:
  "sTopAddr boot_task = 0" "sTotalSize boot_task = 0" "heap_alloc_table boot_task = (\<lambda>_. 0)"
  "gdt boot_task = gdt_initial" "task_id_counter boot_task = 1"
  by (simp_all add: boot_task_def boot_heap_def task_state.defs heap_state.defs con_state.defs)

end
