(* ===== verification/Task_Props.thy ===== *)
theory Task_Props
  imports Task
begin

text \<open>
  What starting a task achieves: it is runnable, the jump in its switch code selects the descriptor
  of its own task state segment, and its address space holds the kernel, its program and its stack.
\<close>

section \<open>The new task in the scheduler\<close>

lemma unat_u16_bound: "unat (x :: u16) < 65536"
  using unsigned_less [of x] by simp

lemma small_ids:
  assumes "unat (ucast (tid :: u16) + GDT_IDX_OFS) < 8"
  shows "tid \<in> {0, 1, 2, 3, 4}" "unat (ucast tid + GDT_IDX_OFS) = unat tid + 3"
proof -
  have "unat (ucast tid + GDT_IDX_OFS :: u32) = unat tid + 3"
    using unat_u16_bound [of tid]
    by (simp add: GDT_IDX_OFS_def unat_word_ariths unsigned_ucast_eq take_bit_nat_eq_self)
  then show "unat (ucast tid + GDT_IDX_OFS :: u32) = unat tid + 3" .
  with assms have "unat tid < 5" by simp
  then have "unat tid \<in> {0, 1, 2, 3, 4}" by auto
  then have "of_nat (unat tid) \<in> (of_nat ` {0, 1, 2, 3, 4} :: u16 set)" by (rule imageI)
  then show "tid \<in> {0, 1, 2, 3, 4}" by simp
qed

lemma switch_selector:
  assumes "tid \<in> {0, 1, 2, 3, 4}"
  shows "own_selector (new_task_of tid pd k) = 8 * (tid + 3)"
  using assms
  by (auto simp: own_selector_def new_task_of_def switch_code_def context_switch_template_def
      CONTEXT_SWITCH_FN_SIZE_def CONTEXT_SWITCH_FN_TSKNO_FIELD_def)

lemma tasks_enq_fields:
  "context_switch_func (tasks (snd (sched_runq_enq t s)) p) = context_switch_func (tasks s p)"
  "tss_of (tasks (snd (sched_runq_enq t s)) p) = tss_of (tasks s p)"
  using payloads_frame(1) [of t s] by (metis payloads_def payload_fields)+

lemma runq_enq_task_frame [simp]:
  "gdt (snd (sched_runq_enq t s)) = gdt s" "mem (snd (sched_runq_enq t s)) = mem s"
  "task_id_counter (snd (sched_runq_enq t s)) = task_id_counter s"
  "heap_alloc_table (snd (sched_runq_enq t s)) = heap_alloc_table s"
  by (simp_all add: sched_runq_enq_eq)

text \<open>Every started task lives in a page that is in use.\<close>

definition tasks_in_pages :: "'a heap_state_scheme \<Rightarrow> tptr set \<Rightarrow> bool" where
  "tasks_in_pages s A \<longleftrightarrow> (\<forall>t \<in> A. \<exists>i \<in> used_pages s. t = THeap (page_addr i))"

lemma page_addr_inj: "i < MAX_HEAP_PAGES \<Longrightarrow> j < MAX_HEAP_PAGES \<Longrightarrow> page_addr i = page_addr j \<longleftrightarrow> i = j"
  by (metis page_addr_index(3))

lemma used_pages_bound: "i \<in> used_pages s \<Longrightarrow> i < MAX_HEAP_PAGES"
  by (simp add: used_pages_def)

lemma task_init_result:
  assumes "task_init d s = Some s'" and len: "length (gdt s) = GDT_SIZE"
  obtains i j k l s4 g where "alloc4 s = ((page_addr i, page_addr j, page_addr k, page_addr l), s4)"
    "{i, j, k, l} \<subseteq> {..<MAX_HEAP_PAGES}" "distinct [i, j, k, l]" "{i, j, k, l} \<inter> used_pages s = {}"
    "used_pages s4 = used_pages s \<union> {i, j, k, l}" "task_id_counter s \<in> {0, 1, 2, 3, 4}"
    "init_gdt (ucast (task_id_counter s) + GDT_IDX_OFS) (tss_addr (page_addr k)) sizeof_tss 3 (gdt s) = Some g"
    "s' = (let u = s4\<lparr>mem := task_page_table (page_addr j) d (page_addr l)
             (task_page_directory (page_addr i) (page_addr j) (mem s4)),
             task_id_counter := task_id_counter s + 1, gdt := g\<rparr>
           in snd (sched_runq_enq (THeap (page_addr k)) (u\<lparr>tasks := (tasks u)(THeap (page_addr k) :=
             new_task_of (task_id_counter s) (page_addr i) (tasks u (THeap (page_addr k))))\<rparr>)))"
proof -
  obtain pd pt new stk s4 where a: "alloc4 s = ((pd, pt, new, stk), s4)" by (metis surj_pair)
  note E = assms(1) [unfolded task_init_eq [OF a]]
  from E have nz: "pd \<noteq> 0" "pt \<noteq> 0" "new \<noteq> 0" "stk \<noteq> 0" by (auto split: if_splits)
  from E nz obtain g where g: "init_gdt (ucast (task_id_counter s) + GDT_IDX_OFS) (tss_addr new) sizeof_tss 3 (gdt s) = Some g"
    by (auto split: option.splits)
  then have "unat (ucast (task_id_counter s) + GDT_IDX_OFS) < 8"
    using len by (auto simp: init_gdt_def GDT_SIZE_def split: if_splits)
  note id = small_ids(1) [OF this]
  from E nz g have s': "s' = (let u = s4\<lparr>mem := task_page_table pt d stk (task_page_directory pd pt (mem s4)),
             task_id_counter := task_id_counter s + 1, gdt := g\<rparr>
           in snd (sched_runq_enq (THeap new) (u\<lparr>tasks := (tasks u)(THeap new :=
             new_task_of (task_id_counter s) pd (tasks u (THeap new)))\<rparr>)))" by (simp add: Let_def)
  from alloc4_pages [OF a nz] show ?thesis
  proof (elim exE conjE)
    fix i j k l
    assume ad: "pd = page_addr i" "pt = page_addr j" "new = page_addr k" "stk = page_addr l"
      and pages: "{i, j, k, l} \<subseteq> {..<MAX_HEAP_PAGES}" "distinct [i, j, k, l]"
        "{i, j, k, l} \<inter> used_pages s = {}" "used_pages s4 = used_pages s \<union> {i, j, k, l}"
    show ?thesis
  proof (rule that)
    show "alloc4 s = ((page_addr i, page_addr j, page_addr k, page_addr l), s4)" using a by (simp only: ad)
    show "init_gdt (ucast (task_id_counter s) + GDT_IDX_OFS) (tss_addr (page_addr k)) sizeof_tss 3 (gdt s) = Some g"
      using g by (simp only: ad)
    show "s' = (let u = s4\<lparr>mem := task_page_table (page_addr j) d (page_addr l)
             (task_page_directory (page_addr i) (page_addr j) (mem s4)),
             task_id_counter := task_id_counter s + 1, gdt := g\<rparr>
           in snd (sched_runq_enq (THeap (page_addr k)) (u\<lparr>tasks := (tasks u)(THeap (page_addr k) :=
             new_task_of (task_id_counter s) (page_addr i) (tasks u (THeap (page_addr k))))\<rparr>)))"
      using s' by (simp only: ad)
  qed (rule pages id)+
  qed
qed

text \<open>
  What \<^verbatim>\<open>task_init\<close> installs for a task in page \<open>k\<close> with page directory in page \<open>i\<close>: its selector, its page
  directory, and a descriptor that is present; nothing else of the table and of the other tasks changes.
\<close>

definition task_installed :: "'a task_state_scheme \<Rightarrow> 'a task_state_scheme \<Rightarrow> nat \<Rightarrow> nat \<Rightarrow> bool" where
  "task_installed s s' i k \<longleftrightarrow>
     (let t = THeap (page_addr k); n = unat (task_id_counter s) + 3
      in own_selector (tasks s' t) = 8 * (task_id_counter s + 3)
       \<and> tss_cr3 (tss_of (tasks s' t)) = page_addr i OR 0x18
       \<and> descriptor_base (gdt s' ! n) = tss_addr (page_addr k)
       \<and> sd_type (gdt s' ! n) = 9 \<and> sd_p (gdt s' ! n) = 1 \<and> sd_s (gdt s' ! n) = sd_s (gdt s ! n)
       \<and> length (gdt s') = GDT_SIZE \<and> task_id_counter s' = task_id_counter s + 1
       \<and> (\<forall>m. m \<noteq> n \<longrightarrow> gdt s' ! m = gdt s ! m)
       \<and> (\<forall>t'. t' \<noteq> t \<longrightarrow> own_selector (tasks s' t') = own_selector (tasks s t') \<and> tss_of (tasks s' t') = tss_of (tasks s t')))"

lemma installs_task:
  assumes id: "task_id_counter s \<in> {0, 1, 2, 3, 4}" and len: "length (gdt s) = GDT_SIZE"
    and g: "init_gdt (ucast (task_id_counter s) + GDT_IDX_OFS) (tss_addr (page_addr k)) sizeof_tss 3 (gdt s) = Some g"
    and u: "tasks u = tasks s" "gdt u = g" "task_id_counter u = task_id_counter s + 1"
    and s': "s' = snd (sched_runq_enq (THeap (page_addr k)) (u\<lparr>tasks := (tasks u)(THeap (page_addr k) :=
      new_task_of (task_id_counter s) (page_addr i) (tasks u (THeap (page_addr k))))\<rparr>))"
  shows "task_installed s s' i k"
proof -
  have idx: "unat (ucast (task_id_counter s) + GDT_IDX_OFS) < length (gdt s)"
    using g by (auto simp: init_gdt_def split: if_splits)
  have e: "unat (ucast (task_id_counter s) + GDT_IDX_OFS) = unat (task_id_counter s) + 3"
    by (rule small_ids(2)) (use idx len in \<open>simp add: GDT_SIZE_def\<close>)
  note G = init_gdt_decodes [OF idx, of "tss_addr (page_addr k)" sizeof_tss 3, unfolded e]
  have "own_selector (tasks s' (THeap (page_addr k))) = 8 * (task_id_counter s + 3)"
    using switch_selector [OF id, of "page_addr i" "tasks u (THeap (page_addr k))"]
    by (simp add: s' own_selector_def tasks_enq_fields)
  moreover have "tss_cr3 (tss_of (tasks s' (THeap (page_addr k)))) = page_addr i OR 0x18"
    by (simp add: s' tasks_enq_fields new_task_of_def task_tss_def)
  moreover have "gdt s' = g" by (simp add: s' u(2))
  moreover have "\<forall>t. t \<noteq> THeap (page_addr k) \<longrightarrow> own_selector (tasks s' t) = own_selector (tasks s t)
      \<and> tss_of (tasks s' t) = tss_of (tasks s t)" by (simp add: s' own_selector_def tasks_enq_fields u(1))
  moreover have "task_id_counter s' = task_id_counter s + 1" by (simp add: s' u(3))
  ultimately show ?thesis using G g len by (auto simp: task_installed_def Let_def GDT_SIZE_def)
qed

lemma task_init_pages:
  assumes init: "task_init d s = Some s'" and len: "length (gdt s) = GDT_SIZE"
    and inv: "sched_inv s rs ws es" and own: "tasks_in_pages s (set (rs @ ws @ es))"
  obtains i j k l where "{i, j, k, l} \<subseteq> {..<MAX_HEAP_PAGES}" "distinct [i, j, k, l]"
    "{i, j, k, l} \<inter> used_pages s = {}" "used_pages s' = used_pages s \<union> {i, j, k, l}"
    "sched_inv s' (rs @ [THeap (page_addr k)]) ws es" "task_id_counter s \<in> {0, 1, 2, 3, 4}"
    "task_installed s s' i k"
proof (rule task_init_result [OF init len], goal_cases)
  case (1 i j k l s4 g)
  define u where "u = s4\<lparr>mem := task_page_table (page_addr j) d (page_addr l)
             (task_page_directory (page_addr i) (page_addr j) (mem s4)),
             task_id_counter := task_id_counter s + 1, gdt := g\<rparr>"
  define t where "t = new_task_of (task_id_counter s) (page_addr i) (tasks u (THeap (page_addr k)))"
  have s': "s' = snd (sched_runq_enq (THeap (page_addr k)) (u\<lparr>tasks := (tasks u)(THeap (page_addr k) := t)\<rparr>))"
    using 1(9) by (simp add: u_def t_def Let_def)
  have u: "sched_view u = sched_view s" "trace u = trace s"
    using alloc4_frame(1,2) [OF 1(2)] by (simp_all add: u_def sched_view_def)
  then have inv_u: "sched_inv u rs ws es" using sched_inv_cong [of u s] inv by simp
  have "k \<notin> used_pages s" "k < MAX_HEAP_PAGES" using 1(3,5) by auto
  then have new: "THeap (page_addr k) \<notin> set (rs @ ws @ es)"
    using own page_addr_inj used_pages_bound unfolding tasks_in_pages_def by (metis tptr.inject(2))
  show thesis
  proof (rule 1(1) [OF 1(3-5) _ _ 1(7)])
    show "used_pages s' = used_pages s \<union> {i, j, k, l}" using 1(6) by (simp add: s' used_pages_def u_def)
    show "sched_inv s' (rs @ [THeap (page_addr k)]) ws es"
      unfolding s' by (rule start_inv [OF inv_u new]) (simp_all add: t_def new_task_of_def)
    have "tasks u = tasks s" using u(1) by (simp add: sched_view_def)
    then show "task_installed s s' i k"
      by (rule installs_task [OF 1(7) len 1(8)]) (simp_all add: s' t_def, simp_all add: u_def)
  qed
qed

lemma task_init_inv:
  assumes init: "task_init d s = Some s'" and len: "length (gdt s) = GDT_SIZE"
    and inv: "sched_inv s rs ws es" and own: "tasks_in_pages s (set (rs @ ws @ es))"
  shows "\<exists>k. k \<notin> used_pages s \<and> k < MAX_HEAP_PAGES
    \<and> sched_inv s' (rs @ [THeap (page_addr k)]) ws es
    \<and> tasks_in_pages s' (set ((rs @ [THeap (page_addr k)]) @ ws @ es))
    \<and> own_selector (tasks s' (THeap (page_addr k))) = 8 * (task_id_counter s + 3)
    \<and> descriptor_base (gdt s' ! (unat (task_id_counter s) + 3)) = tss_addr (page_addr k)
    \<and> length (gdt s') = GDT_SIZE \<and> task_id_counter s' = task_id_counter s + 1"
proof (rule task_init_pages [OF assms], goal_cases)
  case (1 i j k l)
  then have "tasks_in_pages s' (set ((rs @ [THeap (page_addr k)]) @ ws @ es))"
    using own by (auto simp: tasks_in_pages_def)
  with 1 show ?case by (intro exI [of _ k]) (auto simp: task_installed_def Let_def)
qed

section \<open>The address space of a task\<close>

lemma task_table_entry:
  assumes "e < 0x400"
  shows "read32 (task_page_table pt d stk m) (pt + of_nat (4 * e)) =
    (if e = 0 then pte_user (drop_bit 12 d) else if e = 1 then pte_user (drop_bit 12 stk) else 0)"
proof -
  define a where "a = pt + of_nat (4 * e)"
  have "read32 (put_entries pt f is m) a = (if e \<in> set is then f e else read32 m a)"
    if "\<forall>j \<in> set is. j < 0x40000" "distinct is" for f "is" m
    using put_entries_read [of e "is" pt f m] assms that by (simp add: a_def)
  then show ?thesis
    using assms unfolding a_def [symmetric] by (simp add: task_page_table_def del: upt_rec_numeral)
qed

lemma task_directory_entry:
  assumes "e < 0x400"
  shows "read32 (task_page_directory pd pt m) (pd + of_nat (4 * e)) =
    (if e = 0 then pde_kernel else if e = 0x080 then pde_user (drop_bit 12 pt) else 0)"
proof -
  define a where "a = pd + of_nat (4 * e)"
  have "read32 (put_entries pd f is m) a = (if e \<in> set is then f e else read32 m a)"
    if "\<forall>j \<in> set is. j < 0x40000" "distinct is" for f "is" m
    using put_entries_read [of e "is" pd f m] assms that by (simp add: a_def)
  then show ?thesis
    using assms unfolding a_def [symmetric] by (simp add: task_page_directory_def del: upt_rec_numeral)
qed

lemma task_table_apart:
  assumes "q + 4 \<le> unat pt \<or> unat pt + 0x1000 \<le> q" and "unat pt + 0x1000 \<le> 2 ^ 32" and "q + 4 \<le> 2 ^ 32"
  shows "read32 (task_page_table pt d stk m) (of_nat q) = read32 m (of_nat q)"
proof -
  have "read32 (put_entries pt f is m) (of_nat q) = read32 m (of_nat q)" if "set is \<subseteq> {..<0x400}" for f "is" m
    by (rule put_entries_apart) (use assms that in \<open>fastforce+\<close>)
  then show ?thesis by (simp add: task_page_table_def atLeastLessThan_upt [symmetric] subset_iff del: upt_rec_numeral)
qed

lemma task_directory_below:
  assumes "q + 4 \<le> unat pd" and "unat pd + 0x2000 \<le> 2 ^ 32"
  shows "read32 (task_page_directory pd pt m) (of_nat q) = read32 m (of_nat q)"
proof -
  have "read32 (put_entries pd f is m) (of_nat q) = read32 m (of_nat q)" if "set is \<subseteq> {..<0x401}" for f "is" m
    by (rule put_entries_apart) (use assms that in \<open>fastforce+\<close>)
  then show ?thesis by (simp add: task_page_directory_def atLeastLessThan_upt [symmetric] subset_iff del: upt_rec_numeral)
qed

text \<open>The words of a task's tables, in pages \<open>i\<close> and \<open>j\<close> of the heap.\<close>

lemma heap_page_range:
  assumes "i < MAX_HEAP_PAGES"
  shows "unat (page_addr i) = 0x100000 + i * 0x1000" "unat (page_addr i) + 0x2000 \<le> 2 ^ 32"
  using page_addr_index(1) [OF assms] assms by (auto simp: MAX_HEAP_PAGES_def)

lemma task_tables:
  assumes ij: "i < MAX_HEAP_PAGES" "j < MAX_HEAP_PAGES" "i \<noteq> j"
    and m': "m' = task_page_table (page_addr j) d stk (task_page_directory (page_addr i) (page_addr j) m)"
  shows "e < 0x400 \<Longrightarrow> read32 m' (page_addr i + of_nat (4 * e)) =
      (if e = 0 then pde_kernel else if e = 0x080 then pde_user (drop_bit 12 (page_addr j)) else 0)"
    and "e < 0x400 \<Longrightarrow> read32 m' (page_addr j + of_nat (4 * e)) =
      (if e = 0 then pte_user (drop_bit 12 d) else if e = 1 then pte_user (drop_bit 12 stk) else 0)"
    and "e < 0x400 \<Longrightarrow> read32 m' (0x00090000 + of_nat (4 * e)) = read32 m (0x00090000 + of_nat (4 * e))"
proof -
  note R = heap_page_range [OF ij(1)] heap_page_range [OF ij(2)]
  show "e < 0x400 \<Longrightarrow> read32 m' (page_addr j + of_nat (4 * e)) =
      (if e = 0 then pte_user (drop_bit 12 d) else if e = 1 then pte_user (drop_bit 12 stk) else 0)"
    unfolding m' by (rule task_table_entry)
  have "read32 m' (of_nat (unat (page_addr i) + 4 * e)) =
      read32 (task_page_directory (page_addr i) (page_addr j) m) (of_nat (unat (page_addr i) + 4 * e))"
    if "e < 0x400"
    unfolding m' by (rule task_table_apart) (use R ij(3) that in \<open>cases "i < j"; simp\<close>)+
  then show "e < 0x400 \<Longrightarrow> read32 m' (page_addr i + of_nat (4 * e)) =
      (if e = 0 then pde_kernel else if e = 0x080 then pde_user (drop_bit 12 (page_addr j)) else 0)"
    using task_directory_entry [of e "page_addr i" "page_addr j" m] by (simp del: of_nat_mult)
  have "read32 m' (of_nat (0x90000 + 4 * e)) = read32 m (of_nat (0x90000 + 4 * e))" if "e < 0x400"
    unfolding m' using R that
    by (subst task_table_apart, simp, simp, simp, subst task_directory_below) simp_all
  then show "e < 0x400 \<Longrightarrow> read32 m' (0x00090000 + of_nat (4 * e)) = read32 m (0x00090000 + of_nat (4 * e))"
    by simp
qed

text \<open>What user code can reach: both entries must have the user bit too.\<close>

definition user_translate :: "(u32 \<Rightarrow> u8) \<Rightarrow> u32 \<Rightarrow> u32 \<Rightarrow> u32 option" where
  "user_translate m pd v =
     (let pde = read32 m (pd + 4 * drop_bit 22 v)
      in if \<not> bit pde 0 \<or> \<not> bit pde 2 then None
         else let pte = read32 m (push_bit 12 (drop_bit 12 pde) + 4 * (drop_bit 12 v AND mask 10))
              in if \<not> bit pte 0 \<or> \<not> bit pte 2 then None
                 else Some (push_bit 12 (drop_bit 12 pte) OR (v AND mask 12)))"

text \<open>The page of \<open>a\<close> with the offset of \<open>v\<close>.\<close>

definition in_page :: "u32 \<Rightarrow> u32 \<Rightarrow> u32" where
  "in_page a v = (a AND NOT (mask 12)) OR (v AND mask 12)"

text \<open>The part of the kernel's page table its directory uses.\<close>

definition kernel_table :: "(u32 \<Rightarrow> u8) \<Rightarrow> bool" where
  "kernel_table m \<longleftrightarrow> (\<forall>e < 0x400. read32 m (0x00090000 + of_nat (4 * e)) = kernel_entry e)"

lemma mem_init_kernel_table: "kernel_table (snd (mem_init (c, m)))"
  unfolding kernel_table_def by (intro allI impI mem_init_entry) simp

lemma user_entry_fields:
  "bit (pde_user b) 0" "bit (pde_user b) 2" "bit (pte_user b) 0" "bit (pte_user b) 2"
  "drop_bit 12 (pde_user b) = b AND mask 20" "drop_bit 12 (pte_user b) = b AND mask 20"
  by (simp_all add: pde_user_def pte_user_def set_pt_base_def set_page_base_def set_pte_r_w_def
      set_pte_u_s_def set_pte_p_def set_field_def bit_simps)
    (rule bit_word_eqI; auto simp: bit_simps)+

lemma page_bits: "push_bit 12 (drop_bit 12 a AND mask 20) = a AND NOT (mask 12)" for a :: u32
  by (rule bit_word_eqI) (auto simp: bit_simps)

lemma page_addr_aligned:
  assumes "i < MAX_HEAP_PAGES"
  shows "page_addr i AND NOT (mask 12) = page_addr i" "(page_addr i OR 0x18) AND NOT (mask 12) = page_addr i"
proof -
  have p: "page_addr i = push_bit 12 (0x100 + of_nat i)"
    by (simp add: page_addr_def HEAP_START_ADDR_def PAGE_SIZE_def push_bit_eq_mult algebra_simps)
  show "page_addr i AND NOT (mask 12) = page_addr i"
    unfolding p by (rule bit_word_eqI) (auto simp: bit_simps)
  have "(0x18 :: u32) AND NOT (mask 12) = 0" by (simp add: mask_eq_exp_minus_1)
  then show "(page_addr i OR 0x18) AND NOT (mask 12) = page_addr i"
    using \<open>page_addr i AND NOT (mask 12) = page_addr i\<close> by (simp add: bit.conj_disj_distrib2)
qed

text \<open>The parts of an address.\<close>

lemma address_parts:
  defines "d \<equiv> \<lambda>v :: u32. unat (drop_bit 22 v)" and "t \<equiv> \<lambda>v :: u32. unat (drop_bit 12 v AND mask 10)"
  shows "d v < 0x400" "t v < 0x400" "unat (drop_bit 12 v) = 0x400 * d v + t v"
    "4 * drop_bit 22 v = of_nat (4 * d v)" "4 * (drop_bit 12 v AND mask 10) = of_nat (4 * t v)"
proof -
  show "d v < 0x400" using unat_u32_bound [of v]
    unfolding d_def unat_drop_bit_eq by (simp add: drop_bit_eq_div)
  have t: "t v = unat (drop_bit 12 v) mod 0x400"
    unfolding t_def take_bit_eq_mask [symmetric] unsigned_take_bit_eq by (simp add: take_bit_eq_mod)
  then show "t v < 0x400" by simp
  have "d v = unat (drop_bit 12 v) div 0x400"
    unfolding d_def unat_drop_bit_eq by (simp add: drop_bit_eq_div div_mult2_eq [symmetric])
  with t show "unat (drop_bit 12 v) = 0x400 * d v + t v" by simp
qed (simp_all add: d_def t_def)

lemma translate_parts:
  "translate m pd v =
    (let pde = read32 m (pd + of_nat (4 * unat (drop_bit 22 v)))
     in if \<not> bit pde 0 then None
        else let pte = read32 m (push_bit 12 (drop_bit 12 pde) + of_nat (4 * unat (drop_bit 12 v AND mask 10)))
             in if \<not> bit pte 0 then None else Some (push_bit 12 (drop_bit 12 pte) OR (v AND mask 12)))"
  "user_translate m pd v =
    (let pde = read32 m (pd + of_nat (4 * unat (drop_bit 22 v)))
     in if \<not> bit pde 0 \<or> \<not> bit pde 2 then None
        else let pte = read32 m (push_bit 12 (drop_bit 12 pde) + of_nat (4 * unat (drop_bit 12 v AND mask 10)))
             in if \<not> bit pte 0 \<or> \<not> bit pte 2 then None
                else Some (push_bit 12 (drop_bit 12 pte) OR (v AND mask 12)))"
  unfolding translate_def user_translate_def address_parts(4,5) by (rule refl)+

lemma no_entry [simp]: "\<not> bit (0 :: u32) n"
  by simp

lemma pde_kernel_facts: "bit pde_kernel 0" "\<not> bit pde_kernel 2" "push_bit 12 (drop_bit 12 pde_kernel) = 0x00090000"
  by (simp_all add: pde_kernel_eq)

lemma kernel_translate:
  assumes "kernel_table m"
  shows "translate (snd (mem_init (c, m0))) 0x0008f000 v =
    (if unat (drop_bit 22 v) = 0 then
       (let pte = read32 m (0x00090000 + of_nat (4 * unat (drop_bit 12 v AND mask 10)))
        in if \<not> bit pte 0 then None else Some (push_bit 12 (drop_bit 12 pte) OR (v AND mask 12)))
     else None)"
proof -
  have "read32 (snd (mem_init (c, m0))) (0x00090000 + of_nat (4 * unat (drop_bit 12 v AND mask 10))) =
      read32 m (0x00090000 + of_nat (4 * unat (drop_bit 12 v AND mask 10)))"
    using assms mem_init_kernel_table [of c m0] address_parts(2) [of v] by (simp only: kernel_table_def)
  then show ?thesis
    using mem_init_directory [OF address_parts(1) [of v], of c m0]
    by (simp add: translate_parts pde_kernel_facts Let_def del: of_nat_mult)
qed

lemma split_index:
  assumes "(t :: nat) < 0x400"
  shows "0x400 * e + t = 0x20000 \<longleftrightarrow> e = 0x80 \<and> t = 0" "0x400 * e + t = 0x20001 \<longleftrightarrow> e = 0x80 \<and> t = 1"
proof -
  have *: "e = (0x400 * e + t) div 0x400" "t = (0x400 * e + t) mod 0x400" using assms by simp_all
  show "0x400 * e + t = 0x20000 \<longleftrightarrow> e = 0x80 \<and> t = 0" using * by fastforce
  show "0x400 * e + t = 0x20001 \<longleftrightarrow> e = 0x80 \<and> t = 1" using * by fastforce
qed

text \<open>Translation from the values of the two entries.\<close>

lemma translate_entries:
  assumes "read32 m (pd + of_nat (4 * unat (drop_bit 22 v))) = A"
    and "bit A 0 \<longrightarrow> read32 m (push_bit 12 (drop_bit 12 A) + of_nat (4 * unat (drop_bit 12 v AND mask 10))) = B"
  shows "translate m pd v =
      (if bit A 0 \<and> bit B 0 then Some (push_bit 12 (drop_bit 12 B) OR (v AND mask 12)) else None)"
    and "user_translate m pd v =
      (if bit A 0 \<and> bit A 2 \<and> bit B 0 \<and> bit B 2
       then Some (push_bit 12 (drop_bit 12 B) OR (v AND mask 12)) else None)"
  using assms(2) unfolding translate_parts assms(1) by (auto simp: Let_def simp del: of_nat_mult)

lemma task_translation:
  assumes ij: "i < MAX_HEAP_PAGES" "j < MAX_HEAP_PAGES" "i \<noteq> j" and m: "kernel_table m"
    and m': "m' = task_page_table (page_addr j) d stk (task_page_directory (page_addr i) (page_addr j) m)"
  shows "user_translate m' (page_addr i) v =
      (if drop_bit 12 v = 0x20000 then Some (in_page d v)
       else if drop_bit 12 v = 0x20001 then Some (in_page stk v) else None)"
    and "translate m' (page_addr i) v = (case user_translate m' (page_addr i) v of
        Some a \<Rightarrow> Some a | None \<Rightarrow> translate (snd (mem_init (c, m0))) 0x0008f000 v)"
    and "kernel_table m'"
proof -
  note T = task_tables [OF ij m']
  show "kernel_table m'" using m unfolding kernel_table_def by (intro allI impI) (subst T(3), assumption, blast)
  let ?e = "unat (drop_bit 22 v)" and ?t = "unat (drop_bit 12 v AND mask 10)"
  note parts = address_parts(1-3) [of v]
  have pages: "drop_bit 12 v = 0x20000 \<longleftrightarrow> ?e = 0x80 \<and> ?t = 0" "drop_bit 12 v = 0x20001 \<longleftrightarrow> ?e = 0x80 \<and> ?t = 1"
    using split_index [OF parts(2)] unfolding word_unat_eq_iff parts(3) by simp_all
  define pj ptd pts where "pj = pde_user (drop_bit 12 (page_addr j))"
    and "ptd = pte_user (drop_bit 12 d)" and "pts = pte_user (drop_bit 12 stk)"
  have fields: "bit pj 0" "bit pj 2" "push_bit 12 (drop_bit 12 pj) = page_addr j"
    "bit ptd 0" "bit ptd 2" "push_bit 12 (drop_bit 12 ptd) OR (v AND mask 12) = in_page d v"
    "bit pts 0" "bit pts 2" "push_bit 12 (drop_bit 12 pts) OR (v AND mask 12) = in_page stk v"
    unfolding pj_def ptd_def pts_def in_page_def user_entry_fields(5,6) page_bits
    using page_addr_aligned(1) [OF ij(2)] by (simp_all only: user_entry_fields)
  define R where "R = read32 m (0x00090000 + of_nat (4 * ?t))"
  define A B where "A = (if ?e = 0 then pde_kernel else if ?e = 0x80 then pj else 0)"
    and "B = (if ?e = 0 then R else if ?t = 0 then ptd else if ?t = 1 then pts else 0)"
  have A: "read32 m' (page_addr i + of_nat (4 * ?e)) = A"
    unfolding A_def pj_def by (rule T(1) [OF parts(1)])
  have B: "bit A 0 \<longrightarrow> read32 m' (push_bit 12 (drop_bit 12 A) + of_nat (4 * ?t)) = B"
  proof (cases "?e = 0")
    case True
    show ?thesis unfolding A_def B_def R_def if_P [OF True] pde_kernel_facts
      by (intro impI T(3) [OF parts(2)])
  next
    case False
    show ?thesis
    proof (cases "?e = 0x80")
      case e: True
      show ?thesis unfolding A_def B_def ptd_def pts_def if_not_P [OF False] if_P [OF e] fields(3)
        by (intro impI T(2) [OF parts(2)])
    qed (use False in \<open>simp add: A_def\<close>)
  qed
  note tr = translate_entries [of m' "page_addr i" v A B, OF A B]
  show user: "user_translate m' (page_addr i) v =
      (if drop_bit 12 v = 0x20000 then Some (in_page d v)
       else if drop_bit 12 v = 0x20001 then Some (in_page stk v) else None)"
    unfolding tr pages A_def B_def using fields pde_kernel_facts(2) by simp
  show "translate m' (page_addr i) v = (case user_translate m' (page_addr i) v of
      Some a \<Rightarrow> Some a | None \<Rightarrow> translate (snd (mem_init (c, m0))) 0x0008f000 v)"
    unfolding tr kernel_translate [OF m, of c m0] R_def [symmetric] A_def B_def
    using fields pde_kernel_facts(1,2) by (simp add: Let_def)
qed

section \<open>When a task can be started\<close>

definition free_pages :: "'a heap_state_scheme \<Rightarrow> nat set" where
  "free_pages s = {..<MAX_HEAP_PAGES} - used_pages s"

lemma mem_alloc_free_pages:
  assumes "mem_alloc s = (p, s')"
  shows "p = 0 \<longleftrightarrow> free_pages s = {}" "card (free_pages s') = card (free_pages s) - 1"
proof -
  have "(p = 0 \<longleftrightarrow> free_pages s = {}) \<and> card (free_pages s') = card (free_pages s) - 1"
  proof (cases s rule: mem_alloc_cases)
    case full
    then have "free_pages s = {}" by (auto simp: free_pages_def used_pages_def)
    with full assms show ?thesis by simp
  next
    case (page i)
    with assms have p: "p \<noteq> 0" "i \<in> free_pages s" "free_pages s' = free_pages s - {i}"
      using page_addr_index(2) [of i] by (auto simp: free_pages_def used_pages_def split: if_splits)
    then show ?thesis by (auto simp: card_Diff_singleton)
  qed
  then show "p = 0 \<longleftrightarrow> free_pages s = {}" "card (free_pages s') = card (free_pages s) - 1" by simp_all
qed

lemma alloc4_nonzero:
  assumes "alloc4 s = ((a, b, c, d), s')"
  shows "a \<noteq> 0 \<and> b \<noteq> 0 \<and> c \<noteq> 0 \<and> d \<noteq> 0 \<longleftrightarrow> 4 \<le> card (free_pages s)"
proof -
  obtain s1 s2 s3 where m: "mem_alloc s = (a, s1)" "mem_alloc s1 = (b, s2)" "mem_alloc s2 = (c, s3)"
    "mem_alloc s3 = (d, s')" by (rule alloc4_steps [OF assms])
  have e: "free_pages t = {} \<longleftrightarrow> card (free_pages t) = 0" for t :: "'a heap_state_scheme"
    by (simp add: free_pages_def)
  note f = mem_alloc_free_pages
  show ?thesis
    using f [OF m(1)] f [OF m(2)] f [OF m(3)] f [OF m(4)] unfolding e by linarith
qed

lemma init_gdt_some:
  assumes "length g = GDT_SIZE"
  shows "init_gdt (ucast (tid :: u16) + GDT_IDX_OFS) a n p g = None \<longleftrightarrow> 4 < unat tid"
proof -
  have "unat (ucast tid + GDT_IDX_OFS :: u32) = unat tid + 3"
    using unat_u16_bound [of tid]
    by (simp add: GDT_IDX_OFS_def unat_word_ariths unsigned_ucast_eq take_bit_nat_eq_self)
  then show ?thesis using assms by (auto simp: init_gdt_def GDT_SIZE_def)
qed

lemma task_init_fails:
  assumes "length (gdt s) = GDT_SIZE"
  shows "task_init d s = None \<longleftrightarrow> card (free_pages s) < 4 \<or> 4 < unat (task_id_counter s)"
proof -
  obtain pd pt new stk s4 where a: "alloc4 s = ((pd, pt, new, stk), s4)" by (metis surj_pair)
  have "(pd = 0 \<or> pt = 0 \<or> new = 0 \<or> stk = 0) \<longleftrightarrow> card (free_pages s) < 4"
    using alloc4_nonzero [OF a] by linarith
  then show ?thesis
    using init_gdt_some [OF assms, of "task_id_counter s" "tss_addr new" sizeof_tss 3]
    by (auto simp: task_init_eq [OF a] Let_def split: option.split)
qed

section \<open>Properties\<close>

text \<open>
  C15. Starting a task. \<^verbatim>\<open>task_init\<close> succeeds exactly when four heap pages are free and the task's number is
  at most 4. Then the new \<^verbatim>\<open>struct task\<close>, in a page that was free, is the last of the run queue, the
  other queues are unchanged and the scheduler's invariant holds; the far jump of the task's switch
  code selects descriptor \<open>id + 3\<close>, and that descriptor's base is the task's own state segment. The
  user code and data segments are descriptors 6 and 7: tasks 3 and 4 overwrite them.
\<close>

theorem task_init_starts:
  assumes "length (gdt s) = GDT_SIZE" and "sched_inv s rs ws es"
    and "tasks_in_pages s (set (rs @ ws @ es))"
  shows "if 4 \<le> card (free_pages s) \<and> unat (task_id_counter s) \<le> 4
    then \<exists>s' k. task_init d s = Some s' \<and> k \<in> free_pages s
      \<and> sched_inv s' (rs @ [THeap (page_addr k)]) ws es
      \<and> tasks_in_pages s' (set ((rs @ [THeap (page_addr k)]) @ ws @ es))
      \<and> own_selector (tasks s' (THeap (page_addr k))) = 8 * (task_id_counter s + 3)
      \<and> descriptor_base (gdt s' ! (unat (task_id_counter s) + 3)) = tss_addr (page_addr k)
      \<and> length (gdt s') = GDT_SIZE \<and> task_id_counter s' = task_id_counter s + 1
    else task_init d s = None"
proof (cases "task_init d s")
  case None
  then show ?thesis using task_init_fails [OF assms(1), of d] by auto
next
  case (Some s')
  then have "4 \<le> card (free_pages s)" "unat (task_id_counter s) \<le> 4"
    using task_init_fails [OF assms(1), of d] by auto
  with Some task_init_inv [OF Some assms] show ?thesis by (auto simp: free_pages_def)
qed

text \<open>The state \<^verbatim>\<open>kern_init\<close> starts the shell in.\<close>

definition boot_user :: task_state where
  "boot_user = boot_task\<lparr>mem := snd (mem_init (0, \<lambda>_. 0))\<rparr>"

lemma boot_user_facts:
  "length (gdt boot_user) = GDT_SIZE" "sched_inv boot_user [] [] []" "task_id_counter boot_user = 1"
  "card (free_pages boot_user) = MAX_HEAP_PAGES" "kernel_table (mem boot_user)"
proof -
  have "sched_boot boot_user"
    by (simp add: boot_user_def boot_task_def boot_heap_def sched_boot_def boot_con_def con_init_def
        boot_state_def KERN_TASK_ID_def heap_state.defs task_state.defs timer_state.defs con_state.defs Let_def)
  then show "sched_inv boot_user [] [] []" by (rule boot_inv)
  show "card (free_pages boot_user) = MAX_HEAP_PAGES"
    by (simp add: boot_user_def free_pages_def used_pages_def boot_task_fields)
  show "kernel_table (mem boot_user)" by (simp add: boot_user_def mem_init_kernel_table)
qed (simp_all add: boot_user_def boot_task_fields gdt_initial_def GDT_SIZE_def)

theorem task_init_starts_witness:
  "\<exists>s' k. task_init 0x11000 boot_user = Some s' \<and> sched_inv s' [THeap (page_addr k)] [] []
    \<and> own_selector (tasks s' (THeap (page_addr k))) = 0x20"
proof -
  have "tasks_in_pages boot_user (set ([] @ [] @ []))" by (simp add: tasks_in_pages_def)
  from task_init_starts [OF boot_user_facts(1,2) this, of "0x11000"] show ?thesis
    by (auto simp: boot_user_facts(3,4) MAX_HEAP_PAGES_def)
qed

text \<open>
  C14. The address space of a task. Under the directory \<^verbatim>\<open>task_init\<close> puts into the task's CR3, user code
  reaches exactly two pages: at 0x20000000 the page its program was loaded to, and at 0x20001000 its
  stack, a page no one else uses; its first instruction and its stack pointer lie in these. The
  kernel, when it runs on that directory, reaches these and what it reaches on its own directory.
  The page table the directories share is left as \<^verbatim>\<open>mem_init\<close> built it.
\<close>

theorem task_address_space:
  assumes "task_init d s = Some s'" and "length (gdt s) = GDT_SIZE" and "kernel_table (mem s)"
  shows "\<exists>k l. k \<in> free_pages s \<and> l \<in> free_pages s \<and> k \<noteq> l \<and> {k, l} \<subseteq> used_pages s'
    \<and> kernel_table (mem s')
    \<and> (let t = tss_of (tasks s' (THeap (page_addr k))); pd = tss_cr3 t AND NOT (mask 12)
       in (\<forall>v. user_translate (mem s') pd v =
             (if drop_bit 12 v = 0x20000 then Some (in_page d v)
              else if drop_bit 12 v = 0x20001 then Some (in_page (page_addr l) v) else None))
        \<and> (\<forall>v. translate (mem s') pd v = (case user_translate (mem s') pd v of
             Some a \<Rightarrow> Some a | None \<Rightarrow> translate (snd (mem_init (0, \<lambda>_. 0))) 0x0008f000 v))
        \<and> user_translate (mem s') pd (tss_eip t) = Some (in_page d 0x20)
        \<and> user_translate (mem s') pd (tss_esp t) = Some (in_page (page_addr l) 0x800))"
proof -
  obtain i j k l s4 g where a: "alloc4 s = ((page_addr i, page_addr j, page_addr k, page_addr l), s4)"
    and pages: "{i, j, k, l} \<subseteq> {..<MAX_HEAP_PAGES}" "distinct [i, j, k, l]" "{i, j, k, l} \<inter> used_pages s = {}"
      "used_pages s4 = used_pages s \<union> {i, j, k, l}"
    and s': "s' = (let u = s4\<lparr>mem := task_page_table (page_addr j) d (page_addr l)
             (task_page_directory (page_addr i) (page_addr j) (mem s4)),
             task_id_counter := task_id_counter s + 1, gdt := g\<rparr>
           in snd (sched_runq_enq (THeap (page_addr k)) (u\<lparr>tasks := (tasks u)(THeap (page_addr k) :=
             new_task_of (task_id_counter s) (page_addr i) (tasks u (THeap (page_addr k))))\<rparr>)))"
    using task_init_result [OF assms(1,2)] by metis
  define t where "t = tss_of (tasks s' (THeap (page_addr k)))"
  have t: "tss_cr3 t = page_addr i OR 0x18" "tss_eip t = 0x20000020" "tss_esp t = 0x20001800"
    by (simp_all add: t_def s' Let_def tasks_enq_fields new_task_of_def task_tss_def APP_ENTRY_POINT_def)
  have m': "mem s' = task_page_table (page_addr j) d (page_addr l)
      (task_page_directory (page_addr i) (page_addr j) (mem s))"
    by (simp add: s' Let_def alloc4_frame(3) [OF a])
  have used: "used_pages s' = used_pages s \<union> {i, j, k, l}"
    using pages(4) by (simp add: s' Let_def used_pages_def)
  have i: "i < MAX_HEAP_PAGES" "j < MAX_HEAP_PAGES" "i \<noteq> j" using pages(1,2) by auto
  have pd: "tss_cr3 t AND NOT (mask 12) = page_addr i" unfolding t(1) by (rule page_addr_aligned(2) [OF i(1)])
  note T = task_translation [OF i assms(3) m']
  have low: "in_page b 0x20000020 = in_page b 0x20" "in_page b 0x20001800 = in_page b 0x800" for b
    by (simp_all add: in_page_def mask_eq_exp_minus_1)
  show ?thesis
  proof (intro exI conjI)
    show "k \<in> free_pages s" "l \<in> free_pages s" "k \<noteq> l" "{k, l} \<subseteq> used_pages s'"
      using pages(1-3) used by (auto simp: free_pages_def)
    show "kernel_table (mem s')" by (rule T(3))
  qed (unfold t_def [symmetric] Let_def pd T(1) T(2) [where c = 0 and ?m0.0 = "\<lambda>_. 0"] t(2,3), simp add: low)
qed

theorem task_address_space_witness:
  "\<exists>s' k. task_init 0x11000 boot_user = Some s'
    \<and> user_translate (mem s') (tss_cr3 (tss_of (tasks s' (THeap (page_addr k)))) AND NOT (mask 12)) 0x20000123 = Some 0x11123
    \<and> user_translate (mem s') (tss_cr3 (tss_of (tasks s' (THeap (page_addr k)))) AND NOT (mask 12)) 0x8f000 = None"
proof -
  obtain s' where s': "task_init 0x11000 boot_user = Some s'"
    using task_init_fails [OF boot_user_facts(1), of "0x11000"]
    by (auto simp: boot_user_facts(3,4) MAX_HEAP_PAGES_def)
  from task_address_space [OF this boot_user_facts(1,5)] obtain k l where
    "\<forall>v. user_translate (mem s') (tss_cr3 (tss_of (tasks s' (THeap (page_addr k)))) AND NOT (mask 12)) v =
       (if drop_bit 12 v = 0x20000 then Some (in_page 0x11000 v)
        else if drop_bit 12 v = 0x20001 then Some (in_page (page_addr l) v) else None)"
    by (auto simp only: Let_def)
  then show ?thesis
    by (intro exI [of _ s'] exI [of _ k]) (simp add: s' in_page_def mask_eq_exp_minus_1)
qed

end
