(* ===== verification/Pci.thy ===== *)
theory Pci
  imports Task
begin

text \<open>
  The PCI bus, \<^verbatim>\<open>kernel/pci.c\<close>: configuration space through the address and data ports, the scan for
  devices at boot, and the list of the devices found. A list node is a block of \<^verbatim>\<open>kmalloc\<close>, a typed
  object at its address; the configuration space behind the ports is the device parameter. The
  search for a PCI BIOS, compiled only with \<^verbatim>\<open>USE_PCI_BIOS32\<close>, is in \<open>Optional\<close>.
\<close>

section \<open>State\<close>

definition PCI_CONFIG_ADDRESS :: u16 where "PCI_CONFIG_ADDRESS = 0x0cf8"
definition CONFIG_DATA_1 :: u16 where "CONFIG_DATA_1 = 0x0cfc"
definition PCI_BUS_MAX :: nat where "PCI_BUS_MAX = 255"
definition PCI_DEVICE_MAX :: nat where "PCI_DEVICE_MAX = 31"
definition PCI_FUNCTION_MAX :: nat where "PCI_FUNCTION_MAX = 7"

record pci_configuration_register =
  enable_bit :: u32
  reserved :: u32
  bus_num :: u32
  dev_num :: u32
  func_num :: u32
  reg_num :: u32
  bit0 :: u32

definition pci_register_zero :: pci_configuration_register where
  "pci_register_zero = pci_configuration_register.make 0 0 0 0 0 0 0"

record pci_device =
  pd_bus :: u8
  pd_devfn :: u8
  pd_func :: u8
  pd_vender :: u16
  pd_devid :: u16
  pd_revid :: u8
  pd_pg_if :: u8
  pd_sub_class :: u32
  pd_base_class :: u32
  pd_header_type :: u8
  pd_multi :: u8
  pd_sub_vender :: u16
  pd_sub_devid :: u16
  pd_base_address :: u32
  pd_interrupt_line :: u16

definition pci_device_zero :: pci_device where
  "pci_device_zero = pci_device.make 0 0 0 0 0 0 0 0 0 0 0 0 0 0 0"

text \<open>A node is the static head or a block of \<^verbatim>\<open>sizeof(struct pci_device_list)\<close> bytes.\<close>

datatype pptr = PHead | PNode u32

definition sizeof_pci_device_list :: u32 where "sizeof_pci_device_list = 40"

record pci_state = task_state +
  pci_data :: "u32 \<Rightarrow> pci_device"
  pci_next :: "pptr \<Rightarrow> pptr"

section \<open>Configuration space\<close>

definition write_pci_config_address ::
  "pci_configuration_register \<Rightarrow> 'a machine_scheme \<Rightarrow> 'a machine_scheme" where
  "write_pci_config_address reg s =
     (let data = push_bit 31 (enable_bit reg) OR push_bit 24 (reserved reg) OR push_bit 16 (bus_num reg)
          OR push_bit 11 (dev_num reg) OR push_bit 8 (func_num reg) OR reg_num reg
      in outl_p data PCI_CONFIG_ADDRESS s)"

definition finish_access_to_config_data ::
  "pci_configuration_register \<Rightarrow> 'a machine_scheme \<Rightarrow> pci_configuration_register \<times> 'a machine_scheme" where
  "finish_access_to_config_data reg s =
     (let reg = reg\<lparr>enable_bit := 0\<rparr> in (reg, write_pci_config_address reg s))"

definition read_pci_data :: "device \<Rightarrow> pci_configuration_register \<Rightarrow> 'a machine_scheme
    \<Rightarrow> u32 \<times> pci_configuration_register \<times> 'a machine_scheme" where
  "read_pci_data dev reg s =
     (let reg = reg\<lparr>enable_bit := 1\<rparr>;
          s = write_pci_config_address reg s;
          (data, s) = inl_p dev CONFIG_DATA_1 s
      in (data, finish_access_to_config_data reg s))"

definition write_pci_data :: "pci_configuration_register \<Rightarrow> u32 \<Rightarrow> 'a machine_scheme
    \<Rightarrow> pci_configuration_register \<times> 'a machine_scheme" where
  "write_pci_data reg data s =
     (let reg = reg\<lparr>enable_bit := 1\<rparr>;
          s = write_pci_config_address reg s;
          s = outl_p data CONFIG_DATA_1 s
      in finish_access_to_config_data reg s)"

definition read_pci_class :: "device \<Rightarrow> pci_configuration_register \<Rightarrow> 'a machine_scheme
    \<Rightarrow> u32 \<times> pci_configuration_register \<times> 'a machine_scheme" where
  "read_pci_class dev reg s = read_pci_data dev (reg\<lparr>reg_num := 0x8\<rparr>) s"

definition read_pci_reg00 :: "device \<Rightarrow> pci_configuration_register \<Rightarrow> 'a machine_scheme
    \<Rightarrow> u32 \<times> pci_configuration_register \<times> 'a machine_scheme" where
  "read_pci_reg00 dev reg s = read_pci_data dev (reg\<lparr>reg_num := 0\<rparr>) s"

definition read_pci_command_register :: "device \<Rightarrow> pci_configuration_register \<Rightarrow> 'a machine_scheme
    \<Rightarrow> u32 \<times> pci_configuration_register \<times> 'a machine_scheme" where
  "read_pci_command_register dev reg s = read_pci_data dev (reg\<lparr>reg_num := 0x4\<rparr>) s"

definition read_pci_header_type :: "device \<Rightarrow> pci_configuration_register \<Rightarrow> 'a machine_scheme
    \<Rightarrow> u32 \<times> pci_configuration_register \<times> 'a machine_scheme" where
  "read_pci_header_type dev reg s = read_pci_data dev (reg\<lparr>reg_num := 0xc\<rparr>) s"

definition read_pci_sub_system :: "device \<Rightarrow> pci_configuration_register \<Rightarrow> 'a machine_scheme
    \<Rightarrow> u32 \<times> pci_configuration_register \<times> 'a machine_scheme" where
  "read_pci_sub_system dev reg s = read_pci_data dev (reg\<lparr>reg_num := 0x2c\<rparr>) s"

definition pci_data_read :: "device \<Rightarrow> pci_device \<Rightarrow> u8 \<Rightarrow> 'a machine_scheme \<Rightarrow> u32 \<times> 'a machine_scheme" where
  "pci_data_read dev pci reg_number s =
     (let reg = pci_register_zero;
          reg = reg\<lparr>reg_num := ucast reg_number\<rparr>;
          reg = reg\<lparr>func_num := ucast (pd_func pci)\<rparr>;
          reg = reg\<lparr>dev_num := ucast (pd_devfn pci)\<rparr>;
          reg = reg\<lparr>bus_num := ucast (pd_bus pci)\<rparr>;
          (data, _, s) = read_pci_data dev reg s
      in (data, s))"

definition pci_data_write :: "pci_device \<Rightarrow> u8 \<Rightarrow> u32 \<Rightarrow> 'a machine_scheme \<Rightarrow> 'a machine_scheme" where
  "pci_data_write pci reg_number data s =
     (let reg = pci_register_zero;
          reg = reg\<lparr>reg_num := ucast reg_number\<rparr>;
          reg = reg\<lparr>func_num := ucast (pd_func pci)\<rparr>;
          reg = reg\<lparr>dev_num := ucast (pd_devfn pci)\<rparr>;
          reg = reg\<lparr>bus_num := ucast (pd_bus pci)\<rparr>
      in snd (write_pci_data reg data s))"

section \<open>The list of devices\<close>

definition is_multi_function :: "u32 \<Rightarrow> bool" where
  "is_multi_function data \<longleftrightarrow> data AND 0x800000 \<noteq> 0"

text \<open>The fields \<^verbatim>\<open>store_pci_device_to_list\<close> fills in; \<^verbatim>\<open>revid\<close> and the last two stay zero.\<close>

definition pci_device_of :: "u8 \<Rightarrow> u8 \<Rightarrow> u32 \<Rightarrow> u8 \<Rightarrow> u32 \<Rightarrow> u32 \<Rightarrow> u32 \<Rightarrow> pci_device" where
  "pci_device_of bus devfn data func class_reg header subsystem =
     pci_device_zero
       \<lparr>pd_bus := bus, pd_devfn := devfn,
        pd_vender := ucast (data AND 0xffff), pd_devid := ucast (drop_bit 16 data AND 0xffff),
        pd_pg_if := ucast (drop_bit 8 class_reg AND 0xff),
        pd_sub_class := drop_bit 16 class_reg AND 0xff,
        pd_base_class := drop_bit 24 class_reg AND 0xff,
        pd_func := func,
        pd_header_type := ucast ((drop_bit 16 header AND 0xff) AND 0x7f),
        pd_multi := (if header AND 0x800000 \<noteq> 0 then 1 else 0),
        pd_sub_vender := ucast (subsystem AND 0xffff),
        pd_sub_devid := ucast (drop_bit 16 subsystem AND 0xffff)\<rparr>"

definition store_pci_device_to_list :: "u8 \<Rightarrow> u8 \<Rightarrow> u32 \<Rightarrow> u8 \<Rightarrow> u32 \<Rightarrow> u32 \<Rightarrow> u32
    \<Rightarrow> 'a pci_state_scheme \<Rightarrow> (bool, 'a pci_state_scheme) run" where
  "store_pci_device_to_list bus devfn data func class_reg header subsystem s =
     (case kmalloc sizeof_pci_device_list s of
        Stuck s \<Rightarrow> Stuck s
      | Done p s \<Rightarrow>
          if p = 0 then Done False s
          else
            (let s = s\<lparr>pci_data := (pci_data s)
                   (p := pci_device_of bus devfn data func class_reg header subsystem)\<rparr>;
                 s = s\<lparr>pci_next := (pci_next s)(PNode p := pci_next s PHead)\<rparr>;
                 s = s\<lparr>pci_next := (pci_next s)(PHead := PNode p)\<rparr>
             in Done True s))"

section \<open>The scan\<close>

text \<open>The loop over the functions of a device; it ends early after a single-function device.\<close>

function find_pci_functions :: "device \<Rightarrow> u8 \<Rightarrow> u8 \<Rightarrow> nat \<Rightarrow> pci_configuration_register
    \<Rightarrow> 'a pci_state_scheme \<Rightarrow> (u32, 'a pci_state_scheme) run" where
  "find_pci_functions dev bus d i reg s =
     (if i < PCI_FUNCTION_MAX then
        (let reg = reg\<lparr>func_num := of_nat i\<rparr>;
             (data, reg, s) = read_pci_reg00 dev reg s
         in if data \<noteq> 0xffffffff then
              (let (class_reg, reg, s) = read_pci_class dev reg s;
                   (header, reg, s) = read_pci_header_type dev reg s;
                   (subsystem, reg, s) = read_pci_sub_system dev reg s;
                   (status, reg, s) = read_pci_command_register dev reg s
               in case store_pci_device_to_list bus d data (of_nat i) class_reg header subsystem s of
                    Stuck s \<Rightarrow> Stuck s
                  | Done b s \<Rightarrow>
                      if \<not> b then Stuck (kern_abort ''pci.c'' 284 ''find_pci_data'' ''kmalloc failed'' s)
                      else if i = 0 \<and> \<not> is_multi_function header then Done 0 s
                      else find_pci_functions dev bus d (i + 1) reg s)
            else find_pci_functions dev bus d (i + 1) reg s)
      else Done 0 s)"
  by pat_completeness auto
termination by (relation "measure (\<lambda>(_, _, _, i, _). PCI_FUNCTION_MAX - i)") auto

declare find_pci_functions.simps [simp del]

definition find_pci_data :: "device \<Rightarrow> u8 \<Rightarrow> u8 \<Rightarrow> 'a pci_state_scheme \<Rightarrow> (u32, 'a pci_state_scheme) run" where
  "find_pci_data dev bus d s =
     (let reg = pci_register_zero\<lparr>bus_num := ucast bus, dev_num := ucast d\<rparr>
      in find_pci_functions dev bus d 0 reg s)"

fun find_pci_devices :: "device \<Rightarrow> (u8 \<times> u8) list \<Rightarrow> 'a pci_state_scheme \<Rightarrow> (unit, 'a pci_state_scheme) run" where
  "find_pci_devices dev [] s = Done () s"
| "find_pci_devices dev ((bus, d) # ds) s =
     (case find_pci_data dev bus d s of
        Stuck s \<Rightarrow> Stuck s
      | Done _ s \<Rightarrow> find_pci_devices dev ds s)"

text \<open>The two nested loops run over the pairs of a bus and a device number in this order.\<close>

definition pci_slots :: "(u8 \<times> u8) list" where
  "pci_slots = concat (map (\<lambda>bus. map (\<lambda>d. (of_nat bus, of_nat d)) [0..<PCI_DEVICE_MAX]) [0..<PCI_BUS_MAX])"

definition find_pci_device :: "device \<Rightarrow> 'a pci_state_scheme \<Rightarrow> (unit, 'a pci_state_scheme) run" where
  "find_pci_device dev s =
     (let s = put_bytes (bytes_of ''pci: start init'' @ [0x0a]) s
      in find_pci_devices dev pci_slots s)"

section \<open>Using the list\<close>

text \<open>\<^const>\<open>None\<close>: the walk does not come back to the head.\<close>

partial_function (option) show_pci_loop :: "pptr \<Rightarrow> 'a pci_state_scheme \<Rightarrow> 'a pci_state_scheme option" where
  "show_pci_loop p s =
     (case p of
        PHead \<Rightarrow> Some s
      | PNode a \<Rightarrow>
          (let d = pci_data s a;
               s = printk_line ''Found Device: Bus %d:Devfn %d:Vender 0x%x:Device 0x%x:func %d:header 0x%x:Class 0x%lx-0x%lx:Multi %d''
                 [PInt (ucast (pd_bus d)), PInt (ucast (pd_devfn d)), PInt (ucast (pd_vender d)),
                  PInt (ucast (pd_devid d)), PInt (ucast (pd_func d)), PInt (ucast (pd_header_type d)),
                  PInt (pd_base_class d), PInt (pd_sub_class d), PInt (ucast (pd_multi d))] s
           in show_pci_loop (pci_next s (PNode a)) s))"

definition show_all_pci_device :: "'a pci_state_scheme \<Rightarrow> 'a pci_state_scheme option" where
  "show_all_pci_device s = show_pci_loop (pci_next s PHead) s"

definition pci_matches :: "u16 \<Rightarrow> u16 \<Rightarrow> u8 \<Rightarrow> pci_device \<Rightarrow> bool" where
  "pci_matches vender device_id function_nr d \<longleftrightarrow>
     pd_vender d = vender \<and> pd_devid d = device_id \<and> pd_func d = function_nr"

partial_function (option) get_pci_loop ::
  "u16 \<Rightarrow> u16 \<Rightarrow> u8 \<Rightarrow> 'a pci_state_scheme \<Rightarrow> pptr \<Rightarrow> u32 option option" where
  "get_pci_loop vender device_id function_nr s p =
     (case p of
        PHead \<Rightarrow> Some None
      | PNode a \<Rightarrow>
          if pci_matches vender device_id function_nr (pci_data s a) then Some (Some a)
          else get_pci_loop vender device_id function_nr s (pci_next s (PNode a)))"

definition get_pci_device :: "u16 \<Rightarrow> u16 \<Rightarrow> u8 \<Rightarrow> 'a pci_state_scheme \<Rightarrow> u32 option option" where
  "get_pci_device vender device_id function_nr s =
     get_pci_loop vender device_id function_nr s (pci_next s PHead)"

text \<open>\<^verbatim>\<open>pci_resolve_bar\<close> is not implemented: it stops the kernel.\<close>

definition pci_resolve_bar :: "pci_device \<Rightarrow> u32 \<Rightarrow> 'a pci_state_scheme \<Rightarrow> ('v, 'a pci_state_scheme) run" where
  "pci_resolve_bar pci val s = Stuck (kern_abort ''pci.c'' 399 ''pci_resolve_bar'' ''not implemented'' s)"

end
