(* ===== verification/Blk.thy ===== *)
theory Blk
  imports Pci
begin

text \<open>
  The list of block drivers, \<^verbatim>\<open>kernel/block_driver.c\<close>. A node is a block of \<^verbatim>\<open>kmalloc\<close>; the operations
  of a driver are the static object at the address \<open>op\<close>, which starts with its name.
\<close>

section \<open>Model\<close>

datatype bptr = BHead | BNode u32

definition sizeof_blk_device_drivers :: u32 where "sizeof_blk_device_drivers = 8"
definition SECTOR_SIZE :: u32 where "SECTOR_SIZE = 256"

record blk_state = pci_state +
  blk_op :: "bptr \<Rightarrow> u32"
  blk_next :: "bptr \<Rightarrow> bptr"

text \<open>
  The operations of a driver are functions of the state. Its name is read from memory, at the address
  of the static object; \<^verbatim>\<open>ioctl\<close> and \<^verbatim>\<open>scattered_io\<close> are null pointers in every driver.
\<close>

record 's blk_dev_driver_operations =
  op_open :: "'s \<Rightarrow> (int \<times> 's) option"
  op_close :: "'s \<Rightarrow> (int \<times> 's) option"
  op_read :: "int \<Rightarrow> u32 \<Rightarrow> u32 \<Rightarrow> u32 \<Rightarrow> 's \<Rightarrow> (int, 's) run"
  op_write :: "int \<Rightarrow> u32 \<Rightarrow> u32 \<Rightarrow> u32 \<Rightarrow> 's \<Rightarrow> int \<times> 's"

definition register_blk_driver :: "u32 \<Rightarrow> 'a blk_state_scheme \<Rightarrow> (unit, 'a blk_state_scheme) run" where
  "register_blk_driver op s =
     (case kmalloc sizeof_blk_device_drivers s of
        Stuck s \<Rightarrow> Stuck s
      | Done p s \<Rightarrow>
          if p = 0 then Stuck (kern_abort ''block_driver.c'' 22 ''register_blk_driver'' ''kmalloc failed'' s)
          else
            (let s = s\<lparr>blk_op := (blk_op s)(BNode p := op)\<rparr>;
                 s = s\<lparr>blk_next := (blk_next s)(BNode p := blk_next s BHead)\<rparr>
             in Done () (s\<lparr>blk_next := (blk_next s)(BHead := BNode p)\<rparr>)))"

text \<open>
  The loop of \<^verbatim>\<open>remove_blk_driver\<close>: at a node of another driver \<^verbatim>\<open>q\<close> becomes the node itself.
  \<^const>\<open>None\<close>: it does not end.
\<close>

partial_function (option) remove_blk_loop :: "u32 \<Rightarrow> bptr \<Rightarrow> 'a blk_state_scheme \<Rightarrow> 'a blk_state_scheme option" where
  "remove_blk_loop op p s =
     (case p of
        BHead \<Rightarrow> Some s
      | BNode a \<Rightarrow>
          if blk_op s (BNode a) \<noteq> op then (let q = BNode a in remove_blk_loop op q s)
          else (let q = blk_next s (BNode a); s = kfree a s in remove_blk_loop op q s))"

definition remove_blk_driver :: "u32 \<Rightarrow> 'a blk_state_scheme \<Rightarrow> 'a blk_state_scheme option" where
  "remove_blk_driver op s = remove_blk_loop op (blk_next s BHead) s"

partial_function (option) get_blk_loop :: "memory \<Rightarrow> 'a blk_state_scheme \<Rightarrow> u32 \<Rightarrow> bptr \<Rightarrow> bptr option option" where
  "get_blk_loop m s name p =
     (if p = BHead then Some None
      else case strcmp m (blk_op s p) name of
        None \<Rightarrow> None
      | Some d \<Rightarrow> if d = 0 then Some (Some p) else get_blk_loop m s name (blk_next s p))"

definition get_blk_driver :: "u32 \<Rightarrow> 'a blk_state_scheme \<Rightarrow> bptr option option" where
  "get_blk_driver name s = get_blk_loop (mem s) s name (blk_next s BHead)"

text \<open>Printing a name reads it from memory up to its NUL.\<close>

partial_function (option) show_blk_loop :: "bptr \<Rightarrow> 'a blk_state_scheme \<Rightarrow> 'a blk_state_scheme option" where
  "show_blk_loop p s =
     (if p = BHead then Some s
      else
        (let s = put_bytes (bytes_of ''registered driver ['') s
         in case put_str (blk_op s p) s of
              None \<Rightarrow> None
            | Some s \<Rightarrow>
                (let s = put_bytes (bytes_of '']'' @ [0x0a]) s in show_blk_loop (blk_next s p) s)))"

definition show_all_registered_driver :: "'a blk_state_scheme \<Rightarrow> 'a blk_state_scheme option" where
  "show_all_registered_driver s = show_blk_loop (blk_next s BHead) s"

text \<open>
  The driver's \<^verbatim>\<open>read\<close> operation is the argument \<open>rd\<close>: device, sector, buffer, size. The sector
  number is counted in a (32-bit) \<^verbatim>\<open>int\<close>; \<open>n\<close> is the number of rounds left.
\<close>

fun blk_read_loop :: "(int \<Rightarrow> u32 \<Rightarrow> u32 \<Rightarrow> u32 \<Rightarrow> 's \<Rightarrow> (int, 's) run) \<Rightarrow> u32 \<Rightarrow> u32 \<Rightarrow> nat \<Rightarrow> 's \<Rightarrow> (int, 's) run" where
  "blk_read_loop rd out sector 0 s = Done 0 s"
| "blk_read_loop rd out sector (Suc n) s =
     (case rd 0 sector out SECTOR_SIZE s of
        Stuck s \<Rightarrow> Stuck s
      | Done ret s \<Rightarrow> if ret \<noteq> 0 then Done ret s else blk_read_loop rd out (sector + 1) n s)"

definition blk_read_sector :: "(int \<Rightarrow> u32 \<Rightarrow> u32 \<Rightarrow> u32 \<Rightarrow> 's \<Rightarrow> (int, 's) run) \<Rightarrow> u32 \<Rightarrow> u32 \<Rightarrow> int \<Rightarrow> 's \<Rightarrow> (int, 's) run" where
  "blk_read_sector rd out sector_num count s = blk_read_loop rd out sector_num (nat count) s"

section \<open>The drivers in memory\<close>

text \<open>
  The list of registered drivers, the last registered first; its nodes are disjoint blocks among
  the bytes \<^verbatim>\<open>kmalloc\<close> has handed out.
\<close>

definition blk_list :: "'a blk_state_scheme \<Rightarrow> u32 list \<Rightarrow> bool" where
  "blk_list s ps \<longleftrightarrow> path (blk_next s) (blk_next s BHead) (map BNode ps) BHead"

interpretation bd: name_lookup strcmp blk_next blk_op BHead get_blk_loop
proof unfold_locales
  fix m s key and p :: bptr
  show "get_blk_loop m s key p =
      (if p = BHead then Some None
       else case strcmp m (blk_op s p) key of
         None \<Rightarrow> None
       | Some d \<Rightarrow> if d = 0 then Some (Some p) else get_blk_loop m s key (blk_next s p))"
    by (rule get_blk_loop.simps)
qed

text \<open>Registering puts the driver in front.\<close>

lemma kmalloc_blk [simp]:
  "kmalloc n s = Done p t \<Longrightarrow> blk_next t = blk_next s \<and> blk_op t = blk_op s"
  by (cases s rule: mem_alloc_cases) (auto simp: kmalloc_def Let_def split: if_splits)

lemma register_blk_driver_spec:
  assumes "blk_list s ps" and "kmalloc sizeof_blk_device_drivers s = Done p t" and "p \<noteq> 0"
    and "p \<notin> set ps"
  shows "\<exists>u. register_blk_driver op s = Done () u \<and> blk_list u (p # ps) \<and> blk_op u (BNode p) = op
    \<and> (\<forall>q \<in> set ps. blk_op u (BNode q) = blk_op s (BNode q))"
proof -
  let ?u = "t\<lparr>blk_op := (blk_op t)(BNode p := op),
    blk_next := (blk_next t)(BNode p := blk_next t BHead, BHead := BNode p)\<rparr>"
  have t: "blk_next t = blk_next s" "blk_op t = blk_op s" using kmalloc_blk [OF assms(2)] by simp_all
  have "register_blk_driver op s = Done () ?u"
    using assms(2,3) by (simp add: register_blk_driver_def Let_def)
  moreover have "path (blk_next ?u) (blk_next s BHead) (map BNode ps) BHead"
    using assms(1,4) by (subst path_cong [of _ _ "blk_next s"]) (auto simp: t blk_list_def)
  then have "blk_list ?u (p # ps)" by (simp add: blk_list_def t)
  moreover have "\<forall>q \<in> set ps. blk_op ?u (BNode q) = blk_op s (BNode q)" using assms(4) t by auto
  ultimately show ?thesis by (intro exI [of _ ?u]) simp
qed

text \<open>
  Removing: the loop stays at the first node of another driver forever, and even when it ends,
  the list is the same.
\<close>

lemma remove_blk_loop_other:
  assumes "blk_op s (BNode a) \<noteq> op"
  shows "remove_blk_loop op (BNode a) s = None"
proof -
  have "op' = op \<longrightarrow> p = BNode a \<longrightarrow> t = s \<longrightarrow> False" if "remove_blk_loop op' p t = Some u" for op' p t u
  proof (rule remove_blk_loop.raw_induct [OF _ that,
      where P = "\<lambda>op' p t u. op' = op \<longrightarrow> p = BNode a \<longrightarrow> t = s \<longrightarrow> False"], goal_cases)
    case (1 loop op' p t u)
    show ?case
    proof (intro impI)
      assume "op' = op" "p = BNode a" "t = s"
      with 1(2) assms have "loop op (BNode a) s = Some u" by simp
      from 1(1) [OF this] show False by simp
    qed
  qed
  then have "remove_blk_loop op (BNode a) s = Some u \<Longrightarrow> False" for u by blast
  then show ?thesis by (cases "remove_blk_loop op (BNode a) s") auto
qed

lemma remove_blk_driver_spec:
  assumes "blk_list s ps"
  shows "remove_blk_driver op s =
    (if \<forall>p \<in> set ps. blk_op s (BNode p) = op then Some s else None)"
proof -
  have "path (blk_next s) a (map BNode ps) BHead \<Longrightarrow> remove_blk_loop op a s =
    (if \<forall>p \<in> set ps. blk_op s (BNode p) = op then Some s else None)" for a
  proof (induction ps arbitrary: a)
    case Nil
    then show ?case by (subst remove_blk_loop.simps) simp
  next
    case (Cons p ps)
    show ?case
    proof (cases "blk_op s (BNode p) = op")
      case True
      with Cons show ?thesis by (subst remove_blk_loop.simps) (auto simp: kfree_def)
    next
      case False
      with Cons.prems remove_blk_loop_other [OF False] show ?thesis by auto
    qed
  qed
  with assms show ?thesis by (simp add: remove_blk_driver_def blk_list_def)
qed

text \<open>Looking a driver up by the name at the start of its operations.\<close>

lemma get_blk_driver_finds:
  assumes "blk_list s ps" and "\<forall>p \<in> set ps. cstr (mem s) (blk_op s (BNode p)) (name_of p)"
    and "cstr (mem s) name k"
  shows "get_blk_driver name s = Some (map_option BNode (find (\<lambda>p. name_of p = k) ps))"
proof -
  let ?nm = "\<lambda>p. case p of BHead \<Rightarrow> [] | BNode a \<Rightarrow> name_of a"
  have "BHead \<notin> set (map BNode ps)" "\<forall>x \<in> set (map BNode ps). cstr (mem s) (blk_op s x) (?nm x)"
    using assms(2) by auto
  from bd.walk_finds [OF assms(1) [unfolded blk_list_def] this assms(3)]
  show ?thesis by (simp add: get_blk_driver_def find_map)
qed

end
