(* ===== verification/Ata.thy ===== *)
theory Ata
  imports Blk
begin

text \<open>
  The ATA disk driver, \<^verbatim>\<open>kernel/ata.c\<close>: device selection, the identify command, and reading and writing
  a sector by programmed I/O. The drive behind the ports is the device parameter.

  A busy wait of the driver (\<^verbatim>\<open>timer_wait_loop_usec\<close>, modelled in \<open>Timer\<close>) appears as an event of the
  trace, so that the device may answer differently afterwards. The handlers of the timer and of the
  keyboard, which run meanwhile, use none of the drive's ports and none of the driver's variables.
\<close>

section \<open>State and constants\<close>

record ata_state = blk_state +
  max_logical_sector_num :: u32
  this_device :: "u32 option"    \<comment> \<open>the address of the node that holds the device\<close>

definition DATA_REGISTER :: u16 where "DATA_REGISTER = 0x01f0"
definition ERROR_REGISTER :: u16 where "ERROR_REGISTER = 0x01f1"
definition FEATURES_REGISTER :: u16 where "FEATURES_REGISTER = 0x01f1"
definition SECTOR_COUNT_REGISTER :: u16 where "SECTOR_COUNT_REGISTER = 0x01f2"
definition SECTOR_NUMBER_REGISTER :: u16 where "SECTOR_NUMBER_REGISTER = 0x01f3"
definition CYLINDER_LOW_REGISTER :: u16 where "CYLINDER_LOW_REGISTER = 0x01f4"
definition CYLINDER_HIGH_REGISTER :: u16 where "CYLINDER_HIGH_REGISTER = 0x01f5"
definition DEVICE_HEAD_REGISTER :: u16 where "DEVICE_HEAD_REGISTER = 0x01f6"
definition STATUS_REGISTER :: u16 where "STATUS_REGISTER = 0x01f7"
definition COMMAND_REGISTER :: u16 where "COMMAND_REGISTER = 0x01f7"
definition ALTERNATE_STATUS_REGISTER :: u16 where "ALTERNATE_STATUS_REGISTER = 0x03f6"
definition DEVICE_CONTROL_REGISTER :: u16 where "DEVICE_CONTROL_REGISTER = 0x03f6"
definition PIO_SECTOR_WRITE_CMD :: u8 where "PIO_SECTOR_WRITE_CMD = 0x30"
definition PIO_SECTOR_READ_CMD :: u8 where "PIO_SECTOR_READ_CMD = 0x20"

lemmas ata_ports = DATA_REGISTER_def ERROR_REGISTER_def FEATURES_REGISTER_def
  SECTOR_COUNT_REGISTER_def SECTOR_NUMBER_REGISTER_def CYLINDER_LOW_REGISTER_def
  CYLINDER_HIGH_REGISTER_def DEVICE_HEAD_REGISTER_def STATUS_REGISTER_def COMMAND_REGISTER_def
  ALTERNATE_STATUS_REGISTER_def DEVICE_CONTROL_REGISTER_def

definition ata_info :: "(u16 \<times> u16 \<times> u8) list" where
  "ata_info = [(0x8086, 0x7111, 1)]"

definition busy_wait :: "u32 \<Rightarrow> 'a machine_scheme \<Rightarrow> 'a machine_scheme" where
  "busy_wait usec s = s\<lparr>trace := Wait usec # trace s\<rparr>"

section \<open>Waiting for the drive\<close>

function bsy_drq_loop :: "device \<Rightarrow> u16 \<Rightarrow> nat \<Rightarrow> 'a machine_scheme \<Rightarrow> bool \<times> 'a machine_scheme" where
  "bsy_drq_loop dev port i s =
     (let (data, s) = inb_p dev port s;
          bsy = drop_bit 7 data AND 0x01;
          drq = drop_bit 3 data AND 0x01;
          i = i + 1
      in if \<not> (bsy = 0 \<and> drq = 0) \<and> i < 1000 then bsy_drq_loop dev port i s
         else (bsy = 0 \<and> drq = 0, s))"
  by pat_completeness auto
termination by (relation "measure (\<lambda>(_, _, i, _). 1000 - i)") auto

definition wait_until_BSY_and_DRQ_are_zero :: "device \<Rightarrow> u16 \<Rightarrow> 'a machine_scheme \<Rightarrow> bool \<times> 'a machine_scheme" where
  "wait_until_BSY_and_DRQ_are_zero dev port s = bsy_drq_loop dev port 0 s"

function bsy_loop :: "device \<Rightarrow> u16 \<Rightarrow> nat \<Rightarrow> 'a machine_scheme \<Rightarrow> bool \<times> 'a machine_scheme" where
  "bsy_loop dev port i s =
     (let (data, s) = inb_p dev port s;
          bsy = drop_bit 7 data AND 0x01;
          i = i + 1
      in if bsy \<noteq> 0 \<and> i < 1000 then bsy_loop dev port i s else (bsy = 0, s))"
  by pat_completeness auto
termination by (relation "measure (\<lambda>(_, _, i, _). 1000 - i)") auto

declare bsy_drq_loop.simps [simp del] bsy_loop.simps [simp del]

definition wait_until_BSY_is_zero :: "device \<Rightarrow> u16 \<Rightarrow> 'a machine_scheme \<Rightarrow> bool \<times> 'a machine_scheme" where
  "wait_until_BSY_is_zero dev port s = bsy_loop dev port 0 s"

definition set_device_number :: "device \<Rightarrow> int \<Rightarrow> 'a machine_scheme \<Rightarrow> 'a machine_scheme" where
  "set_device_number dev device s =
     (let (data, s) = inb_p dev DEVICE_HEAD_REGISTER s;
          data = (if device = 0 then data AND 0xf else data OR 0x10);
          s = outb_p data DEVICE_HEAD_REGISTER s
      in busy_wait 5 s)"

definition do_device_selection_protocol :: "device \<Rightarrow> int \<Rightarrow> 'a machine_scheme \<Rightarrow> bool \<times> 'a machine_scheme" where
  "do_device_selection_protocol dev device s =
     (let (ret, s) = wait_until_BSY_and_DRQ_are_zero dev ALTERNATE_STATUS_REGISTER s
      in if ret then
           (let s = set_device_number dev device s;
                s = busy_wait 2 s
            in wait_until_BSY_and_DRQ_are_zero dev ALTERNATE_STATUS_REGISTER s)
         else (ret, s))"

fun wait_ready_loop :: "device \<Rightarrow> int \<Rightarrow> nat \<Rightarrow> 'a machine_scheme \<Rightarrow> bool \<times> 'a machine_scheme" where
  "wait_ready_loop dev device 0 s = (False, s)"
| "wait_ready_loop dev device (Suc n) s =
     (let (b, s) = do_device_selection_protocol dev device s
      in if b then (True, s) else (let s = busy_wait 5 s in wait_ready_loop dev device n s))"

definition wait_until_device_is_ready :: "device \<Rightarrow> int \<Rightarrow> 'a machine_scheme \<Rightarrow> bool \<times> 'a machine_scheme" where
  "wait_until_device_is_ready dev device s = wait_ready_loop dev device 5 s"

section \<open>Registers\<close>

definition set_cylinder_register :: "u8 \<Rightarrow> u8 \<Rightarrow> 'a machine_scheme \<Rightarrow> 'a machine_scheme" where
  "set_cylinder_register high low s =
     (let s = outb_p low CYLINDER_LOW_REGISTER s in outb_p high CYLINDER_HIGH_REGISTER s)"

definition get_cylinder_regster :: "device \<Rightarrow> u16 \<Rightarrow> 'a machine_scheme \<Rightarrow> u8 \<times> 'a machine_scheme" where
  "get_cylinder_regster dev port s = inb_p dev port s"

definition set_sector_count_register :: "u8 \<Rightarrow> 'a machine_scheme \<Rightarrow> 'a machine_scheme" where
  "set_sector_count_register data s = outb_p data SECTOR_COUNT_REGISTER s"

definition get_DRDY :: "device \<Rightarrow> 'a machine_scheme \<Rightarrow> u8 \<times> 'a machine_scheme" where
  "get_DRDY dev s = (let (data, s) = inb_p dev STATUS_REGISTER s in (drop_bit 6 data AND 0x01, s))"

definition write_command :: "u8 \<Rightarrow> 'a machine_scheme \<Rightarrow> 'a machine_scheme" where
  "write_command com s = outb_p com COMMAND_REGISTER s"

definition is_error :: "u8 \<Rightarrow> bool" where
  "is_error data \<longleftrightarrow> data AND 0x01 \<noteq> 0"

definition is_drq_active :: "u8 \<Rightarrow> bool" where
  "is_drq_active data \<longleftrightarrow> drop_bit 3 data AND 0x01 = 1"

definition print_error_register :: "device \<Rightarrow> int \<Rightarrow> 'a con_state_scheme \<Rightarrow> 'a con_state_scheme" where
  "print_error_register dev device s =
     (let (b, s) = do_device_selection_protocol dev device s
      in if b then
           (let (err, s) = inb_p dev ERROR_REGISTER s
            in printk_line ''error is 0x%x'' [PInt (ucast err)] s)
         else s)"

definition is_device_fault :: "device \<Rightarrow> 'a machine_scheme \<Rightarrow> bool \<times> 'a machine_scheme" where
  "is_device_fault dev s = (let (data, s) = inb_p dev STATUS_REGISTER s in (drop_bit 5 data AND 0x01 = 1, s))"

section \<open>Sectors\<close>

text \<open>The status is read again while DRQ is off, \<^verbatim>\<open>loop\<close> counting from 0 to 6.\<close>

function rw_status_loop :: "device \<Rightarrow> int \<Rightarrow> nat \<Rightarrow> 'a con_state_scheme \<Rightarrow> bool \<times> 'a con_state_scheme" where
  "rw_status_loop dev device loop s =
     (let (status, s) = inb_p dev STATUS_REGISTER s
      in if is_error status then
           (let s = printk_line ''error occured:0x%x'' [PInt (ucast status)] s;
                s = print_error_register dev device s
            in (False, s))
         else if \<not> is_drq_active status then
           (if loop > 5 then (let s = printk_line (''DRQ didn'' @ [CHR 0x27] @ ''t be active'') [] s in (False, s))
            else rw_status_loop dev device (loop + 1) s)
         else (True, s))"
  by pat_completeness auto
termination by (relation "measure (\<lambda>(_, _, loop, _). 7 - loop)") auto

declare rw_status_loop.simps [simp del]

definition sector_rw_common :: "device \<Rightarrow> u8 \<Rightarrow> int \<Rightarrow> u32 \<Rightarrow> 'a ata_state_scheme \<Rightarrow> bool \<times> 'a ata_state_scheme" where
  "sector_rw_common dev cmd device sector s =
     (if sector > max_logical_sector_num s then
        (False, printk_line ''Invalid Sector number 0x%lx'' [PInt sector] s)
      else
        (let (b, s) = wait_until_device_is_ready dev device s
         in if \<not> b then (False, printk_line (''Device wasn'' @ [CHR 0x27] @ ''t ready.'') [] s)
            else
              (let s = outb_p 0x02 DEVICE_CONTROL_REGISTER s;
                   s = outb_p 0x00 FEATURES_REGISTER s;
                   s = outb_p (ucast (sector AND 0xff)) SECTOR_NUMBER_REGISTER s;
                   s = outb_p (ucast (drop_bit 8 sector AND 0xff)) CYLINDER_LOW_REGISTER s;
                   s = outb_p (ucast (drop_bit 16 sector AND 0xff)) CYLINDER_HIGH_REGISTER s;
                   s = outb_p (ucast ((drop_bit 24 sector AND 0x1f) OR 0x40)) DEVICE_HEAD_REGISTER s;
                   s = outb_p 1 SECTOR_COUNT_REGISTER s;
                   s = outb_p cmd COMMAND_REGISTER s;
                   s = busy_wait 4 s;
                   (_, s) = inb_p dev ALTERNATE_STATUS_REGISTER s
               in rw_status_loop dev device 0 s)))"

definition finish_sector_rw :: "device \<Rightarrow> 'a machine_scheme \<Rightarrow> 'a machine_scheme" where
  "finish_sector_rw dev s =
     (let (_, s) = inb_p dev ALTERNATE_STATUS_REGISTER s;
          (_, s) = inb_p dev STATUS_REGISTER s
      in s)"

text \<open>The buffer is an array of 16-bit words in memory.\<close>

definition write_word :: "u32 \<Rightarrow> nat \<Rightarrow> 'a machine_scheme \<Rightarrow> 'a machine_scheme" where
  "write_word buf i s = outw_p (read16 (mem s) (buf + of_nat (2 * i))) DATA_REGISTER s"

definition read_word :: "device \<Rightarrow> u32 \<Rightarrow> nat \<Rightarrow> 'a machine_scheme \<Rightarrow> 'a machine_scheme" where
  "read_word dev buf i s =
     (let (w, s) = inw_p dev DATA_REGISTER s
      in s\<lparr>mem := write16 (buf + of_nat (2 * i)) w (mem s)\<rparr>)"

definition write_sector :: "device \<Rightarrow> int \<Rightarrow> u32 \<Rightarrow> u32 \<Rightarrow> u32 \<Rightarrow> 'a ata_state_scheme \<Rightarrow> int \<times> 'a ata_state_scheme" where
  "write_sector dev device sector buf buf_size s =
     (let (ret, s) = sector_rw_common dev PIO_SECTOR_WRITE_CMD device sector s
      in if \<not> ret then (- 1, s)
         else
           (let s = finish_sector_rw dev s;
                s = fold (write_word buf) [0..<unat buf_size] s
            in (0, s)))"

definition read_sector :: "device \<Rightarrow> int \<Rightarrow> u32 \<Rightarrow> u32 \<Rightarrow> u32 \<Rightarrow> 'a ata_state_scheme \<Rightarrow> (int, 'a ata_state_scheme) run" where
  "read_sector dev device sector buf buf_size s =
     (if buf_size \<noteq> 256 then
        Stuck (printk_line (''buf_size isn'' @ [CHR 0x27] @ ''t 256'') [] s)
      else
        (let (ret, s) = sector_rw_common dev PIO_SECTOR_READ_CMD device sector s
         in if \<not> ret then Done (- 1) s
            else
              (let s = fold (read_word dev buf) [0..<unat buf_size] s;
                   s = finish_sector_rw dev s
               in Done 0 s)))"

section \<open>Identification\<close>

text \<open>The local array \<^verbatim>\<open>buf\<close> by value.\<close>

definition identify_word :: "device \<Rightarrow> nat \<Rightarrow> (nat \<Rightarrow> u16) \<times> 'a machine_scheme \<Rightarrow> (nat \<Rightarrow> u16) \<times> 'a machine_scheme" where
  "identify_word dev i = (\<lambda>(buf, s). let (w, s) = inw_p dev DATA_REGISTER s in (buf(i := w), s))"

text \<open>The loop of \<^verbatim>\<open>read_status_register\<close>; \<^const>\<open>None\<close>: DRQ never comes.\<close>

partial_function (option) identify_status_loop ::
  "device \<Rightarrow> int \<Rightarrow> 'a con_state_scheme \<Rightarrow> (bool \<times> 'a con_state_scheme) option" where
  "identify_status_loop dev device s =
     (case inb_p dev STATUS_REGISTER s of (data, s) \<Rightarrow>
        if is_error data then
          (let s = printk_line ''error occured:0x%x'' [PInt (ucast data)] s;
               s = print_error_register dev device s
           in Some (False, s))
        else if \<not> is_drq_active data then identify_status_loop dev device s
        else Some (True, s))"

definition do_identify_device :: "device \<Rightarrow> int \<Rightarrow> (nat \<Rightarrow> u16) \<Rightarrow> 'a con_state_scheme
    \<Rightarrow> (bool \<times> (nat \<Rightarrow> u16) \<times> 'a con_state_scheme) option" where
  "do_identify_device dev device buf s =
     (let (_, s) = do_device_selection_protocol dev device s;
          (ret, s) = get_DRDY dev s
      in if ret \<noteq> 0 then
           (let s = write_command 0xec s;
                s = busy_wait 5 s;
                (b, s) = wait_until_BSY_is_zero dev STATUS_REGISTER s
            in if \<not> b then Some (False, buf, printk_line ''wait failed'' [] s)
               else
                 (let (_, s) = inb_p dev ALTERNATE_STATUS_REGISTER s
                  in case identify_status_loop dev device s of
                       None \<Rightarrow> None
                     | Some (ok, s) \<Rightarrow>
                         if \<not> ok then Some (False, buf, s)
                         else
                           (let (fault, s) = is_device_fault dev s
                            in if fault then Some (False, buf, printk_line ''some error occured'' [] s)
                               else
                                 (let (buf, s) = fold (identify_word dev) [0..<256] (buf, s)
                                  in Some (True, buf, s)))))
         else Some (True, buf, s))"

definition do_soft_reset :: "device \<Rightarrow> int \<Rightarrow> 'a machine_scheme \<Rightarrow> 'a machine_scheme" where
  "do_soft_reset dev device s =
     (let s = set_device_number dev device s;
          s = write_command 0x08 s
      in busy_wait 5 s)"

datatype device_type = DEV_TYPE_UNKNOWN | DEV_TYPE_ATA | DEV_TYPE_ATAPI

definition get_device_type :: "u8 \<Rightarrow> u8 \<Rightarrow> device_type" where
  "get_device_type high low =
     (if high = 0x0 \<and> low = 0x0 then DEV_TYPE_ATA
      else if high = 0xeb \<and> low = 0x14 then DEV_TYPE_ATAPI
      else DEV_TYPE_UNKNOWN)"

definition initialize_common :: "device \<Rightarrow> int \<Rightarrow> 'a ata_state_scheme \<Rightarrow> (bool \<times> 'a ata_state_scheme) option" where
  "initialize_common dev device s =
     (let buf = (\<lambda>_. 0);
          s = do_soft_reset dev device s;
          (low, s) = get_cylinder_regster dev CYLINDER_LOW_REGISTER s;
          (high, s) = get_cylinder_regster dev CYLINDER_HIGH_REGISTER s
      in case get_device_type high low of
           DEV_TYPE_ATAPI \<Rightarrow> Some (False, printk_line ''ATAPI device is not supported yet.'' [] s)
         | DEV_TYPE_UNKNOWN \<Rightarrow> Some (False, printk_line ''Unknown device'' [] s)
         | DEV_TYPE_ATA \<Rightarrow>
             (case do_identify_device dev device buf s of
                None \<Rightarrow> None
              | Some (ret, buf, s) \<Rightarrow>
                  if \<not> ret then Some (False, printk_line ''identify device failed'' [] s)
                  else Some (True, s\<lparr>max_logical_sector_num :=
                    push_bit 16 (ucast (buf 61)) OR ucast (buf 60)\<rparr>)))"

definition initialize_ata :: "device \<Rightarrow> 'a ata_state_scheme \<Rightarrow> (bool \<times> 'a ata_state_scheme) option" where
  "initialize_ata dev s =
     (case initialize_common dev 0 s of
        None \<Rightarrow> None
      | Some (ret, s) \<Rightarrow>
          if ret then
            (case initialize_common dev 1 s of
               None \<Rightarrow> None
             | Some (ret, s) \<Rightarrow>
                 if \<not> ret then Some (True, printk_line (''Don'' @ [CHR 0x27] @ ''t setup slave'') [] s)
                 else Some (ret, s))
          else Some (ret, s))"

definition open_ATA_disk :: "device \<Rightarrow> 'a ata_state_scheme \<Rightarrow> (int \<times> 'a ata_state_scheme) option" where
  "open_ATA_disk dev s =
     (case initialize_ata dev s of
        None \<Rightarrow> None
      | Some (ret, s) \<Rightarrow> if \<not> ret then Some (- 1, s) else Some (0, s))"

text \<open>\<open>ata_dev\<close> is the address of the static structure of the driver's operations.\<close>

definition close_ATA_disk :: "u32 \<Rightarrow> 'a ata_state_scheme \<Rightarrow> (int \<times> 'a ata_state_scheme) option" where
  "close_ATA_disk ata_dev s =
     (let s = printk_line ''%s'' [PStr (bytes_of ''close_ATA_disk'')] s
      in case remove_blk_driver ata_dev s of None \<Rightarrow> None | Some s \<Rightarrow> Some (0, s))"

text \<open>The static structure \<^verbatim>\<open>ata_dev\<close>, and what is behind a pointer to the operations of a driver.\<close>

definition ata_dev_ops :: "device \<Rightarrow> u32 \<Rightarrow> 'a ata_state_scheme blk_dev_driver_operations" where
  "ata_dev_ops dev ata_dev =
     \<lparr>op_open = open_ATA_disk dev, op_close = close_ATA_disk ata_dev,
      op_read = read_sector dev, op_write = write_sector dev\<rparr>"

definition driver_ops :: "device \<Rightarrow> u32 \<Rightarrow> u32 \<Rightarrow> 'a ata_state_scheme blk_dev_driver_operations option" where
  "driver_ops dev ata_dev op = (if op = ata_dev then Some (ata_dev_ops dev ata_dev) else None)"

section \<open>Finding the controller\<close>

fun find_ata_loop :: "(u16 \<times> u16 \<times> u8) list \<Rightarrow> 'a ata_state_scheme \<Rightarrow> (bool \<times> 'a ata_state_scheme) option" where
  "find_ata_loop [] s = Some (False, s)"
| "find_ata_loop ((vender, devid, func) # is) s =
     (case get_pci_device vender devid func s of
        None \<Rightarrow> None
      | Some p \<Rightarrow>
          (let s = s\<lparr>this_device := p\<rparr>
           in if p \<noteq> None then
                Some (True, printk_line ''Found ATA device %x:%x:%d''
                  [PInt (ucast vender), PInt (ucast devid), PInt (ucast func)] s)
              else find_ata_loop is s))"

definition find_ata_device :: "'a ata_state_scheme \<Rightarrow> (bool \<times> 'a ata_state_scheme) option" where
  "find_ata_device s = find_ata_loop ata_info s"

text \<open>What \<^verbatim>\<open>this_device\<close> points to; these functions run only after it was found.\<close>

definition this_pci :: "'a ata_state_scheme \<Rightarrow> pci_device" where
  "this_pci s = pci_data s (the (this_device s))"

definition set_bus_master_bit :: "device \<Rightarrow> 'a ata_state_scheme \<Rightarrow> 'a ata_state_scheme" where
  "set_bus_master_bit dev s =
     (let (data, s) = pci_data_read dev (this_pci s) 0x4 s;
          data = data OR 0x04
      in pci_data_write (this_pci s) 0x04 data s)"

fun base_address_loop :: "device \<Rightarrow> u8 list \<Rightarrow> 'a ata_state_scheme \<Rightarrow> 'a ata_state_scheme" where
  "base_address_loop dev [] s = s"
| "base_address_loop dev (i # is) s =
     (let (v, s) = pci_data_read dev (this_pci s) i s;
          s = s\<lparr>pci_data := (pci_data s)(the (this_device s) := (this_pci s)\<lparr>pd_base_address := v\<rparr>)\<rparr>
      in if pd_base_address (this_pci s) \<noteq> 0 then
           printk_line ''ATA Base Address is 0x%lx(0x%x)''
             [PInt (pd_base_address (this_pci s)), PInt (ucast i)] s
         else base_address_loop dev is s)"

definition get_base_address :: "device \<Rightarrow> 'a ata_state_scheme \<Rightarrow> 'a ata_state_scheme" where
  "get_base_address dev s = base_address_loop dev [0x10, 0x14, 0x18, 0x1c, 0x20, 0x24] s"

definition init_ata_disk_driver :: "device \<Rightarrow> u32 \<Rightarrow> 'a ata_state_scheme \<Rightarrow> (bool, 'a ata_state_scheme) run option" where
  "init_ata_disk_driver dev ata_dev s =
     (case find_ata_device s of
        None \<Rightarrow> None
      | Some (found, s) \<Rightarrow>
          if \<not> found then Some (Done False s)
          else
            (let s = set_bus_master_bit dev s;
                 s = get_base_address dev s
             in Some (case register_blk_driver ata_dev s of Stuck s \<Rightarrow> Stuck s | Done _ s \<Rightarrow> Done True s)))"

end
