(* ===== verification/Kernel.thy ===== *)
theory Kernel
  imports Ata "HOL-Library.Monad_Syntax"
begin

text \<open>
  The kernel as a whole: the system call dispatcher (\<^verbatim>\<open>kernel/syscall.c\<close>) and the boot sequence
  (\<^verbatim>\<open>kernel/init.c\<close>), on the state of all components. The addresses the linker gives to static
  objects, literals and assembler labels are parameters.
\<close>

section \<open>State\<close>

record kernel_state = ata_state +
  files :: fs_state
  idt :: "nat \<Rightarrow> u32"
  cr0 :: u32
  cr4 :: u32

definition SYSCALL_TIMER_GET_GLOBAL_COUNTER :: u32 where "SYSCALL_TIMER_GET_GLOBAL_COUNTER = 1"
definition SYSCALL_SCHED_WAKEUP_MSEC :: u32 where "SYSCALL_SCHED_WAKEUP_MSEC = 2"
definition SYSCALL_CON_GET_CURSOR_POS_Y :: u32 where "SYSCALL_CON_GET_CURSOR_POS_Y = 3"
definition SYSCALL_CON_PUT_STR :: u32 where "SYSCALL_CON_PUT_STR = 4"
definition SYSCALL_CON_PUT_STR_POS :: u32 where "SYSCALL_CON_PUT_STR_POS = 5"
definition SYSCALL_CON_DUMP_HEX :: u32 where "SYSCALL_CON_DUMP_HEX = 6"
definition SYSCALL_CON_DUMP_HEX_POS :: u32 where "SYSCALL_CON_DUMP_HEX_POS = 7"
definition SYSCALL_CON_GET_LINE :: u32 where "SYSCALL_CON_GET_LINE = 8"
definition SYSCALL_OPEN :: u32 where "SYSCALL_OPEN = 9"
definition SYSCALL_EXEC :: u32 where "SYSCALL_EXEC = 10"
definition SYSCALL_SHUTDOWN :: u32 where "SYSCALL_SHUTDOWN = 11"

lemmas syscall_numbers = SYSCALL_TIMER_GET_GLOBAL_COUNTER_def SYSCALL_SCHED_WAKEUP_MSEC_def
  SYSCALL_CON_GET_CURSOR_POS_Y_def SYSCALL_CON_PUT_STR_def SYSCALL_CON_PUT_STR_POS_def
  SYSCALL_CON_DUMP_HEX_def SYSCALL_CON_DUMP_HEX_POS_def SYSCALL_CON_GET_LINE_def SYSCALL_OPEN_def
  SYSCALL_EXEC_def SYSCALL_SHUTDOWN_def

section \<open>System calls\<close>

text \<open>
  A pointer to a file is the address of one of the static objects, given by \<open>addr\<close>. Where a caller
  passes another address to \<^verbatim>\<open>task_init\<close>, the field \<^verbatim>\<open>data_base_addr\<close> is read from memory there.
\<close>

definition file_pointer :: "(fptr \<Rightarrow> u32) \<Rightarrow> fptr option \<Rightarrow> u32" where
  "file_pointer addr f = (case f of None \<Rightarrow> 0 | Some f \<Rightarrow> addr f)"

definition file_data :: "(fptr \<Rightarrow> u32) \<Rightarrow> u32 \<Rightarrow> 'a kernel_state_scheme \<Rightarrow> u32" where
  "file_data addr p s = (case find (\<lambda>f. addr f = p) [FHead, FShell, FUptime] of
     Some f \<Rightarrow> data_base_addr (files s) f
   | None \<Rightarrow> read32 (mem s) (p + 12))"

definition shutdown_port :: "'a machine_scheme \<Rightarrow> 'a machine_scheme" where
  "shutdown_port s = fold (\<lambda>c. outb_p c 0x8900) (bytes_of ''Shutdown'') s"

text \<open>
  The result of a call: a value; or the caller has given up the processor, with its \<^verbatim>\<open>if_bit\<close> and what
  the call does when the caller is switched to again: return a value (\<open>Sleeps\<close>), or go on with
  \<^verbatim>\<open>get_line\<close> at an index of its buffer (\<open>Reads\<close>, continued by \<open>get_line_resume\<close>).
\<close>

datatype sysret = Ret u32 | Sleeps u8 u32 | Reads u8 u32

definition line_sysret :: "line_result \<Rightarrow> sysret" where
  "line_sysret r = (case r of Line n \<Rightarrow> Ret n | Waiting if_bit i \<Rightarrow> Reads if_bit i)"

text \<open>
  \<^const>\<open>None\<close>: the call does not return (a string without end), no task is there to block, or
  \<^verbatim>\<open>task_init\<close> runs into a null pointer or past the descriptor table.
\<close>

definition do_syscall :: "(fptr \<Rightarrow> u32) \<Rightarrow> u32 \<Rightarrow> u32 \<Rightarrow> u32 \<Rightarrow> u32
    \<Rightarrow> 'a kernel_state_scheme \<Rightarrow> (sysret \<times> 'a kernel_state_scheme) option" where
  "do_syscall addr syscall_id arg1 arg2 arg3 s =
     (if syscall_id = SYSCALL_TIMER_GET_GLOBAL_COUNTER then
        Some (Ret (timer_get_global_counter s), s)
      else if syscall_id = SYSCALL_SCHED_WAKEUP_MSEC then
        map_option (\<lambda>(if_bit, s). (Sleeps if_bit 0, s)) (wakeup_after_msec arg1 s)
      else if syscall_id = SYSCALL_CON_GET_CURSOR_POS_Y then
        Some (Ret (cursor_y s), s)
      else if syscall_id = SYSCALL_CON_PUT_STR then
        map_option (\<lambda>s. (Ret 0, s)) (put_str arg1 s)
      else if syscall_id = SYSCALL_CON_PUT_STR_POS then
        map_option (\<lambda>s. (Ret 0, s)) (put_str_pos arg1 (ucast arg2) (ucast arg3) s)
      else if syscall_id = SYSCALL_CON_DUMP_HEX then
        Some (Ret 0, dump_hex arg1 arg2 s)
      else if syscall_id = SYSCALL_CON_DUMP_HEX_POS then
        Some (Ret 0, dump_hex_pos arg1 arg2 (ucast (drop_bit 16 arg3)) (ucast (arg3 AND 0x0000ffff)) s)
      else if syscall_id = SYSCALL_CON_GET_LINE then
        map_option (\<lambda>(r, s). (line_sysret r, s)) (get_line_run arg1 arg2 0 s)
      else if syscall_id = SYSCALL_OPEN then
        map_option (\<lambda>f. (Ret (file_pointer addr f), s)) (fs_open (mem s) (files s) arg1)
      else if syscall_id = SYSCALL_EXEC then
        map_option (\<lambda>s. (Ret 0, s)) (task_init (file_data addr arg1 s) s)
      else if syscall_id = SYSCALL_SHUTDOWN then
        Some (Ret (- 1), shutdown_port s)
      else Some (Ret (- 1), s))"

section \<open>Booting\<close>

definition EXCEPTION_MAX :: nat where "EXCEPTION_MAX = 21"
definition INTR_NUM_TIMER :: u8 where "INTR_NUM_TIMER = 32"
definition INTR_NUM_KB :: u8 where "INTR_NUM_KB = 33"
definition INTR_MASK_BIT_TIMER :: u8 where "INTR_MASK_BIT_TIMER = 0x01"
definition INTR_MASK_BIT_KB :: u8 where "INTR_MASK_BIT_KB = 0x02"

text \<open>The entry points of \<^verbatim>\<open>sys.S\<close>; the exceptions are named by their vector.\<close>

datatype entry = Exception_handler | Excp u8 | Timer_handler | Keyboard_handler | Syscall_handler

definition excp_numbers :: "u8 list" where
  "excp_numbers = [0, 1, 2, 3, 4, 5, 6, 7, 8, 9, 10, 11, 12, 13, 14, 16, 17, 18, 19, 20]"

definition set_handler :: "(entry \<Rightarrow> u32) \<Rightarrow> u8 \<Rightarrow> entry \<Rightarrow> 'a kernel_state_scheme \<Rightarrow> 'a kernel_state_scheme" where
  "set_handler entries v e s = s\<lparr>idt := intr_set_handler v (entries e) (idt s)\<rparr>"

text \<open>What the linker decides: entry points, the kernel task's segment, buffers and literals.\<close>

record image =
  entries :: "entry \<Rightarrow> u32"
  tss_loc :: u32
  ata_dev :: u32
  buf0 :: u32
  buf1 :: u32
  lit_ata_disk :: u32
  lit_no_disk :: u32
  lit_test_data :: u32

text \<open>
  The setup of the console, the tables, the devices, the files and the first task, up to the point
  where the interrupts are switched on.
\<close>

definition kern_init_setup :: "device \<Rightarrow> image \<Rightarrow> 'a kernel_state_scheme \<Rightarrow> 'a kernel_state_scheme option" where
  "kern_init_setup dev im s =
     (let s = s\<lparr>cursor_y := cursor_y s + 2\<rparr>;
          s = update_cursor s;
          s = fold (\<lambda>i. set_handler (entries im) (of_nat i) Exception_handler) [0..<EXCEPTION_MAX] s;
          s = fold (\<lambda>v. set_handler (entries im) v (Excp v)) excp_numbers s;
          s = con_init s;
          s = timer_init s;
          (c, m) = mem_init (cr4 s, mem s);
          s = s\<lparr>cr4 := c, mem := m\<rparr>;
          s = s\<lparr>files := fs_init (mem s) 0x00011000 (files s)\<rparr>
      in case kern_task_init (tss_loc im) s of
           None \<Rightarrow> None
         | Some s \<Rightarrow>
             (case task_init (data_base_addr (files s) FShell) s of
                None \<Rightarrow> None
              | Some s \<Rightarrow>
                  (let s = s\<lparr>cr0 := mem_page_start (cr0 s)\<rparr>;
                       s = set_handler (entries im) INTR_NUM_TIMER Timer_handler s;
                       s = set_handler (entries im) INTR_NUM_KB Keyboard_handler s;
                       s = set_handler (entries im) INTR_NUM_USER128 Syscall_handler s;
                       s = intr_init s;
                       (msk, s) = intr_get_mask_master dev s;
                       msk = msk AND NOT (INTR_MASK_BIT_TIMER OR INTR_MASK_BIT_KB);
                       s = intr_set_mask_master msk s
                   in Some (sti s))))"

text \<open>
  The rest of the boot, as it runs when no interrupt comes in between: the bus scan and a test of the
  disk. \<^const>\<open>None\<close>: it does not get to its end.
\<close>

definition returned :: "('v, 's) run \<Rightarrow> ('v \<times> 's) option" where
  "returned r = (case r of Done v s \<Rightarrow> Some (v, s) | Stuck s \<Rightarrow> None)"

definition with_mem :: "('v \<times> memory) option \<Rightarrow> 'a machine_scheme \<Rightarrow> 'a machine_scheme option" where
  "with_mem r s = map_option (\<lambda>(_, m). s\<lparr>mem := m\<rparr>) r"

text \<open>
  \<^verbatim>\<open>drivers->op\<close> goes through a null pointer when there is no such driver, and a call through a pointer to no
  driver's operations goes nowhere (\<^const>\<open>None\<close>).
\<close>

definition kern_init_devices :: "device \<Rightarrow> image \<Rightarrow> 'a kernel_state_scheme \<Rightarrow> 'a kernel_state_scheme option" where
  "kern_init_devices dev im s =
     do {
       (_, s) \<leftarrow> returned (find_pci_device dev s);
       s \<leftarrow> show_all_pci_device s;
       r \<leftarrow> init_ata_disk_driver dev (ata_dev im) s;
       (_, s) \<leftarrow> returned r;
       s \<leftarrow> show_all_registered_driver s;
       d \<leftarrow> get_blk_driver (lit_ata_disk im) s;
       drivers \<leftarrow> d;
       op \<leftarrow> driver_ops dev (ata_dev im) (blk_op s drivers);
       (_, s) \<leftarrow> op_open op s;
       s \<leftarrow> with_mem (strcpy (buf1 im) (lit_no_disk im) (mem s)) s;
       s \<leftarrow> with_mem (strcpy (buf0 im) (lit_test_data im) (mem s)) s;
       op \<leftarrow> driver_ops dev (ata_dev im) (blk_op s drivers);
       let (_, s) = op_write op 0 100 (buf0 im) SECTOR_SIZE s;
       op \<leftarrow> driver_ops dev (ata_dev im) (blk_op s drivers);
       (_, s) \<leftarrow> returned (op_read op 0 100 (buf1 im) SECTOR_SIZE s);
       put_str (buf1 im) s
     }"

definition kern_init :: "device \<Rightarrow> image \<Rightarrow> 'a kernel_state_scheme \<Rightarrow> 'a kernel_state_scheme option" where
  "kern_init dev im s =
     do {
       s \<leftarrow> kern_init_setup dev im s;
       kern_init_devices dev im s
     }"

end
