(* ===== verification/Pci_Props.thy ===== *)
theory Pci_Props
  imports Pci
begin

text \<open>
  The boot-time scan of the PCI bus against a specification of what is plugged in: a configuration
  space, a function from the value in the address port to the data word.
\<close>

section \<open>The bus\<close>

text \<open>The data port shows the word whose address was written last, whatever happened before.\<close>

definition config_space :: "device \<Rightarrow> (u32 \<Rightarrow> u32) \<Rightarrow> bool" where
  "config_space dev cfg \<longleftrightarrow> (\<forall>tr a. dev (OutL a PCI_CONFIG_ADDRESS # tr) CONFIG_DATA_1 = cfg a)"

definition config_address :: "u8 \<Rightarrow> u8 \<Rightarrow> nat \<Rightarrow> u32 \<Rightarrow> u32" where
  "config_address bus d f r = 0x80000000 OR push_bit 16 (ucast bus) OR push_bit 11 (ucast d)
     OR push_bit 8 (of_nat f) OR r"

definition function_present :: "(u32 \<Rightarrow> u32) \<Rightarrow> u8 \<Rightarrow> u8 \<Rightarrow> nat \<Rightarrow> bool" where
  "function_present cfg bus d f \<longleftrightarrow> cfg (config_address bus d f 0) \<noteq> 0xffffffff"

text \<open>
  The specification of the scan, from the layout of a configuration header: the words at 0 (vendor
  and device), 8 (class), 12 (header type, whose bit 23 marks a device with several functions) and
  0x2c (subsystem). A device that is there without this bit is looked at no further.
\<close>

definition device_at :: "(u32 \<Rightarrow> u32) \<Rightarrow> u8 \<Rightarrow> u8 \<Rightarrow> nat \<Rightarrow> pci_device" where
  "device_at cfg bus d f =
     (let w = (\<lambda>r. cfg (config_address bus d f r))
      in \<lparr>pd_bus = bus, pd_devfn = d, pd_func = of_nat f,
          pd_vender = ucast (w 0), pd_devid = ucast (drop_bit 16 (w 0)), pd_revid = 0,
          pd_pg_if = ucast (drop_bit 8 (w 8)), pd_sub_class = take_bit 8 (drop_bit 16 (w 8)),
          pd_base_class = drop_bit 24 (w 8), pd_header_type = ucast (take_bit 7 (drop_bit 16 (w 0xc))),
          pd_multi = of_bool (bit (w 0xc) 23),
          pd_sub_vender = ucast (w 0x2c), pd_sub_devid = ucast (drop_bit 16 (w 0x2c)),
          pd_base_address = 0, pd_interrupt_line = 0\<rparr>)"

definition function_listed :: "(u32 \<Rightarrow> u32) \<Rightarrow> u8 \<Rightarrow> u8 \<Rightarrow> nat \<Rightarrow> bool" where
  "function_listed cfg bus d f \<longleftrightarrow> function_present cfg bus d f
     \<and> (f = 0 \<or> \<not> function_present cfg bus d 0 \<or> bit (cfg (config_address bus d 0 0xc)) 23)"

definition bus_devices :: "(u32 \<Rightarrow> u32) \<Rightarrow> pci_device list" where
  "bus_devices cfg = concat (map (\<lambda>bus. concat (map (\<lambda>d.
     map (device_at cfg (of_nat bus) (of_nat d)) (filter (function_listed cfg (of_nat bus) (of_nat d)) [0..<7]))
     [0..<31])) [0..<255])"

text \<open>
  The same in the terms of the code: of a single-function device only number 0, otherwise every
  present one below the bound.
\<close>

definition slot_functions :: "(u32 \<Rightarrow> u32) \<Rightarrow> u8 \<Rightarrow> u8 \<Rightarrow> nat list" where
  "slot_functions cfg bus d =
     (if function_present cfg bus d 0 \<and> \<not> is_multi_function (cfg (config_address bus d 0 0xc)) then [0]
      else filter (function_present cfg bus d) [0..<PCI_FUNCTION_MAX])"

definition slot_devices :: "(u32 \<Rightarrow> u32) \<Rightarrow> u8 \<times> u8 \<Rightarrow> pci_device list" where
  "slot_devices cfg = (\<lambda>(bus, d). map (device_at cfg bus d) (slot_functions cfg bus d))"

lemma is_multi_function_bit: "is_multi_function w \<longleftrightarrow> bit w 23"
  by (simp add: is_multi_function_def bit_iff_and_push_bit_not_eq_0 push_bit_of_1)

lemma device_at_code:
  "device_at cfg bus d f = pci_device_of bus d (cfg (config_address bus d f 0)) (of_nat f)
     (cfg (config_address bus d f 8)) (cfg (config_address bus d f 0xc)) (cfg (config_address bus d f 0x2c))"
proof -
  have m: "x AND 0xffff = take_bit 16 x" "x AND 0xff = take_bit 8 x" "x AND 0x7f = take_bit 7 x" for x :: u32
    by (simp_all add: take_bit_eq_mask mask_eq_exp_minus_1)
  have w: "(ucast (take_bit 16 x) :: u16) = ucast x" "(ucast (take_bit 8 x) :: u8) = ucast x"
    "take_bit 8 (drop_bit 24 x) = drop_bit 24 x" "take_bit 7 (take_bit 8 x) = take_bit 7 x" for x :: u32
    by (rule bit_word_eqI; auto simp: bit_simps dest: bit_imp_le_length)+
  show ?thesis
    by (simp add: device_at_def pci_device_of_def pci_device_zero_def pci_device.defs m w Let_def
        is_multi_function_bit [unfolded is_multi_function_def])
qed

lemma slot_functions_listed: "slot_functions cfg bus d = filter (function_listed cfg bus d) [0..<7]"
proof (cases "function_present cfg bus d 0 \<and> \<not> is_multi_function (cfg (config_address bus d 0 0xc))")
  case True
  then have l: "function_listed cfg bus d f \<longleftrightarrow> f = 0" for f
    by (auto simp: function_listed_def is_multi_function_bit)
  have "[0..<7 :: nat] = 0 # [1..<7]" by (simp add: upt_rec)
  with True show ?thesis by (simp add: slot_functions_def l filter_empty_conv del: upt_rec_numeral)
next
  case False
  then have l: "function_listed cfg bus d f \<longleftrightarrow> function_present cfg bus d f" for f
    by (auto simp: function_listed_def is_multi_function_bit)
  then show ?thesis unfolding slot_functions_def if_not_P [OF False] PCI_FUNCTION_MAX_def
    by (intro filter_cong) simp_all
qed

lemma concat_map_concat: "concat (map g (concat xss)) = concat (map (\<lambda>xs. concat (map g xs)) xss)"
  by (induction xss) simp_all

lemma bus_devices_slots: "bus_devices cfg = concat (map (slot_devices cfg) pci_slots)"
  by (simp add: bus_devices_def pci_slots_def slot_devices_def slot_functions_listed PCI_DEVICE_MAX_def
      PCI_BUS_MAX_def concat_map_concat comp_def del: upt_rec_numeral)

section \<open>The list in memory\<close>

text \<open>
  The list holds the devices \<open>ds\<close>; its nodes are disjoint blocks among the \<open>n\<close> bytes handed out so far.
\<close>

definition heap_page :: "'a heap_state_scheme \<Rightarrow> bool" where
  "heap_page s \<longleftrightarrow> sTopAddr s = 0 \<or> (\<exists>i < MAX_HEAP_PAGES. sTopAddr s = page_addr i)"

definition pci_ok :: "'a pci_state_scheme \<Rightarrow> pci_device list \<Rightarrow> nat \<Rightarrow> bool" where
  "pci_ok s ds n \<longleftrightarrow> kmalloc_ready s \<and> heap_page s \<and> unat (sTotalSize s) = n \<and> n \<le> 4096 \<and>
     (\<exists>ps. path (pci_next s) (pci_next s PHead) (map PNode ps) PHead \<and> distinct ps
       \<and> map (pci_data s) ps = ds \<and> (ps \<noteq> [] \<longrightarrow> sTopAddr s \<noteq> 0)
       \<and> (\<forall>p \<in> set ps. \<exists>k. k + 40 \<le> n \<and> p = sTopAddr s + of_nat k))"

section \<open>Lemmas\<close>

lemma kmalloc_page_pci [simp]:
  "pci_data (kmalloc_page s) = pci_data s" "pci_next (kmalloc_page s) = pci_next s"
  by (cases s rule: mem_alloc_cases; simp add: kmalloc_page_def)+

lemma pci_ok_trace [simp]: "pci_ok (s\<lparr>trace := T\<rparr>) ds n \<longleftrightarrow> pci_ok s ds n"
  by (simp add: pci_ok_def kmalloc_ready_def heap_page_def)

lemma con_more_pci:
  assumes "con_state.more s = con_state.more t"
  shows "pci_ok s ds n \<longleftrightarrow> pci_ok t ds n"
  using assms by (cases s; cases t) (simp add: pci_ok_def kmalloc_ready_def heap_page_def)

lemma kmalloc_page_heap:
  assumes "kmalloc_ready s" and "heap_page s"
  shows "\<exists>i < MAX_HEAP_PAGES. sTopAddr (kmalloc_page s) = page_addr i"
  using assms by (cases s rule: mem_alloc_cases) (auto simp: kmalloc_page_def kmalloc_ready_def heap_page_def)

text \<open>One read of the configuration space.\<close>

definition slot_reg :: "u8 \<Rightarrow> u8 \<Rightarrow> pci_configuration_register \<Rightarrow> bool" where
  "slot_reg bus d reg \<longleftrightarrow> reserved reg = 0 \<and> bus_num reg = ucast bus \<and> dev_num reg = ucast d"

lemma read_pci_data_slot:
  assumes "config_space dev cfg" and "slot_reg bus d reg" and "func_num reg = of_nat f"
  shows "\<exists>T. read_pci_data dev reg s =
    (cfg (config_address bus d f (reg_num reg)), reg\<lparr>enable_bit := 0\<rparr>, s\<lparr>trace := T\<rparr>)"
proof -
  have "push_bit 31 (1 :: u32) = 0x80000000" by (simp add: push_bit_eq_mult)
  with assms show ?thesis
    by (simp add: read_pci_data_def write_pci_config_address_def finish_access_to_config_data_def
        outl_p_def inl_p_def config_space_def slot_reg_def config_address_def Let_def)
      (rule exI, rule refl)
qed

text \<open>The block for a new node.\<close>

lemma unat_of_nat_page: "j \<le> 4096 \<Longrightarrow> unat (of_nat j :: u32) = j"
  by (simp add: unsigned_of_nat take_bit_nat_eq_self)

lemma sizeof_node [simp]: "unat sizeof_pci_device_list = 40"
  by (simp add: sizeof_pci_device_list_def)

lemma kmalloc_block:
  assumes "pci_ok s ds n" and "n + unat b \<le> 4096"
  obtains p u where "kmalloc b s = Done p u" "p \<noteq> 0"
    "kmalloc_ready u" "heap_page u" "sTopAddr u \<noteq> 0" "unat (sTotalSize u) = n + unat b"
    "p = sTopAddr u + of_nat n" "sTopAddr s \<noteq> 0 \<Longrightarrow> sTopAddr u = sTopAddr s"
    "pci_data u = pci_data s" "pci_next u = pci_next s"
proof -
  from assms have r: "kmalloc_ready s" "heap_page s" and n: "unat (sTotalSize s) = n"
    by (simp_all add: pci_ok_def)
  have fit: "unat (sTotalSize s) + unat b \<le> 4096" using assms(2) n by simp
  let ?u = "(kmalloc_page s)\<lparr>sTotalSize := sTotalSize s + b\<rparr>"
  let ?p = "sTopAddr ?u + sTotalSize s"
  obtain i where i: "i < MAX_HEAP_PAGES" "sTopAddr ?u = page_addr i"
    using kmalloc_page_heap [OF r] by auto
  have top: "sTopAddr ?u \<noteq> 0" using i page_addr_index(2) by simp
  have pn: "?p = sTopAddr ?u + of_nat n" by (simp flip: n)
  have "unat ?p = unat (sTopAddr ?u) + n"
    using page_addr_index(1) [OF i(1)] i unat_of_nat_page [of n] assms(2)
    by (simp only: pn unat_word_ariths) (simp add: MAX_HEAP_PAGES_def n)
  then have p0: "?p \<noteq> 0" using top by (metis add_is_0 unat_eq_zero)
  show ?thesis
  proof (rule that [of ?p ?u])
    show "kmalloc b s = Done ?p ?u"
      using kmalloc_done [OF r(1) total_word(2) [OF fit]] by simp
    show "unat (sTotalSize ?u) = n + unat b" using total_word(1) [OF fit] n by simp
    show "heap_page ?u" "kmalloc_ready ?u" using i top by (auto simp: heap_page_def kmalloc_ready_def)
    show "pci_data ?u = pci_data s" "pci_next ?u = pci_next s" by simp_all
    show "sTopAddr s \<noteq> 0 \<Longrightarrow> sTopAddr ?u = sTopAddr s" by (simp add: kmalloc_page_def)
  qed (rule p0 top pn)+
qed

lemma store_fits:
  assumes "pci_ok s ds n" and "n + 40 \<le> 4096"
  shows "\<exists>s'. store_pci_device_to_list bus d data f c h sub s = Done True s'
      \<and> pci_ok s' (pci_device_of bus d data f c h sub # ds) (n + 40)"
proof -
  obtain p u where k: "kmalloc sizeof_pci_device_list s = Done p u" "p \<noteq> 0"
    and u: "kmalloc_ready u" "heap_page u" "sTopAddr u \<noteq> 0" "unat (sTotalSize u) = n + 40"
      "p = sTopAddr u + of_nat n" "sTopAddr s \<noteq> 0 \<Longrightarrow> sTopAddr u = sTopAddr s"
      "pci_data u = pci_data s" "pci_next u = pci_next s"
    using kmalloc_block [OF assms(1), of sizeof_pci_device_list] assms(2) by auto
  obtain ps where ps: "path (pci_next s) (pci_next s PHead) (map PNode ps) PHead" "distinct ps"
    "map (pci_data s) ps = ds" "ps \<noteq> [] \<longrightarrow> sTopAddr s \<noteq> 0"
    "\<forall>q \<in> set ps. \<exists>k. k + 40 \<le> n \<and> q = sTopAddr s + of_nat k"
    using assms(1) by (auto simp: pci_ok_def)
  have old: "\<exists>k. k + 40 \<le> n \<and> q = sTopAddr u + of_nat k" if "q \<in> set ps" for q
    using ps(4,5) u(6) that by (metis empty_iff empty_set)
  have new: "p \<notin> set ps"
  proof
    assume "p \<in> set ps"
    from old [OF this] obtain k where k: "k + 40 \<le> n" "p = sTopAddr u + of_nat k" by blast
    then have "(of_nat n :: u32) = of_nat k" using u(5) by simp
    then show False using k(1) unat_of_nat_page [of k] unat_of_nat_page [of n] assms(2) by simp
  qed
  let ?d = "pci_device_of bus d data f c h sub"
  let ?s = "u\<lparr>pci_data := (pci_data u)(p := ?d),
    pci_next := (pci_next u)(PNode p := pci_next u PHead, PHead := PNode p)\<rparr>"
  have "path (pci_next ?s) (pci_next s PHead) (map PNode ps) PHead"
    using ps(1) new by (subst path_cong [of _ _ "pci_next s"]) (auto simp: u)
  moreover have "\<exists>k. k + 40 \<le> n + 40 \<and> q = sTopAddr ?s + of_nat k" if "q \<in> set (p # ps)" for q
    using that old [of q] u(5) by (cases "q = p") (auto intro: exI [of _ n] add_leD1)
  ultimately have "pci_ok ?s (?d # ds) (n + 40)"
    unfolding pci_ok_def
    by (intro conjI exI [of _ "p # ps"] ballI)
      (use u(1-5) assms(2) new ps(2,3) in \<open>auto simp: u(7,8) kmalloc_ready_def heap_page_def\<close>)
  then show ?thesis by (simp add: store_pci_device_to_list_def k Let_def)
qed

lemma store_full:
  assumes "pci_ok s ds n" and "4096 < n + 40"
  shows "\<exists>t. store_pci_device_to_list bus d data f c h sub s = Stuck t"
proof -
  from assms have r: "kmalloc_ready s" and n: "unat (sTotalSize s) = n" "n \<le> 4096"
    by (simp_all add: pci_ok_def)
  from assms(2) have "sTotalSize s + sizeof_pci_device_list > PAGE_SIZE"
    using n by (simp add: word_less_nat_alt PAGE_SIZE_def unat_word_ariths)
  from kmalloc_stuck [OF r this] show ?thesis by (auto simp: store_pci_device_to_list_def)
qed

section \<open>The scan\<close>

text \<open>Storing \<open>xs\<close> one after the other: all of them, or the kernel stops for lack of memory.\<close>

definition scan_result ::
  "('v, 'a pci_state_scheme) run \<Rightarrow> pci_device list \<Rightarrow> pci_device list \<Rightarrow> nat \<Rightarrow> bool" where
  "scan_result r xs ds n \<longleftrightarrow>
     (if n + 40 * length xs \<le> 4096
      then \<exists>v s'. r = Done v s' \<and> pci_ok s' (rev xs @ ds) (n + 40 * length xs)
      else \<exists>t. r = Stuck t)"

lemma scan_result_Nil: "pci_ok s ds n \<Longrightarrow> scan_result (Done v s) [] ds n"
  by (simp add: scan_result_def pci_ok_def)

lemma scan_result_Stuck: "4096 < n + 40 * length xs \<Longrightarrow> scan_result (Stuck t) xs ds n"
  by (simp add: scan_result_def)

lemma scan_result_Cons: "scan_result r xs (x # ds) (n + 40) \<Longrightarrow> scan_result r (x # xs) ds n"
  by (auto simp: scan_result_def algebra_simps split: if_splits)

lemma scan_result_append:
  assumes "scan_result r xs ds n"
    and "\<And>v s'. r = Done v s' \<Longrightarrow> pci_ok s' (rev xs @ ds) (n + 40 * length xs)
      \<Longrightarrow> scan_result (k s') ys (rev xs @ ds) (n + 40 * length xs)"
  shows "scan_result (case r of Stuck t \<Rightarrow> Stuck t | Done v s' \<Rightarrow> k s') (xs @ ys) ds n"
  using assms by (auto simp: scan_result_def algebra_simps split: if_splits)

text \<open>One function of a slot.\<close>

lemma slot_reg_upd [simp]:
  "slot_reg bus d (reg\<lparr>func_num := f\<rparr>) = slot_reg bus d reg"
  "slot_reg bus d (reg\<lparr>reg_num := r\<rparr>) = slot_reg bus d reg"
  "slot_reg bus d (reg\<lparr>enable_bit := e\<rparr>) = slot_reg bus d reg"
  by (simp_all add: slot_reg_def)

lemma find_function_absent:
  assumes c: "config_space dev cfg" "slot_reg bus d reg" and "i < PCI_FUNCTION_MAX"
    and "\<not> function_present cfg bus d i"
  shows "\<exists>reg' T. slot_reg bus d reg' \<and>
    find_pci_functions dev bus d i reg s = find_pci_functions dev bus d (i + 1) reg' (s\<lparr>trace := T\<rparr>)"
proof -
  let ?r = "reg\<lparr>func_num := of_nat i, reg_num := 0\<rparr>"
  obtain T where "read_pci_data dev ?r s =
      (cfg (config_address bus d i 0), ?r\<lparr>enable_bit := 0\<rparr>, s\<lparr>trace := T\<rparr>)"
    using read_pci_data_slot [OF c(1), of bus d ?r i s] c(2) by auto
  with assms(3,4) c(2) show ?thesis
    by (subst find_pci_functions.simps)
      (auto simp: read_pci_reg00_def function_present_def intro!: exI [of _ "?r\<lparr>enable_bit := 0\<rparr>"])
qed

lemma read_slot:
  assumes "config_space dev cfg" and "slot_reg bus d r" and "func_num r = of_nat i"
  obtains r' T where "read_pci_data dev (r\<lparr>reg_num := a\<rparr>) s =
      (cfg (config_address bus d i a), r', s\<lparr>trace := T\<rparr>)"
    "slot_reg bus d r'" "func_num r' = of_nat i"
  using read_pci_data_slot [OF assms(1), of bus d "r\<lparr>reg_num := a\<rparr>" i s] assms(2,3) by force

lemma find_function_present:
  assumes c: "config_space dev cfg" "slot_reg bus d reg" and "i < PCI_FUNCTION_MAX"
    and "function_present cfg bus d i"
  shows "\<exists>reg' T. slot_reg bus d reg' \<and>
    find_pci_functions dev bus d i reg s =
     (case store_pci_device_to_list bus d (cfg (config_address bus d i 0)) (of_nat i)
         (cfg (config_address bus d i 8)) (cfg (config_address bus d i 0xc))
         (cfg (config_address bus d i 0x2c)) (s\<lparr>trace := T\<rparr>) of
        Stuck s \<Rightarrow> Stuck s
      | Done b s \<Rightarrow>
          if \<not> b then Stuck (kern_abort ''pci.c'' 284 ''find_pci_data'' ''kmalloc failed'' s)
          else if i = 0 \<and> \<not> is_multi_function (cfg (config_address bus d i 0xc)) then Done 0 s
          else find_pci_functions dev bus d (i + 1) reg' s)"
proof -
  let ?r = "reg\<lparr>func_num := of_nat i\<rparr>"
  have r: "slot_reg bus d ?r" "func_num ?r = of_nat i" using c(2) by simp_all
  obtain r1 T1 where 1: "read_pci_data dev (?r\<lparr>reg_num := 0\<rparr>) s =
      (cfg (config_address bus d i 0), r1, s\<lparr>trace := T1\<rparr>)" "slot_reg bus d r1" "func_num r1 = of_nat i"
    using read_slot [OF c(1) r] by blast
  obtain r2 T2 where 2: "read_pci_data dev (r1\<lparr>reg_num := 8\<rparr>) (s\<lparr>trace := T1\<rparr>) =
      (cfg (config_address bus d i 8), r2, s\<lparr>trace := T1\<rparr>\<lparr>trace := T2\<rparr>)" "slot_reg bus d r2" "func_num r2 = of_nat i"
    using read_slot [OF c(1) 1(2,3)] by blast
  obtain r3 T3 where 3: "read_pci_data dev (r2\<lparr>reg_num := 0xc\<rparr>) (s\<lparr>trace := T2\<rparr>) =
      (cfg (config_address bus d i 0xc), r3, s\<lparr>trace := T2\<rparr>\<lparr>trace := T3\<rparr>)" "slot_reg bus d r3" "func_num r3 = of_nat i"
    using read_slot [OF c(1) 2(2,3)] by blast
  obtain r4 T4 where 4: "read_pci_data dev (r3\<lparr>reg_num := 0x2c\<rparr>) (s\<lparr>trace := T3\<rparr>) =
      (cfg (config_address bus d i 0x2c), r4, s\<lparr>trace := T3\<rparr>\<lparr>trace := T4\<rparr>)" "slot_reg bus d r4" "func_num r4 = of_nat i"
    using read_slot [OF c(1) 3(2,3)] by blast
  obtain r5 T5 where 5: "read_pci_data dev (r4\<lparr>reg_num := 4\<rparr>) (s\<lparr>trace := T4\<rparr>) =
      (cfg (config_address bus d i 4), r5, s\<lparr>trace := T4\<rparr>\<lparr>trace := T5\<rparr>)" "slot_reg bus d r5"
    using read_slot [OF c(1) 4(2,3)] by blast
  note R = 1(1) 2(1) 3(1) 4(1) 5(1)
  show ?thesis
    using assms(3,4) R 5(2)
    by (intro exI [of _ r5] exI [of _ T5] conjI)
      (simp, subst find_pci_functions.simps,
       simp add: read_pci_reg00_def read_pci_class_def read_pci_header_type_def
         read_pci_sub_system_def read_pci_command_register_def function_present_def)
qed

text \<open>The functions from number 1 on.\<close>

lemma filter_upt_rec:
  "filter P [i..<n] = (if i < n then (if P i then [i] else []) @ filter P [Suc i..<n] else [])"
  by (cases "i < n") (simp_all add: upt_conv_Cons)

lemma store_present:
  assumes "pci_ok s ds n"
    and "\<And>s'. pci_ok s' (device_at cfg bus d i # ds) (n + 40)
      \<Longrightarrow> scan_result (k s') xs (device_at cfg bus d i # ds) (n + 40)"
  shows "scan_result
    (case store_pci_device_to_list bus d (cfg (config_address bus d i 0)) (of_nat i)
         (cfg (config_address bus d i 8)) (cfg (config_address bus d i 0xc))
         (cfg (config_address bus d i 0x2c)) (s\<lparr>trace := T\<rparr>) of
        Stuck s \<Rightarrow> Stuck s
      | Done b s \<Rightarrow> if \<not> b then Stuck (ab s) else k s)
    (device_at cfg bus d i # xs) ds n"
proof (cases "n + 40 \<le> 4096")
  case True
  have "pci_ok (s\<lparr>trace := T\<rparr>) ds n" using assms(1) by simp
  from store_fits [OF this True] obtain s' where
    "store_pci_device_to_list bus d (cfg (config_address bus d i 0)) (of_nat i)
         (cfg (config_address bus d i 8)) (cfg (config_address bus d i 0xc))
         (cfg (config_address bus d i 0x2c)) (s\<lparr>trace := T\<rparr>) = Done True s'"
    "pci_ok s' (device_at cfg bus d i # ds) (n + 40)" unfolding device_at_code by blast
  with assms(2) show ?thesis by (simp add: scan_result_Cons)
next
  case False
  then have "4096 < n + 40" by simp
  have "pci_ok (s\<lparr>trace := T\<rparr>) ds n" using assms(1) by simp
  from store_full [OF this \<open>4096 < n + 40\<close>] obtain t where
    "store_pci_device_to_list bus d (cfg (config_address bus d i 0)) (of_nat i)
         (cfg (config_address bus d i 8)) (cfg (config_address bus d i 0xc))
         (cfg (config_address bus d i 0x2c)) (s\<lparr>trace := T\<rparr>) = Stuck t" by blast
  with False show ?thesis by (simp add: scan_result_Stuck)
qed

lemma find_functions_rest:
  assumes "config_space dev cfg"
  shows "slot_reg bus d reg \<Longrightarrow> pci_ok s ds n \<Longrightarrow> 0 < i \<Longrightarrow>
    scan_result (find_pci_functions dev bus d i reg s)
      (map (device_at cfg bus d) (filter (function_present cfg bus d) [i..<PCI_FUNCTION_MAX])) ds n"
proof (induction "PCI_FUNCTION_MAX - i" arbitrary: i reg s ds n)
  case 0
  then show ?case by (subst find_pci_functions.simps) (simp add: scan_result_Nil)
next
  case (Suc k)
  then have i: "i < PCI_FUNCTION_MAX" "k = PCI_FUNCTION_MAX - Suc i" by simp_all
  note IH = Suc.hyps(1) [of "Suc i"]
  show ?case
  proof (cases "function_present cfg bus d i")
    case False
    from find_function_absent [OF assms Suc.prems(1) i(1) this, of s] obtain reg' T where
      "slot_reg bus d reg'" "find_pci_functions dev bus d i reg s
        = find_pci_functions dev bus d (Suc i) reg' (s\<lparr>trace := T\<rparr>)" by auto
    with IH [of reg' "s\<lparr>trace := T\<rparr>" ds n] i False Suc.prems(2) show ?thesis
      by (simp add: filter_upt_rec [of _ i])
  next
    case True
    from find_function_present [OF assms Suc.prems(1) i(1) this, of s] obtain reg' T where
      r: "slot_reg bus d reg'" and e: "find_pci_functions dev bus d i reg s =
     (case store_pci_device_to_list bus d (cfg (config_address bus d i 0)) (of_nat i)
         (cfg (config_address bus d i 8)) (cfg (config_address bus d i 0xc))
         (cfg (config_address bus d i 0x2c)) (s\<lparr>trace := T\<rparr>) of
        Stuck s \<Rightarrow> Stuck s
      | Done b s \<Rightarrow>
          if \<not> b then Stuck (kern_abort ''pci.c'' 284 ''find_pci_data'' ''kmalloc failed'' s)
          else if i = 0 \<and> \<not> is_multi_function (cfg (config_address bus d i 0xc)) then Done 0 s
          else find_pci_functions dev bus d (i + 1) reg' s)" by blast
    have f: "map (device_at cfg bus d) (filter (function_present cfg bus d) [i..<PCI_FUNCTION_MAX]) =
      device_at cfg bus d i # map (device_at cfg bus d)
        (filter (function_present cfg bus d) [Suc i..<PCI_FUNCTION_MAX])"
      using True i(1) by (simp add: filter_upt_rec [of _ i])
    show ?thesis
      unfolding e f by (rule store_present [OF Suc.prems(2)]) (use IH [OF i(2) r] Suc.prems(3) in simp)
  qed
qed

text \<open>A whole slot.\<close>

lemma find_pci_data_slot:
  assumes c: "config_space dev cfg" and ok: "pci_ok s ds n"
  shows "scan_result (find_pci_data dev bus d s) (slot_devices cfg (bus, d)) ds n"
proof -
  define reg where "reg = pci_register_zero\<lparr>bus_num := ucast bus, dev_num := ucast d\<rparr>"
  have reg: "slot_reg bus d reg"
    by (simp add: reg_def slot_reg_def pci_register_zero_def pci_configuration_register.defs)
  have z: "0 < PCI_FUNCTION_MAX" by (simp add: PCI_FUNCTION_MAX_def)
  have e: "find_pci_data dev bus d s = find_pci_functions dev bus d 0 reg s"
    by (simp add: find_pci_data_def reg_def)
  show ?thesis
  proof (cases "function_present cfg bus d 0")
    case False
    from find_function_absent [OF c reg z this, of s] obtain reg' T where
      "slot_reg bus d reg'" "find_pci_data dev bus d s
        = find_pci_functions dev bus d (Suc 0) reg' (s\<lparr>trace := T\<rparr>)" unfolding e by auto
    with find_functions_rest [OF c, of bus d reg' "s\<lparr>trace := T\<rparr>" ds n "Suc 0"] False ok z show ?thesis
      by (simp add: slot_devices_def slot_functions_def filter_upt_rec [of _ 0])
  next
    case True
    let ?rest = "if is_multi_function (cfg (config_address bus d 0 0xc))
      then map (device_at cfg bus d) (filter (function_present cfg bus d) [Suc 0..<PCI_FUNCTION_MAX]) else []"
    have f: "slot_devices cfg (bus, d) = device_at cfg bus d 0 # ?rest"
      using True z by (simp add: slot_devices_def slot_functions_def filter_upt_rec [of _ 0])
    from find_function_present [OF c reg z True, of s] obtain reg' T where
      r: "slot_reg bus d reg'" and e': "find_pci_data dev bus d s =
     (case store_pci_device_to_list bus d (cfg (config_address bus d 0 0)) (of_nat 0)
         (cfg (config_address bus d 0 8)) (cfg (config_address bus d 0 0xc))
         (cfg (config_address bus d 0 0x2c)) (s\<lparr>trace := T\<rparr>) of
        Stuck s \<Rightarrow> Stuck s
      | Done b s \<Rightarrow>
          if \<not> b then Stuck (kern_abort ''pci.c'' 284 ''find_pci_data'' ''kmalloc failed'' s)
          else if 0 = (0 :: nat) \<and> \<not> is_multi_function (cfg (config_address bus d 0 0xc)) then Done 0 s
          else find_pci_functions dev bus d (0 + 1) reg' s)" unfolding e by blast
    show ?thesis
      unfolding f e'
      by (rule store_present [OF ok])
        (use find_functions_rest [OF c r, of _ _ _ "Suc 0"] in \<open>auto intro: scan_result_Nil\<close>)
  qed
qed

lemma find_pci_devices_slots:
  assumes "config_space dev cfg"
  shows "pci_ok s ds n \<Longrightarrow>
    scan_result (find_pci_devices dev slots s) (concat (map (slot_devices cfg) slots)) ds n"
proof (induction slots arbitrary: s ds n)
  case Nil
  then show ?case by (simp add: scan_result_Nil)
next
  case (Cons slot slots)
  obtain bus d where b: "slot = (bus, d)" by (cases slot)
  from scan_result_append [OF find_pci_data_slot [OF assms Cons.prems, of bus d],
      where k = "find_pci_devices dev slots" and ys = "concat (map (slot_devices cfg) slots)"]
    Cons.IH
  show ?case by (simp add: b)
qed

text \<open>The lookup walks the list.\<close>

lemma get_pci_loop_find:
  "path (pci_next s) a (map PNode ps) PHead \<Longrightarrow>
   get_pci_loop v dn fn s a = Some (find (\<lambda>p. pci_matches v dn fn (pci_data s p)) ps)"
proof (induction ps arbitrary: a)
  case Nil
  then show ?case by (subst get_pci_loop.simps) simp
next
  case (Cons p ps)
  then show ?case by (subst get_pci_loop.simps) auto
qed

lemma get_pci_device_finds:
  assumes "pci_ok s ds n"
  shows "\<exists>r. get_pci_device v dn fn s = Some r
    \<and> map_option (pci_data s) r = find (pci_matches v dn fn) ds"
proof -
  obtain ps where "path (pci_next s) (pci_next s PHead) (map PNode ps) PHead" "map (pci_data s) ps = ds"
    using assms by (auto simp: pci_ok_def)
  from get_pci_loop_find [OF this(1)] this(2) show ?thesis by (auto simp: get_pci_device_def find_map)
qed

lemma find_pci_scan:
  assumes "config_space dev cfg" and "pci_ok s ds n"
  shows "scan_result (find_pci_device dev s) (bus_devices cfg) ds n"
proof -
  let ?m = "bytes_of ''pci: start init'' @ [0x0a]"
  have "pci_ok (put_bytes ?m s) ds n"
    using assms(2) con_more_pci [OF put_bytes_more [of ?m s]] by simp
  from find_pci_devices_slots [OF assms(1) this, of pci_slots]
  show ?thesis by (simp add: find_pci_device_def bus_devices_slots Let_def)
qed

section \<open>Properties\<close>

text \<open>
  C10. The bus scan. On any configuration space, \<^verbatim>\<open>find_pci_device\<close> stores every device of the buses 0 to
  254, slots 0 to 30 and functions 0 to 6 (of a single-function device only function 0), with the
  fields decoded from its configuration words, in front of the devices already listed, as long as
  their 40-byte nodes fit into the page of \<^verbatim>\<open>kmalloc\<close>; one device too many stops the kernel. Afterwards
  \<^verbatim>\<open>get_pci_device\<close> returns the device scanned last among those that match, or null if there is none.
\<close>

theorem pci_scan_complete:
  assumes "config_space dev cfg" and "pci_ok s ds n"
  shows "if n + 40 * length (bus_devices cfg) \<le> 4096
    then \<exists>s'. find_pci_device dev s = Done () s'
      \<and> pci_ok s' (rev (bus_devices cfg) @ ds) (n + 40 * length (bus_devices cfg))
      \<and> (\<exists>r. get_pci_device v dn fn s' = Some r
          \<and> map_option (pci_data s') r = find (pci_matches v dn fn) (rev (bus_devices cfg) @ ds))
    else \<exists>t. find_pci_device dev s = Stuck t"
  using find_pci_scan [OF assms] get_pci_device_finds by (fastforce simp: scan_result_def split: if_splits)

text \<open>A bus with a single-function Intel bridge in slot 1 of bus 0 and nothing else.\<close>

definition demo_cfg :: "u32 \<Rightarrow> u32" where
  "demo_cfg a =
     (if take_bit 8 (drop_bit 16 a) = 0 \<and> take_bit 5 (drop_bit 11 a) = 1 \<and> take_bit 3 (drop_bit 8 a) = 0
      then (if take_bit 8 a = 0 then 0x70008086 else 0) else 0xffffffff)"

definition demo_bus :: device where
  "demo_bus es port = (case es of
     OutL a p # _ \<Rightarrow> if p = PCI_CONFIG_ADDRESS \<and> port = CONFIG_DATA_1 then demo_cfg a else 0
   | _ \<Rightarrow> 0)"

definition boot_pci :: pci_state where
  "boot_pci = task_state.extend boot_task (pci_state.fields (\<lambda>_. pci_device_zero) (\<lambda>_. PHead))"

lemma demo_bus_space: "config_space demo_bus demo_cfg"
  by (simp add: config_space_def demo_bus_def)

lemma boot_pci_ok: "pci_ok boot_pci [] 0"
proof -
  have "sTopAddr boot_pci = sTopAddr boot_task" "sTotalSize boot_pci = sTotalSize boot_task"
    "heap_alloc_table boot_pci = heap_alloc_table boot_task" "pci_next boot_pci = (\<lambda>_. PHead)"
    by (simp_all add: boot_pci_def pci_state.defs task_state.defs)
  then show ?thesis
    by (simp add: pci_ok_def kmalloc_ready_def heap_page_def boot_task_fields MAX_HEAP_PAGES_def
        exI [of _ "0 :: nat"])
qed

lemma take_bit_small: "unat (x :: 'a :: len word) < 2 ^ k \<Longrightarrow> take_bit k x = x"
  by (simp add: word_unat_eq_iff unsigned_take_bit_eq take_bit_nat_eq_self)

lemma config_address_fields:
  assumes "d < 32" and "f < 8" and "r < 256"
  shows "take_bit 8 (drop_bit 16 (config_address bus d f r)) = ucast bus"
    "take_bit 5 (drop_bit 11 (config_address bus d f r)) = ucast d"
    "take_bit 3 (drop_bit 8 (config_address bus d f r)) = of_nat f"
    "take_bit 8 (config_address bus d f r) = r"
proof -
  have top: "(0x80000000 :: u32) = push_bit 31 1" by (simp add: push_bit_eq_mult)
  have d: "take_bit 5 d = d" using assms(1) by (simp add: take_bit_small word_less_nat_alt)
  have r: "take_bit 8 r = r" using assms(3) by (simp add: take_bit_small word_less_nat_alt)
  have f: "take_bit 3 (of_nat f :: u32) = of_nat f"
    using assms(2) by (simp add: take_bit_small unsigned_of_nat take_bit_nat_eq_self)
  have b: "\<not> bit d n" if "5 \<le> n" for n using d that by (metis bit_take_bit_iff not_less)
  have b': "\<not> bit r n" if "8 \<le> n" for n using r that by (metis bit_take_bit_iff not_less)
  have fn: "take_bit 3 f = f" using assms(2) by (simp add: take_bit_nat_eq_self)
  have b'': "\<not> bit f n" if "3 \<le> n" for n
    using fn that by (metis bit_take_bit_iff not_less)
  have b3: "n < 8 \<and> n < 16" if "bit bus n" for n using bit_imp_le_length [OF that] by simp
  show "take_bit 8 (drop_bit 16 (config_address bus d f r)) = ucast bus"
    unfolding config_address_def top
    by (rule bit_word_eqI) (auto simp: bit_simps b b' b'' dest: b3)
  show "take_bit 5 (drop_bit 11 (config_address bus d f r)) = ucast d"
    unfolding config_address_def top
    by (rule bit_word_eqI) (auto simp: bit_simps b b' b'' dest: b3)
  show "take_bit 3 (drop_bit 8 (config_address bus d f r)) = of_nat f"
    unfolding config_address_def top
    by (rule bit_word_eqI) (auto simp: bit_simps b b' b'' dest: b3)
  show "take_bit 8 (config_address bus d f r) = r"
    unfolding config_address_def top
    by (rule bit_word_eqI) (auto simp: bit_simps b b' b'' dest: b3)
qed

lemma pci_slots_small: "(bus, d) \<in> set pci_slots \<Longrightarrow> d < 32"
  by (auto simp: pci_slots_def PCI_DEVICE_MAX_def word_less_nat_alt unsigned_of_nat take_bit_nat_eq_self)

lemma demo_cfg_slot:
  assumes "d < 32" and "f < 8" and "r < 256"
  shows "demo_cfg (config_address bus d f r) = (if bus = 0 \<and> d = 1 \<and> f = 0
    then (if r = 0 then 0x70008086 else 0) else 0xffffffff)"
proof -
  have "(ucast bus :: u32) = 0 \<longleftrightarrow> bus = 0" "(ucast d :: u32) = 1 \<longleftrightarrow> d = 1"
    using less_trans [OF unat_less_256, of 4294967296]
    by (simp_all add: word_unat_eq_iff unsigned_ucast_eq take_bit_nat_eq_self)
  moreover have "(of_nat f :: u32) = 0 \<longleftrightarrow> f = 0"
    using assms(2) by (simp add: word_unat_eq_iff unsigned_of_nat take_bit_nat_eq_self)
  ultimately show ?thesis unfolding demo_cfg_def config_address_fields [OF assms] by simp
qed

definition demo_bridge :: pci_device where
  "demo_bridge = pci_device_of 0 1 0x70008086 0 0 0 0"

lemma demo_slot_devices:
  assumes "d < 32"
  shows "slot_devices demo_cfg (bus, d) = (if (bus, d) = (0, 1) then [demo_bridge] else [])"
proof (cases "(bus, d) = (0, 1)")
  case True
  with assms show ?thesis
    by (simp add: slot_devices_def slot_functions_def function_present_def is_multi_function_def
        device_at_code demo_bridge_def demo_cfg_slot)
next
  case False
  have "function_present demo_cfg bus d f = False" if "f < 7" for f
    using assms that False by (auto simp: function_present_def demo_cfg_slot)
  then show ?thesis using False
    by (auto simp: slot_devices_def slot_functions_def PCI_FUNCTION_MAX_def filter_empty_conv)
qed

text \<open>A bus with something in slot 1 of bus 0 only.\<close>

lemma one_slot_devices:
  assumes "\<And>bus d. d < 32 \<Longrightarrow> slot_devices cfg (bus, d) = (if (bus, d) = (0, 1) then xs else [])"
  shows "bus_devices cfg = xs"
proof -
  let ?g = "\<lambda>p :: u8 \<times> u8. if p = (0, 1) then xs else []"
  have row: "concat (map ?g (map (\<lambda>d. (of_nat b, of_nat d)) [0..<31])) =
      (if b = 0 then xs else [])" if "b < 255" for b
    using that of_nat_u8_eq [of b 0] by (simp add: upt_rec)
  have "bus_devices cfg = concat (map ?g pci_slots)"
    unfolding bus_devices_slots
    by (intro arg_cong [where f = concat] map_cong refl) (metis assms pci_slots_small surj_pair)
  also have "\<dots> = concat (map (\<lambda>b. concat (map ?g (map (\<lambda>d. (of_nat b, of_nat d)) [0..<31]))) [0..<255])"
    unfolding pci_slots_def concat_map_concat map_map comp_def PCI_DEVICE_MAX_def PCI_BUS_MAX_def by (rule refl)
  also have "\<dots> = concat (map (\<lambda>b. if b = 0 then xs else []) [0..<255])"
    by (intro arg_cong [where f = concat] map_cong refl row) simp
  also have "[0..<255] = 0 # [Suc 0..<255]" by (rule upt_conv_Cons) simp
  also have "concat (map (\<lambda>b. if b = 0 then xs else []) (0 # [Suc 0..<255])) = xs"
    by (simp del: upt_rec_numeral)
  finally show ?thesis .
qed

lemma demo_bus_devices: "bus_devices demo_cfg = [demo_bridge]"
  by (rule one_slot_devices) (rule demo_slot_devices)

theorem pci_scan_complete_witness:
  "\<exists>s' a. find_pci_device demo_bus boot_pci = Done () s' \<and> pci_ok s' [demo_bridge] 40
    \<and> get_pci_device 0x8086 0x7000 0 s' = Some (Some a) \<and> pci_data s' a = demo_bridge"
proof -
  have "find (pci_matches 0x8086 0x7000 0) [demo_bridge] = Some demo_bridge"
    by (simp add: pci_matches_def demo_bridge_def pci_device_of_def pci_device_zero_def pci_device.defs)
  with pci_scan_complete [OF demo_bus_space boot_pci_ok, of "0x8086" "0x7000" 0] show ?thesis
    by (auto simp: demo_bus_devices)
qed

end
