(* ===== verification/Ata_Props.thy ===== *)
theory Ata_Props
  imports Ata Pci_Props
begin

text \<open>
  Reading and writing sectors against a specification of the drive. The drive is an arbitrary device
  that follows the programmed I/O protocol: what it holds is determined by the accesses so far.
\<close>

section \<open>The protocol\<close>

text \<open>The trace is newest first. What the drive has been told:\<close>

fun is_command :: "event \<Rightarrow> bool" where
  "is_command (OutB v p) \<longleftrightarrow> p = COMMAND_REGISTER"
| "is_command _ \<longleftrightarrow> False"

fun is_transfer :: "event \<Rightarrow> bool" where
  "is_transfer (OutW w p) \<longleftrightarrow> p = DATA_REGISTER"
| "is_transfer (InW p w) \<longleftrightarrow> p = DATA_REGISTER"
| "is_transfer _ \<longleftrightarrow> False"

fun last_out :: "u16 \<Rightarrow> event list \<Rightarrow> u8" where
  "last_out p [] = 0"
| "last_out p (OutB v q # es) = (if q = p then v else last_out p es)"
| "last_out p (_ # es) = last_out p es"

definition since_command :: "event list \<Rightarrow> event list" where
  "since_command es = takeWhile (\<lambda>e. \<not> is_command e) es"

definition command :: "event list \<Rightarrow> u8" where
  "command es = last_out COMMAND_REGISTER es"

text \<open>The logical block address: 28 bits from four registers.\<close>

definition lba :: "event list \<Rightarrow> u32" where
  "lba es = ucast (last_out SECTOR_NUMBER_REGISTER es)
     OR push_bit 8 (ucast (last_out CYLINDER_LOW_REGISTER es))
     OR push_bit 16 (ucast (last_out CYLINDER_HIGH_REGISTER es))
     OR push_bit 24 (ucast (last_out DEVICE_HEAD_REGISTER es AND 0x0f))"

text \<open>
  The words moved since the command, and how often the status was read. The commands that move the 256
  words of a sector are reading, writing and the identification (\<^verbatim>\<open>0xec\<close>).
\<close>

definition transferred :: "event list \<Rightarrow> nat" where
  "transferred es = length (filter is_transfer (since_command es))"

fun is_status_read :: "event \<Rightarrow> bool" where
  "is_status_read (InB p v) \<longleftrightarrow> p = STATUS_REGISTER"
| "is_status_read _ \<longleftrightarrow> False"

definition status_reads :: "event list \<Rightarrow> nat" where
  "status_reads es = length (filter is_status_read (since_command es))"

definition transferring :: "event list \<Rightarrow> bool" where
  "transferring es \<longleftrightarrow> command es \<in> {PIO_SECTOR_READ_CMD, PIO_SECTOR_WRITE_CMD, 0xec} \<and> transferred es < 256"

text \<open>The contents after the accesses: a write command stores the words in the order they come.\<close>

fun disk :: "(u32 \<Rightarrow> nat \<Rightarrow> u16) \<Rightarrow> event list \<Rightarrow> u32 \<Rightarrow> nat \<Rightarrow> u16" where
  "disk c [] = c"
| "disk c (OutW w p # es) =
     (if p = DATA_REGISTER \<and> command es = PIO_SECTOR_WRITE_CMD \<and> transferred es < 256
      then (disk c es)(lba es := (disk c es (lba es))(transferred es := w)) else disk c es)"
| "disk c (_ # es) = disk c es"

text \<open>How often the alternate status has been read in a row.\<close>

fun is_poll :: "event \<Rightarrow> bool" where
  "is_poll (InB p v) \<longleftrightarrow> p = ALTERNATE_STATUS_REGISTER"
| "is_poll _ \<longleftrightarrow> False"

definition polls :: "event list \<Rightarrow> nat" where
  "polls es = length (takeWhile is_poll es)"

text \<open>
  A drive with the contents \<open>c\<close>. Outside a transfer it may be busy, or still show DRQ, at any time, but
  not longer than 999 readings of the alternate status in a row. In a transfer it raises DRQ, without
  an error, at the latest when its status is read the \<open>n + 1\<close>-st time after the command.
\<close>

definition ata_disk :: "device \<Rightarrow> (u32 \<Rightarrow> nat \<Rightarrow> u16) \<Rightarrow> nat \<Rightarrow> bool" where
  "ata_disk dev c n \<longleftrightarrow> (\<forall>es.
     (\<not> transferring es \<longrightarrow> 999 \<le> polls es \<longrightarrow>
        (let st = ucast (dev es ALTERNATE_STATUS_REGISTER) :: u8 in \<not> bit st 7 \<and> \<not> bit st 3))
     \<and> (transferring es \<longrightarrow>
        (let st = ucast (dev es STATUS_REGISTER) :: u8 in
           \<not> bit st 0 \<and> (n \<le> status_reads es \<longrightarrow> bit st 3)))
     \<and> (transferring es \<longrightarrow> command es = PIO_SECTOR_READ_CMD \<longrightarrow>
        ucast (dev es DATA_REGISTER) = disk c es (lba es) (transferred es)))"

section \<open>Lemmas about the trace\<close>

text \<open>Events that neither start a command nor move data.\<close>

definition quiet :: "event \<Rightarrow> bool" where
  "quiet e \<longleftrightarrow> \<not> is_command e \<and> \<not> is_transfer e"

text \<open>Events that set no register either.\<close>

fun harmless :: "event \<Rightarrow> bool" where
  "harmless (InB p v) \<longleftrightarrow> True"
| "harmless (Wait u) \<longleftrightarrow> True"
| "harmless _ \<longleftrightarrow> False"

lemma passive_quiet: "harmless e \<Longrightarrow> quiet e"
  by (cases e) (simp_all add: quiet_def)

lemma command_Cons: "\<not> is_command e \<Longrightarrow> command (e # es) = command es"
  by (cases e) (auto simp: command_def)

lemma quiet_Cons:
  assumes "quiet e"
  shows "command (e # es) = command es" "transferred (e # es) = transferred es"
    "disk c (e # es) = disk c es" "transferring (e # es) = transferring es"
proof -
  show c: "command (e # es) = command es" using assms by (simp add: quiet_def command_Cons)
  show t: "transferred (e # es) = transferred es"
    using assms by (simp add: quiet_def transferred_def since_command_def)
  show "transferring (e # es) = transferring es" by (simp add: transferring_def c t)
  show "disk c (e # es) = disk c es" using assms by (cases e) (simp_all add: quiet_def)
qed

lemma quiet_append:
  assumes "list_all quiet T"
  shows "command (T @ es) = command es" "transferred (T @ es) = transferred es"
    "disk c (T @ es) = disk c es" "transferring (T @ es) = transferring es"
  using assms by (induction T) (simp_all add: quiet_Cons)

lemma last_out_passive: "list_all harmless T \<Longrightarrow> last_out p (T @ es) = last_out p es"
proof (induction T)
  case (Cons e T)
  then show ?case by (cases e) auto
qed simp

lemma lba_passive: "list_all harmless T \<Longrightarrow> lba (T @ es) = lba es"
  by (simp add: lba_def last_out_passive)

lemma all_quiet: "list_all harmless T \<Longrightarrow> list_all quiet T"
  by (induction T) (simp_all add: passive_quiet)

text \<open>The word of a transfer.\<close>

lemma transfer_Cons:
  assumes "is_transfer e"
  shows "command (e # es) = command es" "transferred (e # es) = Suc (transferred es)"
    "lba (e # es) = lba es"
proof -
  from assms have n: "\<not> is_command e" by (cases e) auto
  show "command (e # es) = command es" using n by (rule command_Cons)
  show "transferred (e # es) = Suc (transferred es)"
    using assms n by (simp add: transferred_def since_command_def)
  show "lba (e # es) = lba es" using assms by (cases e) (simp_all add: lba_def)
qed

section \<open>Selecting the drive\<close>

lemma inb_p_eq: "inb_p dev p s = (ucast (dev (trace s) p), s\<lparr>trace := InB p (ucast (dev (trace s) p)) # trace s\<rparr>)"
  by (simp add: inb_p_def Let_def)

lemma bit_and_1: "(drop_bit k (x :: u8) AND 1 = 0) = (\<not> bit x k)" "(drop_bit k (x :: u8) AND 1 = 1) = bit x k"
  by (simp_all add: and_one_eq bit_iff_odd_drop_bit odd_iff_mod_2_eq_one even_iff_mod_2_eq_zero)

lemma status_bits: "is_error st \<longleftrightarrow> bit st 0" "is_drq_active st \<longleftrightarrow> bit st 3"
  using bit_and_1(1) [of 0 st] bit_and_1(2) [of 3 st] by (simp_all only: is_error_def is_drq_active_def drop_bit_0 id_apply not_not)

text \<open>The wait for an idle drive succeeds within its 1000 readings.\<close>

lemma bsy_drq_clears:
  assumes d: "ata_disk dev c n"
  shows "\<not> transferring (trace s) \<Longrightarrow> i \<le> polls (trace s) \<Longrightarrow> i < 1000 \<Longrightarrow>
    \<exists>T. list_all harmless T \<and> bsy_drq_loop dev ALTERNATE_STATUS_REGISTER i s = (True, s\<lparr>trace := T @ trace s\<rparr>)"
proof (induction "1000 - i" arbitrary: i s rule: less_induct)
  case less
  define st where "st = (ucast (dev (trace s) ALTERNATE_STATUS_REGISTER) :: u8)"
  let ?e = "InB ALTERNATE_STATUS_REGISTER st"
  let ?s = "s\<lparr>trace := ?e # trace s\<rparr>"
  have e: "list_all harmless [?e]" "quiet ?e" by (simp_all add: quiet_def)
  show ?case
  proof (cases "bit st 7 \<or> bit st 3")
    case False
    then have "bsy_drq_loop dev ALTERNATE_STATUS_REGISTER i s = (True, ?s)"
      by (subst bsy_drq_loop.simps)
        (simp only: inb_p_eq st_def [symmetric] Let_def prod.case bit_and_1 de_Morgan_disj simp_thms if_False)
    with e show ?thesis by (intro exI [of _ "[?e]"]) simp
  next
    case True
    have "\<not> 999 \<le> polls (trace s)" using d less.prems(1) True by (auto simp: ata_disk_def Let_def st_def)
    then have n: "i + 1 < 1000" using less.prems(2) by simp
    have "\<not> transferring (trace ?s)" using less.prems(1) quiet_Cons(4) [OF e(2)] by simp
    moreover have "i + 1 \<le> polls (trace ?s)" using less.prems(2) by (simp add: polls_def)
    moreover have "1000 - (i + 1) < 1000 - i" using n by simp
    ultimately obtain T where T: "list_all harmless T"
      "bsy_drq_loop dev ALTERNATE_STATUS_REGISTER (i + 1) ?s = (True, ?s\<lparr>trace := T @ trace ?s\<rparr>)"
      using less.hyps [of "i + 1" ?s] n by blast
    have "bsy_drq_loop dev ALTERNATE_STATUS_REGISTER i s = bsy_drq_loop dev ALTERNATE_STATUS_REGISTER (i + 1) ?s"
      using True n by (subst bsy_drq_loop.simps)
        (simp only: inb_p_eq st_def [symmetric] Let_def prod.case bit_and_1 de_Morgan_conj not_not simp_thms if_True)
    with T show ?thesis by (intro exI [of _ "T @ [?e]"]) simp
  qed
qed

lemma not_busy:
  assumes "ata_disk dev c n" and "\<not> transferring (trace s)"
  shows "\<exists>T. list_all harmless T \<and> wait_until_BSY_and_DRQ_are_zero dev ALTERNATE_STATUS_REGISTER s =
    (True, s\<lparr>trace := T @ trace s\<rparr>)"
  using bsy_drq_clears [OF assms, of 0] by (simp add: wait_until_BSY_and_DRQ_are_zero_def)

lemma select_idle:
  assumes d: "ata_disk dev c n" and i: "\<not> transferring (trace s)"
  shows "\<exists>T. list_all quiet T \<and> wait_until_device_is_ready dev device s = (True, s\<lparr>trace := T @ trace s\<rparr>)"
proof -
  obtain T1 where T1: "list_all quiet T1" "wait_until_BSY_and_DRQ_are_zero dev ALTERNATE_STATUS_REGISTER s =
      (True, s\<lparr>trace := T1 @ trace s\<rparr>)" using not_busy [OF d i] all_quiet by blast
  define s1 where "s1 = s\<lparr>trace := T1 @ trace s\<rparr>"
  define h where "h = InB DEVICE_HEAD_REGISTER (ucast (dev (trace s1) DEVICE_HEAD_REGISTER))"
  define w where "w = OutB (if device = 0 then ucast (dev (trace s1) DEVICE_HEAD_REGISTER) AND 0xf
    else ucast (dev (trace s1) DEVICE_HEAD_REGISTER) OR 0x10) DEVICE_HEAD_REGISTER"
  define s2 where "s2 = s1\<lparr>trace := Wait 2 # Wait 5 # w # h # trace s1\<rparr>"
  have q: "list_all quiet ([Wait 2, Wait 5, w, h] @ T1)"
    using T1(1) by (simp add: quiet_def h_def w_def ata_ports)
  have "\<not> transferring (trace s2)" using i quiet_append(4) [OF q] by (simp add: s1_def s2_def)
  from not_busy [OF d this] all_quiet obtain T2 where T2: "list_all quiet T2"
    "wait_until_BSY_and_DRQ_are_zero dev ALTERNATE_STATUS_REGISTER s2 = (True, s2\<lparr>trace := T2 @ trace s2\<rparr>)"
    by blast
  have "busy_wait 2 (set_device_number dev device s1) = s2"
    by (simp add: busy_wait_def set_device_number_def inb_p_eq outb_p_def Let_def s2_def h_def w_def)
  with T1(2) T2(2)
  have "wait_until_device_is_ready dev device s = (True, s2\<lparr>trace := T2 @ trace s2\<rparr>)"
    by (simp add: wait_until_device_is_ready_def eval_nat_numeral do_device_selection_protocol_def
        Let_def flip: s1_def)
  then show ?thesis
    using q T2(1) by (intro exI [of _ "T2 @ [Wait 2, Wait 5, w, h] @ T1"]) (simp add: s1_def s2_def)
qed

section \<open>Starting a command\<close>

text \<open>The trace right after the command and its wait, and what the registers then say.\<close>

definition command_trace :: "u8 \<Rightarrow> u32 \<Rightarrow> event list \<Rightarrow> event list" where
  "command_trace cmd sector es =
     Wait 4 # OutB cmd COMMAND_REGISTER # OutB 1 SECTOR_COUNT_REGISTER
     # OutB (ucast ((drop_bit 24 sector AND 0x1f) OR 0x40)) DEVICE_HEAD_REGISTER
     # OutB (ucast (drop_bit 16 sector AND 0xff)) CYLINDER_HIGH_REGISTER
     # OutB (ucast (drop_bit 8 sector AND 0xff)) CYLINDER_LOW_REGISTER
     # OutB (ucast (sector AND 0xff)) SECTOR_NUMBER_REGISTER
     # OutB 0x00 FEATURES_REGISTER # OutB 0x02 DEVICE_CONTROL_REGISTER # es"

lemma command_trace_says:
  assumes "sector < 2 ^ 28"
  shows "command (command_trace cmd sector es) = cmd" "transferred (command_trace cmd sector es) = 0"
    "status_reads (command_trace cmd sector es) = 0" "lba (command_trace cmd sector es) = sector"
    "disk c (command_trace cmd sector es) = disk c es"
proof -
  have z: "\<not> bit sector n" if "28 \<le> n" for n
  proof -
    have "take_bit 28 sector = sector"
      using assms by (simp add: word_unat_eq_iff unsigned_take_bit_eq take_bit_nat_eq_self word_less_nat_alt)
    then show ?thesis using that by (metis bit_take_bit_iff not_less)
  qed
  have m: "(0xff :: u32) = mask 8" "(0x1f :: u32) = mask 5" "(0x0f :: u8) = mask 4" "(0x40 :: u32) = push_bit 6 1"
    by (simp_all add: mask_eq_exp_minus_1 push_bit_eq_mult)
  have b64: "bit (64 :: int) k \<longleftrightarrow> k = 6" for k by (rule bit_pow2) simp
  show "command (command_trace cmd sector es) = cmd" by (simp add: command_trace_def command_def)
  show "transferred (command_trace cmd sector es) = 0" "status_reads (command_trace cmd sector es) = 0"
    by (simp_all add: command_trace_def transferred_def status_reads_def since_command_def)
  show "disk c (command_trace cmd sector es) = disk c es" by (simp add: command_trace_def)
  have "lba (command_trace cmd sector es) = ucast (ucast (sector AND 0xff) :: u8)
      OR push_bit 8 (ucast (ucast (drop_bit 8 sector AND 0xff) :: u8))
      OR push_bit 16 (ucast (ucast (drop_bit 16 sector AND 0xff) :: u8))
      OR push_bit 24 (ucast ((ucast ((drop_bit 24 sector AND 0x1f) OR 0x40) :: u8) AND 0x0f))"
    by (simp add: command_trace_def lba_def ata_ports)
  also have "\<dots> = sector"
  proof (rule bit_word_eqI)
    fix n assume "n < LENGTH(32)"
    then consider "n < 8" | "8 \<le> n" "n < 16" | "16 \<le> n" "n < 24" | "24 \<le> n" "n < 28" | "28 \<le> n"
      by fastforce
    then show "bit (ucast (ucast (sector AND 0xff) :: u8)
      OR push_bit 8 (ucast (ucast (drop_bit 8 sector AND 0xff) :: u8))
      OR push_bit 16 (ucast (ucast (drop_bit 16 sector AND 0xff) :: u8))
      OR push_bit 24 (ucast ((ucast ((drop_bit 24 sector AND 0x1f) OR 0x40) :: u8) AND 0x0f)) :: u32) n = bit sector n"
      unfolding m using z by cases (auto simp: bit_simps b64)
  qed
  finally show "lba (command_trace cmd sector es) = sector" .
qed

lemma status_reads_Cons: "\<not> is_command e \<Longrightarrow> status_reads (e # es) = (if is_status_read e then Suc (status_reads es) else status_reads es)"
  by (simp add: status_reads_def since_command_def)

text \<open>The status loop ends with DRQ.\<close>

lemma rw_status_ready:
  assumes d: "ata_disk dev c n" and "n \<le> 6"
  shows "transferring (trace s) \<Longrightarrow> status_reads (trace s) = k \<Longrightarrow> k \<le> n \<Longrightarrow>
    \<exists>T. list_all harmless T \<and> rw_status_loop dev device k s = (True, s\<lparr>trace := T @ trace s\<rparr>)"
proof (induction "n - k" arbitrary: k s)
  case (0 k s)
  define st where "st = (ucast (dev (trace s) STATUS_REGISTER) :: u8)"
  have "\<not> bit st 0" "bit st 3" using d 0 by (simp_all add: ata_disk_def Let_def st_def)
  then have "\<not> is_error st" "is_drq_active st"
    by (simp_all only: status_bits not_False_eq_True)
  then show ?case
    by (intro exI [of _ "[InB STATUS_REGISTER st]"])
      (simp, subst rw_status_loop.simps, simp add: inb_p_eq flip: st_def)
next
  case (Suc m k s)
  define st where "st = (ucast (dev (trace s) STATUS_REGISTER) :: u8)"
  let ?s = "s\<lparr>trace := InB STATUS_REGISTER st # trace s\<rparr>"
  have "\<not> bit st 0" using d Suc.prems by (simp add: ata_disk_def Let_def st_def)
  then have e: "\<not> is_error st"
    by (simp only: status_bits not_False_eq_True)
  have q: "quiet (InB STATUS_REGISTER st)" by (simp add: quiet_def)
  show ?case
  proof (cases "is_drq_active st")
    case True
    with e show ?thesis
      by (intro exI [of _ "[InB STATUS_REGISTER st]"])
        (simp, subst rw_status_loop.simps, simp add: inb_p_eq flip: st_def)
  next
    case False
    have "transferring (trace ?s)" "status_reads (trace ?s) = Suc k"
      using Suc.prems q by (simp_all add: quiet_Cons status_reads_Cons)
    from Suc.hyps(1) [OF _ this] Suc.hyps(2) Suc.prems(3) obtain T where
      T: "list_all harmless T" "rw_status_loop dev device (Suc k) ?s = (True, ?s\<lparr>trace := T @ trace ?s\<rparr>)"
      by fastforce
    have "k \<le> 5" using Suc.hyps(2) Suc.prems(3) assms(2) by simp
    with T e False show ?thesis
      by (intro exI [of _ "T @ [InB STATUS_REGISTER st]"])
        (simp, subst rw_status_loop.simps, simp add: inb_p_eq flip: st_def)
  qed
qed

text \<open>A sector command on an idle drive: the drive is in the transfer of that sector.\<close>

lemma sector_rw_starts:
  assumes d: "ata_disk dev c n" "n \<le> 6" and i: "\<not> transferring (trace s)"
    and b: "sector \<le> max_logical_sector_num s" "sector < 2 ^ 28"
    and cmd: "cmd \<in> {PIO_SECTOR_READ_CMD, PIO_SECTOR_WRITE_CMD}"
  shows "\<exists>es. sector_rw_common dev cmd device sector s = (True, s\<lparr>trace := es\<rparr>)
    \<and> command es = cmd \<and> transferred es = 0 \<and> lba es = sector \<and> disk c es = disk c (trace s)"
proof -
  obtain T where T: "list_all quiet T" "wait_until_device_is_ready dev device s = (True, s\<lparr>trace := T @ trace s\<rparr>)"
    using select_idle [OF d(1) i] by blast
  define es where "es = command_trace cmd sector (T @ trace s)"
  define a where "a = InB ALTERNATE_STATUS_REGISTER (ucast (dev es ALTERNATE_STATUS_REGISTER))"
  let ?s = "s\<lparr>trace := a # es\<rparr>"
  note C = command_trace_says [OF b(2), where cmd = cmd and es = "T @ trace s", folded es_def]
  have q: "quiet a" "harmless a" "\<not> is_command a" "\<not> is_status_read a"
    by (simp_all add: a_def quiet_def ata_ports)
  have "transferring (trace ?s)" "status_reads (trace ?s) = 0"
    using q C cmd by (auto simp: quiet_Cons status_reads_Cons transferring_def)
  from rw_status_ready [OF d this] obtain T' where
    T': "list_all harmless T'" "rw_status_loop dev device 0 ?s = (True, ?s\<lparr>trace := T' @ a # es\<rparr>)" by auto
  have "sector_rw_common dev cmd device sector s = rw_status_loop dev device 0 ?s"
    unfolding sector_rw_common_def if_not_P [OF b(1) [unfolded not_less [symmetric]]]
    using T(2) by (simp add: Let_def outb_p_def busy_wait_def inb_p_eq a_def es_def command_trace_def)
  moreover have "lba (T' @ a # es) = sector"
    using lba_passive [of "T' @ [a]" es] T'(1) q(2) C(4) by simp
  moreover have "command (T' @ a # es) = cmd" "transferred (T' @ a # es) = 0"
    "disk c (T' @ a # es) = disk c (trace s)"
    using quiet_append [OF all_quiet [OF T'(1)]] q(1) C quiet_append(3) [OF T(1)]
    by (simp_all add: quiet_Cons)
  ultimately show ?thesis using T'(2) by auto
qed

lemma sector_rw_rejects:
  assumes "max_logical_sector_num s < sector"
  shows "sector_rw_common dev cmd device sector s = (False, printk_line ''Invalid Sector number 0x%lx'' [PInt sector] s)"
  using assms by (simp add: sector_rw_common_def)

section \<open>Moving the words\<close>

definition buf_word :: "memory \<Rightarrow> u32 \<Rightarrow> nat \<Rightarrow> u16" where
  "buf_word m buf i = read16 m (buf + of_nat (2 * i))"

lemma buf_word_write:
  assumes "i < 256" and "k < 256"
  shows "buf_word (write16 (buf + of_nat (2 * k)) w m) buf i = (if i = k then w else buf_word m buf i)"
proof (cases "i = k")
  case True
  then show ?thesis by (simp add: buf_word_def)
next
  case False
  have ne: "(buf + of_nat (2 * i)) + of_nat a \<noteq> (buf + of_nat (2 * k)) + of_nat b" if "a < 2" "b < 2" for a b
  proof -
    have "2 * i + a \<noteq> 2 * k + b" using False that by presburger
    then have "(of_nat (2 * i + a) :: u32) \<noteq> of_nat (2 * k + b)"
      using assms that by (subst of_nat_u32_iff) simp_all
    then show ?thesis by (simp add: add.assoc)
  qed
  from ne [of 0 0] ne [of 0 1] ne [of 1 0] ne [of 1 1] False show ?thesis
    unfolding buf_word_def by (subst read16_write16_other) simp_all
qed

lemma same_outside_word:
  assumes "same_outside buf (2 * k) m m'"
  shows "same_outside buf (2 * Suc k) m (write16 (buf + of_nat (2 * k)) w m')"
proof -
  have "write16 (buf + of_nat (2 * k)) w m' q = m q" if "\<forall>i < 2 * Suc k. q \<noteq> buf + of_nat i" for q
  proof -
    have "q \<noteq> buf + of_nat (2 * k)" "q \<noteq> buf + of_nat (2 * k + 1)" 
      by (rule that [rule_format], simp)+
    then have "write16 (buf + of_nat (2 * k)) w m' q = m' q" by (intro write16_outside) (simp_all add: ac_simps)
    also have "\<dots> = m q" using assms that by (simp add: same_outside_def)
    finally show ?thesis .
  qed
  then show ?thesis by (simp add: same_outside_def)
qed

lemma read_words:
  assumes d: "ata_disk dev c n" and r: "command (trace s) = PIO_SECTOR_READ_CMD" "transferred (trace s) = 0"
  shows "k \<le> 256 \<Longrightarrow> \<exists>es m. fold (read_word dev buf) [0..<k] s = s\<lparr>trace := es, mem := m\<rparr>
    \<and> command es = PIO_SECTOR_READ_CMD \<and> transferred es = k \<and> lba es = lba (trace s)
    \<and> disk c es = disk c (trace s)
    \<and> (\<forall>i < k. buf_word m buf i = disk c (trace s) (lba (trace s)) i) \<and> same_outside buf (2 * k) (mem s) m"
proof (induction k)
  case 0
  show ?case using r by (intro exI [of _ "trace s"] exI [of _ "mem s"]) simp
next
  case (Suc k)
  then obtain es m where IH: "fold (read_word dev buf) [0..<k] s = s\<lparr>trace := es, mem := m\<rparr>"
      "command es = PIO_SECTOR_READ_CMD" "transferred es = k" "lba es = lba (trace s)"
      "disk c es = disk c (trace s)"
      "\<forall>i < k. buf_word m buf i = disk c (trace s) (lba (trace s)) i" "same_outside buf (2 * k) (mem s) m"
    by auto
  define w where "w = (ucast (dev es DATA_REGISTER) :: u16)"
  have "transferring es" using IH(2,3) Suc.prems by (simp add: transferring_def)
  with d IH have w: "w = disk c (trace s) (lba (trace s)) k" by (simp add: ata_disk_def w_def)
  let ?e = "InW DATA_REGISTER w" and ?m = "write16 (buf + of_nat (2 * k)) w m"
  have e: "fold (read_word dev buf) [0..<Suc k] s = s\<lparr>trace := ?e # es, mem := ?m\<rparr>"
    using IH(1) by (simp add: read_word_def inw_p_def Let_def w_def)
  moreover have "\<forall>i < Suc k. buf_word ?m buf i = disk c (trace s) (lba (trace s)) i"
    using IH(6) w Suc.prems by (auto simp: buf_word_write less_Suc_eq simp del: of_nat_mult)
  moreover have "same_outside buf (2 * Suc k) (mem s) ?m" by (rule same_outside_word [OF IH(7)])
  ultimately show ?case
    using IH(2-5) transfer_Cons [of ?e es] by (intro exI [of _ "?e # es"] exI [of _ ?m]) simp
qed

lemma write_words:
  assumes r: "command (trace s) = PIO_SECTOR_WRITE_CMD" "transferred (trace s) = 0"
  shows "k \<le> 256 \<Longrightarrow> \<exists>es. fold (write_word buf) [0..<k] s = s\<lparr>trace := es\<rparr>
    \<and> command es = PIO_SECTOR_WRITE_CMD \<and> transferred es = k \<and> lba es = lba (trace s)
    \<and> disk c es = (disk c (trace s))(lba (trace s) :=
        \<lambda>i. if i < k then buf_word (mem s) buf i else disk c (trace s) (lba (trace s)) i)"
proof (induction k)
  case 0
  show ?case using r by (intro exI [of _ "trace s"]) simp
next
  case (Suc k)
  then have "k \<le> 256" by simp
  from Suc.IH [OF this] obtain es where IH: "fold (write_word buf) [0..<k] s = s\<lparr>trace := es\<rparr>"
      "command es = PIO_SECTOR_WRITE_CMD" "transferred es = k" "lba es = lba (trace s)"
      "disk c es = (disk c (trace s))(lba (trace s) :=
        \<lambda>i. if i < k then buf_word (mem s) buf i else disk c (trace s) (lba (trace s)) i)"
    by blast
  let ?e = "OutW (buf_word (mem s) buf k) DATA_REGISTER"
  have "fold (write_word buf) [0..<Suc k] s = s\<lparr>trace := ?e # es\<rparr>"
    using IH(1) by (simp add: write_word_def outw_p_def buf_word_def)
  moreover have "disk c (?e # es) = (disk c (trace s))(lba (trace s) :=
        \<lambda>i. if i < Suc k then buf_word (mem s) buf i else disk c (trace s) (lba (trace s)) i)"
    using IH(2-5) Suc.prems by (auto simp: fun_eq_iff less_Suc_eq)
  ultimately show ?case
    using IH(2-4) transfer_Cons [of ?e es] by (intro exI [of _ "?e # es"]) simp
qed

lemma finish_eq:
  "\<exists>T. list_all harmless T \<and> finish_sector_rw dev s = s\<lparr>trace := T @ trace s\<rparr>"
proof -
  let ?a = "InB ALTERNATE_STATUS_REGISTER (ucast (dev (trace s) ALTERNATE_STATUS_REGISTER))"
  let ?b = "InB STATUS_REGISTER (ucast (dev (?a # trace s) STATUS_REGISTER))"
  show ?thesis
    by (intro exI [of _ "[?b, ?a]"]) (simp add: finish_sector_rw_def inb_p_eq)
qed

section \<open>Whole sectors\<close>

definition disk_idle :: "'a machine_scheme \<Rightarrow> bool" where
  "disk_idle s \<longleftrightarrow> \<not> transferring (trace s)"

lemma read_sector_spec:
  assumes d: "ata_disk dev c n" "n \<le> 6" and i: "disk_idle s"
    and b: "sector \<le> max_logical_sector_num s" "sector < 2 ^ 28"
  shows "\<exists>s'. read_sector dev device sector buf 256 s = Done 0 s' \<and> disk_idle s'
    \<and> disk c (trace s') = disk c (trace s) \<and> max_logical_sector_num s' = max_logical_sector_num s
    \<and> (\<forall>i < 256. buf_word (mem s') buf i = disk c (trace s) sector i)
    \<and> same_outside buf 512 (mem s) (mem s')"
proof -
  obtain es where es: "sector_rw_common dev PIO_SECTOR_READ_CMD device sector s = (True, s\<lparr>trace := es\<rparr>)"
    "command es = PIO_SECTOR_READ_CMD" "transferred es = 0" "lba es = sector" "disk c es = disk c (trace s)"
    using sector_rw_starts [OF d i [unfolded disk_idle_def] b, of PIO_SECTOR_READ_CMD device] by auto
  have "unat (256 :: u32) = 256" by simp
  from read_words [OF d(1), of "s\<lparr>trace := es\<rparr>" 256 buf] es obtain es' m where
    f: "fold (read_word dev buf) [0..<256] (s\<lparr>trace := es\<rparr>) = s\<lparr>trace := es\<rparr>\<lparr>trace := es', mem := m\<rparr>"
    and r: "command es' = PIO_SECTOR_READ_CMD" "transferred es' = 256" "disk c es' = disk c (trace s)"
      "\<forall>i < 256. buf_word m buf i = disk c (trace s) sector i" "same_outside buf 512 (mem s) m"
    by auto
  let ?t = "s\<lparr>trace := es', mem := m\<rparr>"
  obtain T where T: "list_all harmless T" "finish_sector_rw dev ?t = ?t\<lparr>trace := T @ trace ?t\<rparr>"
    using finish_eq by blast
  note Q = quiet_append [OF all_quiet [OF T(1)], where es = es']
  have "read_sector dev device sector buf 256 s = Done 0 (?t\<lparr>trace := T @ es'\<rparr>)"
    using es(1) f T(2) by (simp add: read_sector_def del: upt_rec_numeral)
  moreover have "disk_idle (?t\<lparr>trace := T @ es'\<rparr>)" using Q r by (simp add: disk_idle_def transferring_def)
  ultimately show ?thesis using Q(3) [where c = c] r by auto
qed

lemma write_sector_spec:
  assumes d: "ata_disk dev c n" "n \<le> 6" and i: "disk_idle s"
    and b: "sector \<le> max_logical_sector_num s" "sector < 2 ^ 28"
  shows "\<exists>s'. write_sector dev device sector buf 256 s = (0, s') \<and> disk_idle s' \<and> mem s' = mem s
    \<and> max_logical_sector_num s' = max_logical_sector_num s
    \<and> disk c (trace s') = (disk c (trace s))(sector :=
        \<lambda>i. if i < 256 then buf_word (mem s) buf i else disk c (trace s) sector i)"
proof -
  obtain es where es: "sector_rw_common dev PIO_SECTOR_WRITE_CMD device sector s = (True, s\<lparr>trace := es\<rparr>)"
    "command es = PIO_SECTOR_WRITE_CMD" "transferred es = 0" "lba es = sector" "disk c es = disk c (trace s)"
    using sector_rw_starts [OF d i [unfolded disk_idle_def] b, of PIO_SECTOR_WRITE_CMD device] by auto
  obtain T where T: "list_all harmless T" "finish_sector_rw dev (s\<lparr>trace := es\<rparr>) = s\<lparr>trace := T @ es\<rparr>"
    using finish_eq [of dev "s\<lparr>trace := es\<rparr>"] by auto
  note Q = quiet_append [OF all_quiet [OF T(1)], where es = es] lba_passive [OF T(1), where es = es]
  let ?t = "s\<lparr>trace := T @ es\<rparr>"
  have "command (trace ?t) = PIO_SECTOR_WRITE_CMD" "transferred (trace ?t) = 0" using Q es by simp_all
  from write_words [OF this, where k = 256 and buf = buf and c = c, OF order.refl] obtain es' where
    f: "fold (write_word buf) [0..<256] ?t = ?t\<lparr>trace := es'\<rparr>"
    and r': "command es' = PIO_SECTOR_WRITE_CMD" "transferred es' = 256"
      "disk c es' = (disk c (trace ?t))(lba (trace ?t) :=
        \<lambda>i. if i < 256 then buf_word (mem ?t) buf i else disk c (trace ?t) (lba (trace ?t)) i)"
    by blast
  have l: "lba (T @ es) = sector" "disk c (T @ es) = disk c (trace s)" using Q es by simp_all
  have r: "command es' = PIO_SECTOR_WRITE_CMD" "transferred es' = 256"
      "disk c es' = (disk c (trace s))(sector :=
        \<lambda>i. if i < 256 then buf_word (mem s) buf i else disk c (trace s) sector i)"
    using r' by (simp_all add: l cong: if_cong)
  have "write_sector dev device sector buf 256 s = (0, s\<lparr>trace := es'\<rparr>)"
    using es(1) f T(2) by (simp add: write_sector_def del: upt_rec_numeral)
  then show ?thesis using r by (simp add: disk_idle_def transferring_def)
qed

section \<open>Properties\<close>

text \<open>
  C9. Writing and reading sectors. On a drive that follows the programmed I/O protocol, that may be
  busy for 999 readings of its alternate status before it accepts a command and may take until the
  seventh reading of its status to raise DRQ (the limits of the driver's loops), writing a sector up to
  the limit succeeds, and reading any sector afterwards delivers to the 512 bytes at
  the buffer, and to no other byte, the words written if it is that sector, and what the drive held
  before if it is another one. The device number has no effect: the register it is put
  in is written again, with bits of the sector number, before the command.
\<close>

theorem sector_roundtrip:
  assumes "ata_disk dev c n" and "n \<le> 6" and "disk_idle s"
    and "a \<le> max_logical_sector_num s" and "b \<le> max_logical_sector_num s"
    and "max_logical_sector_num s < 2 ^ 28"
  shows "\<exists>t u. write_sector dev d a buf 256 s = (0, t) \<and> mem t = mem s
    \<and> read_sector dev e b dst 256 t = Done 0 u \<and> disk_idle u
    \<and> (\<forall>i < 256. buf_word (mem u) dst i =
        (if b = a then buf_word (mem s) buf i else disk c (trace s) b i))
    \<and> same_outside dst 512 (mem s) (mem u)"
proof -
  have small: "a < 2 ^ 28" "b < 2 ^ 28" using assms(4-6) by (meson order.strict_trans1)+
  obtain t where t: "write_sector dev d a buf 256 s = (0, t)" "disk_idle t" "mem t = mem s"
    "max_logical_sector_num t = max_logical_sector_num s"
    "disk c (trace t) = (disk c (trace s))(a :=
        \<lambda>i. if i < 256 then buf_word (mem s) buf i else disk c (trace s) a i)"
    using write_sector_spec [OF assms(1-4) small(1)] by blast
  obtain u where "read_sector dev e b dst 256 t = Done 0 u" "disk_idle u"
    "\<forall>i < 256. buf_word (mem u) dst i = disk c (trace t) b i" "same_outside dst 512 (mem t) (mem u)"
    using read_sector_spec [OF assms(1,2) t(2), of b e dst] t(4) assms(5) small(2) by auto
  with t show ?thesis by (intro exI [of _ t] exI [of _ u]) auto
qed

text \<open>
  A drive that is busy for two readings of the alternate status and raises DRQ at the fourth reading of
  the status, and a boot state after its identification.
\<close>

definition demo_drive :: device where
  "demo_drive es p =
     (if p = STATUS_REGISTER then (if \<not> transferring es then 0 else if status_reads es < 3 then 0x80 else 8)
      else if p = ALTERNATE_STATUS_REGISTER then (if polls es < 2 then 0x80 else 0)
      else if p = DATA_REGISTER then ucast (disk (\<lambda>_ _. 0) es (lba es) (transferred es))
      else 0)"

lemma demo_drive_disk: "ata_disk demo_drive (\<lambda>_ _. 0) 3"
proof -
  have "bit (8 :: int) k \<longleftrightarrow> k = 3" "bit (128 :: int) k \<longleftrightarrow> k = 7" for k by (rule bit_pow2; simp)+
  then have "bit (8 :: u8) 3" "\<not> bit (8 :: u8) 0" "\<not> bit (0x80 :: u8) 0" by (simp_all add: bit_simps)
  moreover have "ucast (ucast w :: u32) = w" for w :: u16
    by (rule bit_word_eqI) (simp add: bit_simps)
  ultimately show ?thesis by (simp add: ata_disk_def demo_drive_def ata_ports)
qed

definition boot_ata :: ata_state where
  "boot_ata = blk_state.extend (pci_state.extend boot_pci (blk_state.fields (\<lambda>_. 0) (\<lambda>_. BHead)))
     (ata_state.fields 1000 None)"

lemma boot_ata_idle: "disk_idle boot_ata" "max_logical_sector_num boot_ata = 1000"
proof -
  have "trace boot_ata = trace boot_con"
    by (simp add: boot_ata_def boot_pci_def boot_task_def boot_heap_def ata_state.defs blk_state.defs
        pci_state.defs task_state.defs heap_state.defs con_state.defs)
  also have "\<dots> = []"
    by (simp add: boot_con_def con_init_def boot_state_def timer_state.defs con_state.defs Let_def)
  finally show "disk_idle boot_ata"
    by (simp add: disk_idle_def transferring_def command_def PIO_SECTOR_READ_CMD_def PIO_SECTOR_WRITE_CMD_def)
  show "max_logical_sector_num boot_ata = 1000"
    by (simp add: boot_ata_def ata_state.defs blk_state.defs pci_state.defs)
qed

theorem sector_roundtrip_witness:
  "\<exists>t u. write_sector demo_drive 0 100 0x5000 256 boot_ata = (0, t)
    \<and> read_sector demo_drive 1 100 0x6000 256 t = Done 0 u
    \<and> buf_word (mem u) 0x6000 255 = buf_word (mem boot_ata) 0x5000 255"
proof -
  have "100 \<le> max_logical_sector_num boot_ata" "max_logical_sector_num boot_ata < 2 ^ 28"
    using boot_ata_idle(2) by simp_all
  from sector_roundtrip [OF demo_drive_disk _ boot_ata_idle(1) this(1,1,2), of 0 "0x5000" 1 "0x6000"]
  show ?thesis by (auto simp del: boot_ata_idle(2))
qed

end
