(* ===== verification/Kernel_Props.thy ===== *)
theory Kernel_Props
  imports Kernel Console_Line Task_Props Ata_Props
begin

text \<open>
  What the boot sequence leaves behind, and the system calls as user programs see them.
\<close>

section \<open>What the setup leaves alone\<close>

type_synonym task_part = "sched_part \<times> (nat \<Rightarrow> u8) \<times> segment_descriptor list \<times> u16"

definition task_view :: "'a task_state_scheme \<Rightarrow> task_part" where
  "task_view s = (sched_view s, heap_alloc_table s, gdt s, task_id_counter s)"

lemma task_view_outb [simp]: "task_view (outb_p v p s) = task_view s"
  by (simp add: task_view_def outb_p_def sched_view_def)

lemma task_view_lock [simp]: "task_view (snd (kern_lock s)) = task_view s" "task_view (kern_unlock b s) = task_view s"
  by (simp_all add: task_view_def kern_lock_def kern_unlock_def cli_def sti_def sched_view_def Let_def)

lemma task_view_cursor [simp]: "task_view (update_cursor s) = task_view s" "task_view (s\<lparr>cursor_y := y\<rparr>) = task_view s"
  by (simp_all add: update_cursor_def Let_def split_beta) (simp add: task_view_def sched_view_def)

lemma task_view_con_init [simp]: "task_view (con_init s) = task_view s"
  by (simp add: con_init_def Let_def task_view_def sched_view_def)

lemma task_view_timer_init [simp]: "task_view (timer_init s) = task_view s"
  by (simp add: timer_init_def Let_def)

lemma task_view_handler [simp]: "task_view (set_handler es v e s) = task_view s"
  by (simp add: set_handler_def task_view_def sched_view_def)

lemma task_view_handlers [simp]: "task_view (fold (\<lambda>v. set_handler es (f v) (g v)) vs s) = task_view s"
  by (induction vs arbitrary: s) simp_all

lemma task_view_mem [simp]: "task_view (s\<lparr>cr4 := c, mem := m\<rparr>) = task_view s" "task_view (s\<lparr>files := fs\<rparr>) = task_view s"
  "task_view (s\<lparr>cr4 := c\<rparr>) = task_view s"
  by (simp_all add: task_view_def sched_view_def)

section \<open>The console leaves the tasks alone\<close>

text \<open>What a call that only uses the console keeps: the tasks, the key buffer, the rest of the kernel.\<close>

definition call_view :: "'a kernel_state_scheme \<Rightarrow> task_part \<times> kqueue \<times> (nat \<Rightarrow> u32) \<times> u32" where
  "call_view s = (task_view s, keycode_queue s, idt s, cr0 s)"

lemma call_view_con [simp]:
  "call_view (s\<lparr>cursor_x := x\<rparr>) = call_view s" "call_view (s\<lparr>cursor_y := y\<rparr>) = call_view s"
  "call_view (s\<lparr>mem := m\<rparr>) = call_view s" "call_view (outb_p v p s) = call_view s"
  "call_view (put_char_pos c a b s) = call_view s"
  by (simp_all add: call_view_def put_char_pos_def) (simp_all add: task_view_def sched_view_def outb_p_def)

lemma call_view_lock [simp]: "call_view (snd (kern_lock s)) = call_view s" "call_view (kern_unlock b s) = call_view s"
  by (simp_all add: call_view_def) (simp_all add: kern_lock_def kern_unlock_def cli_def sti_def Let_def)

lemma call_view_put_char [simp]: "call_view (update_cursor s) = call_view s" "call_view (put_char c s) = call_view s"
proof -
  show "call_view (update_cursor s) = call_view s" for s :: "'a kernel_state_scheme"
    by (simp add: update_cursor_def Let_def split_beta)
  then show "call_view (put_char c s) = call_view s" by (simp add: put_char_def Let_def)
qed

lemma put_str_call_view:
  assumes "put_str p s = Some s'"
  shows "call_view s' = call_view s"
proof (rule put_str.raw_induct [OF _ assms, where P = "\<lambda>p s s'. call_view s' = call_view s"])
qed (auto simp: Let_def split: if_splits)

lemma put_str_pos_call_view:
  assumes "put_str_pos p x y s = Some s'"
  shows "call_view s' = call_view s"
proof (rule put_str_pos.raw_induct [where P = "\<lambda>p x y s s'. call_view s' = call_view s"
      and xa = "(((p, x), y), s)", unfolded prod.case, OF _ assms])
qed (auto simp: Let_def split: if_splits)

lemma dump_hex_loop_call_view [simp]: "call_view (dump_hex_loop n v d y s) = call_view s"
  by (induction n v d y s rule: dump_hex_loop.induct) (simp_all add: Let_def)

text \<open>A finished \<^verbatim>\<open>get_line\<close> has only taken keys out of the buffer.\<close>

lemma line_frame_views:
  assumes "line_frame s' = line_frame s"
  shows "task_view s' = task_view s" "idt s' = idt s" "cr0 s' = cr0 s"
proof -
  have m: "con_state.more s' = con_state.more s" and v: "sched_view s' = sched_view s"
    using assms by (simp_all add: line_frame_def)
  from m have "heap_alloc_table s' = heap_alloc_table s" "gdt s' = gdt s" "task_id_counter s' = task_id_counter s"
    and i: "idt s' = idt s" "cr0 s' = cr0 s" by (cases s; cases s'; simp)+
  with v show "task_view s' = task_view s" by (simp add: task_view_def)
  from i show "idt s' = idt s" "cr0 s' = cr0 s" .
qed

lemma shutdown_call_view [simp]: "call_view (shutdown_port s) = call_view s"
  by (simp add: shutdown_port_def)

text \<open>The four kinds of system calls.\<close>

lemma do_syscall_cases:
  assumes "do_syscall addr n arg1 arg2 arg3 s = Some (r, s')"
  obtains (sleep) i where "n = SYSCALL_SCHED_WAKEUP_MSEC" "wakeup_after_msec arg1 s = Some (i, s')" "r = Sleeps i 0"
    | (exec) d where "n = SYSCALL_EXEC" "task_init d s = Some s'" "r = Ret 0"
    | (line) l where "n = SYSCALL_CON_GET_LINE" "get_line_run arg1 arg2 0 s = Some (l, s')" "r = line_sysret l"
    | (plain) v where "n \<noteq> SYSCALL_EXEC" "n \<noteq> SYSCALL_CON_GET_LINE" "r = Ret v" "call_view s' = call_view s"
proof -
  consider "n = SYSCALL_SCHED_WAKEUP_MSEC" | "n = SYSCALL_EXEC" | "n = SYSCALL_CON_GET_LINE"
    | "n \<noteq> SYSCALL_SCHED_WAKEUP_MSEC" "n \<noteq> SYSCALL_EXEC" "n \<noteq> SYSCALL_CON_GET_LINE" by blast
  then show thesis
  proof cases
    case 1
    then have "do_syscall addr n arg1 arg2 arg3 s =
        map_option (\<lambda>(if_bit, s). (Sleeps if_bit 0, s)) (wakeup_after_msec arg1 s)"
      by (simp add: do_syscall_def syscall_numbers)
    with assms obtain i where "wakeup_after_msec arg1 s = Some (i, s')" "r = Sleeps i 0" by auto
    with 1 show thesis by (rule sleep)
  next
    case 2
    then have "do_syscall addr n arg1 arg2 arg3 s =
        map_option (\<lambda>s. (Ret 0, s)) (task_init (file_data addr arg1 s) s)"
      by (simp add: do_syscall_def syscall_numbers)
    with assms have "task_init (file_data addr arg1 s) s = Some s'" "r = Ret 0" by auto
    with 2 show thesis by (rule exec)
  next
    case 3
    then have "do_syscall addr n arg1 arg2 arg3 s =
        map_option (\<lambda>(r, s). (line_sysret r, s)) (get_line_run arg1 arg2 0 s)"
      by (simp add: do_syscall_def syscall_numbers)
    with assms obtain l where "get_line_run arg1 arg2 0 s = Some (l, s')" "r = line_sysret l" by auto
    with 3 show thesis by (rule line)
  next
    case 4
    then have "(\<exists>v. r = Ret v) \<and> call_view s' = call_view s"
      using assms by (auto simp: do_syscall_def dump_hex_def dump_hex_pos_def Let_def split: if_splits
          dest: put_str_call_view put_str_pos_call_view)
    with 4(2,3) plain show thesis by blast
  qed
qed

section \<open>The parts of the setup\<close>

text \<open>The console, the gates of the exceptions, the timer, the page tables and the files.\<close>

definition setup_tables :: "image \<Rightarrow> 'a kernel_state_scheme \<Rightarrow> 'a kernel_state_scheme" where
  "setup_tables im s =
     (let s = update_cursor (s\<lparr>cursor_y := cursor_y s + 2\<rparr>);
          s = fold (\<lambda>i. set_handler (entries im) (of_nat i) Exception_handler) [0..<EXCEPTION_MAX] s;
          s = fold (\<lambda>v. set_handler (entries im) v (Excp v)) excp_numbers s;
          s = timer_init (con_init s);
          s = s\<lparr>cr4 := fst (mem_init (cr4 s, mem s)), mem := snd (mem_init (cr4 s, mem s))\<rparr>
      in s\<lparr>files := fs_init (mem s) 0x00011000 (files s)\<rparr>)"

text \<open>The interrupt gates and the interrupt controllers.\<close>

definition setup_interrupts :: "device \<Rightarrow> image \<Rightarrow> 'a kernel_state_scheme \<Rightarrow> 'a kernel_state_scheme" where
  "setup_interrupts dev im s =
     (let s = s\<lparr>cr0 := mem_page_start (cr0 s)\<rparr>;
          s = set_handler (entries im) INTR_NUM_TIMER Timer_handler s;
          s = set_handler (entries im) INTR_NUM_KB Keyboard_handler s;
          s = set_handler (entries im) INTR_NUM_USER128 Syscall_handler s;
          s = intr_init s;
          (msk, s) = intr_get_mask_master dev s;
          s = intr_set_mask_master (msk AND NOT (INTR_MASK_BIT_TIMER OR INTR_MASK_BIT_KB)) s
      in sti s)"

lemma kern_init_setup_eq:
  "kern_init_setup dev im s =
    (case kern_task_init (tss_loc im) (setup_tables im s) of
       None \<Rightarrow> None
     | Some t \<Rightarrow> map_option (setup_interrupts dev im) (task_init (data_base_addr (files t) FShell) t))"
  by (simp add: kern_init_setup_def setup_tables_def setup_interrupts_def Let_def split_beta
      split: option.split)

lemma task_view_tables [simp]: "task_view (setup_tables im s) = task_view s"
  by (simp add: setup_tables_def Let_def)

section \<open>Interrupt gates\<close>

definition gate_to :: "u8 \<Rightarrow> u32 \<Rightarrow> gate" where
  "gate_to v h = \<lparr>gate_offset = h, gate_selector = 8, gate_type = 0x0e,
     gate_dpl = (if v = INTR_NUM_USER128 then 3 else 0), gate_present = True\<rparr>"

lemma gate_set_handler:
  "gate_of (idt (set_handler es v e s)) w = (if w = v then gate_to v (es e) else gate_of (idt s) w)"
  by (simp add: set_handler_def intr_set_handler_gate gate_to_def)

lemma gate_set_handlers:
  assumes "\<And>i. i \<in> set vs \<Longrightarrow> g i = h (f i)"
  shows "gate_of (idt (fold (\<lambda>i. set_handler es (f i) (g i)) vs s)) w =
    (if w \<in> f ` set vs then gate_to w (es (h w)) else gate_of (idt s) w)"
  using assms by (induction vs arbitrary: s) (auto simp: gate_set_handler)

text \<open>The entry point of a vector, after the setup.\<close>

definition handler_for :: "u8 \<Rightarrow> entry option" where
  "handler_for v =
     (if v = INTR_NUM_TIMER then Some Timer_handler
      else if v = INTR_NUM_KB then Some Keyboard_handler
      else if v = INTR_NUM_USER128 then Some Syscall_handler
      else if v < of_nat EXCEPTION_MAX then Some (if v = 15 then Exception_handler else Excp v)
      else None)"

lemma exception_vectors: "(of_nat :: nat \<Rightarrow> u8) ` set [0..<EXCEPTION_MAX] = {v. v < of_nat EXCEPTION_MAX}"
proof -
  have "(of_nat i :: u8) < of_nat EXCEPTION_MAX" if "i < EXCEPTION_MAX" for i
    using that by (simp add: EXCEPTION_MAX_def word_less_nat_alt unsigned_of_nat take_bit_nat_eq_self)
  moreover have "v = of_nat (unat v) \<and> unat v < EXCEPTION_MAX" if "v < of_nat EXCEPTION_MAX" for v :: u8
    using that by (simp add: EXCEPTION_MAX_def word_less_nat_alt)
  ultimately show ?thesis by (force simp: image_iff)
qed

lemma excp_vectors: "v \<in> set excp_numbers \<longleftrightarrow> v < of_nat EXCEPTION_MAX \<and> v \<noteq> 15"
proof
  have all: "\<forall>i \<in> set [0..<21]. i \<noteq> 15 \<longrightarrow> (of_nat i :: u8) \<in> set excp_numbers" by code_simp
  assume "v < of_nat EXCEPTION_MAX \<and> v \<noteq> 15"
  then have "unat v < 21" "unat v \<noteq> 15"
    by (auto simp: EXCEPTION_MAX_def word_less_nat_alt word_unat_eq_iff)
  then have "of_nat (unat v) \<in> set excp_numbers" using all by (metis atLeast_upt lessThan_iff)
  then show "v \<in> set excp_numbers" by simp
qed (auto simp: excp_numbers_def EXCEPTION_MAX_def)

lemma idt_cursor [simp]: "idt (update_cursor s) = idt s"
  using update_cursor_more [of s] by (cases s; cases "update_cursor s") simp

lemma idt_frame [simp]:
  "idt (con_init s) = idt s" "idt (timer_init s) = idt s"
  "idt (intr_init s) = idt s" "idt (outb_p v p s) = idt s" "idt (sti s) = idt s"
  by (simp_all add: con_init_def timer_init_def intr_init_def sti_def outb_p_def Let_def)

lemma gates_after_tables:
  "gate_of (idt (setup_tables im s)) v =
    (if v < of_nat EXCEPTION_MAX then gate_to v (entries im (if v = 15 then Exception_handler else Excp v))
     else gate_of (idt s) v)"
proof -
  let ?s = "update_cursor (s\<lparr>cursor_y := cursor_y s + 2\<rparr>)"
  let ?a = "fold (\<lambda>i. set_handler (entries im) (of_nat i) Exception_handler) [0..<EXCEPTION_MAX] ?s"
  let ?b = "fold (\<lambda>v. set_handler (entries im) v (Excp v)) excp_numbers ?a"
  have "gate_of (idt ?b) v = (if v \<in> set excp_numbers then gate_to v (entries im (Excp v)) else gate_of (idt ?a) v)"
    using gate_set_handlers [of excp_numbers Excp Excp "\<lambda>v. v" "entries im" ?a v] by simp
  moreover have "gate_of (idt ?a) v =
      (if v < of_nat EXCEPTION_MAX then gate_to v (entries im Exception_handler) else gate_of (idt s) v)"
    using gate_set_handlers [of "[0..<EXCEPTION_MAX]" "\<lambda>_. Exception_handler" "\<lambda>_. Exception_handler" of_nat
        "entries im" ?s v] by (simp only: exception_vectors mem_Collect_eq) simp
  moreover have "idt (setup_tables im s) = idt ?b" by (simp add: setup_tables_def Let_def)
  ultimately show ?thesis unfolding excp_vectors 
    by (cases "v = 15"; cases "v < of_nat EXCEPTION_MAX") (simp_all only: simp_thms if_True if_False)
qed

lemma tables_facts:
  "kernel_table (mem (setup_tables im s))" "kq_holds (setup_tables im s) []"
  "queue_holds FHead (fs_links (files (setup_tables im s))) [FShell, FUptime]"
  "data_base_addr (files (setup_tables im s)) FShell = 0x00012020"
proof -
  define t where "t = fold (\<lambda>v. set_handler (entries im) v (Excp v)) excp_numbers
    (fold (\<lambda>i. set_handler (entries im) (of_nat i) Exception_handler) [0..<EXCEPTION_MAX]
      (update_cursor (s\<lparr>cursor_y := cursor_y s + 2\<rparr>)))"
  define u where "u = timer_init (con_init t)"
  have e: "setup_tables im s = (let m = snd (mem_init (cr4 u, mem u))
      in u\<lparr>cr4 := fst (mem_init (cr4 u, mem u)), mem := m, files := fs_init m 0x00011000 (files u)\<rparr>)"
    by (simp add: setup_tables_def u_def t_def Let_def)
  show "kernel_table (mem (setup_tables im s))" by (simp add: e Let_def mem_init_kernel_table)
  show "queue_holds FHead (fs_links (files (setup_tables im s))) [FShell, FUptime]"
    "data_base_addr (files (setup_tables im s)) FShell = 0x00012020"
    using fs_init_files by (simp_all add: e Let_def)
  have "keycode_queue u = keycode_queue (con_init t)" by (simp add: u_def timer_init_def outb_p_def Let_def)
  then show "kq_holds (setup_tables im s) []"
    by (simp add: kq_holds_def e Let_def con_init_def QUEUE_BUF_SIZE_def)
qed

section \<open>The kernel task and the first program\<close>

lemma kern_task_init_spec:
  assumes "length (gdt s) = GDT_SIZE"
  shows "\<exists>g. kern_task_init a s = Some (s\<lparr>kern_task_tss := (kern_task_tss s)\<lparr>tss_esp0 := 0x0007f800,
        tss_ss0 := 0x0010, tss_cr3 := 0x0008f018\<rparr>, gdt := g, cr3 := 0x0008f018 OR (cr3 s AND 0x00000fe7),
        tr := 0x18, tasks := (tasks s)(TInst KERN_TASK_ID := (tasks s (TInst KERN_TASK_ID))\<lparr>context_switch := CtxKern\<rparr>)\<rparr>)
    \<and> length g = GDT_SIZE \<and> descriptor_base (g ! 3) = a \<and> sd_type (g ! 3) = 9 \<and> sd_p (g ! 3) = 1
    \<and> sd_s (g ! 3) = sd_s (gdt s ! 3) \<and> (\<forall>j. j \<noteq> 3 \<longrightarrow> g ! j = gdt s ! j)"
proof -
  have "unat KERN_TASK_GDT_IDX < length (gdt s)" using assms by (simp add: KERN_TASK_GDT_IDX_def GDT_SIZE_def)
  from init_gdt_decodes [OF this, of a sizeof_tss 0] assms show ?thesis
    by (auto simp: kern_task_init_def KERN_TASK_GDT_IDX_def Let_def)
qed

lemma alloc4_shape:
  assumes "alloc4 s = (ps, s')"
  shows "\<exists>h. s' = s\<lparr>heap_alloc_table := h\<rparr>"
proof -
  have m: "\<exists>h. t' = t\<lparr>heap_alloc_table := h\<rparr>" if "mem_alloc t = (p, t')" for t t' :: "'a heap_state_scheme" and p
    using that by (cases t rule: mem_alloc_cases) (auto intro: exI [of _ "heap_alloc_table t"])
  obtain a b c d where "ps = (a, b, c, d)" by (cases ps)
  with assms obtain s1 s2 s3 where "mem_alloc s = (a, s1)" "mem_alloc s1 = (b, s2)" "mem_alloc s2 = (c, s3)"
    "mem_alloc s3 = (d, s')" using alloc4_steps by metis
  from this [THEN m] show ?thesis by auto
qed

lemma task_init_shape:
  assumes "task_init d s = Some s'" and "length (gdt s) = GDT_SIZE"
  shows "\<exists>p h m g T. s' = snd (sched_runq_enq p (s\<lparr>heap_alloc_table := h, mem := m,
      task_id_counter := task_id_counter s + 1, gdt := g, tasks := T\<rparr>))
    \<and> (\<forall>j. j \<noteq> unat (task_id_counter s) + 3 \<longrightarrow> g ! j = gdt s ! j)"
proof -
  obtain i j k l s4 g where a: "alloc4 s = ((page_addr i, page_addr j, page_addr k, page_addr l), s4)"
    and id: "task_id_counter s \<in> {0, 1, 2, 3, 4}"
    and g: "init_gdt (ucast (task_id_counter s) + GDT_IDX_OFS) (tss_addr (page_addr k)) sizeof_tss 3 (gdt s) = Some g"
    and s': "s' = (let u = s4\<lparr>mem := task_page_table (page_addr j) d (page_addr l)
             (task_page_directory (page_addr i) (page_addr j) (mem s4)),
             task_id_counter := task_id_counter s + 1, gdt := g\<rparr>
           in snd (sched_runq_enq (THeap (page_addr k)) (u\<lparr>tasks := (tasks u)(THeap (page_addr k) :=
             new_task_of (task_id_counter s) (page_addr i) (tasks u (THeap (page_addr k))))\<rparr>)))"
    using task_init_result [OF assms] by metis
  obtain h where "s4 = s\<lparr>heap_alloc_table := h\<rparr>" using alloc4_shape [OF a] by blast
  moreover have idx: "unat (ucast (task_id_counter s) + GDT_IDX_OFS) < length (gdt s)"
    using g by (auto simp: init_gdt_def split: if_splits)
  with init_gdt_decodes [OF this, of "tss_addr (page_addr k)" sizeof_tss 3] g
    small_ids(2) [of "task_id_counter s"] assms(2)
  have "\<forall>j. j \<noteq> unat (task_id_counter s) + 3 \<longrightarrow> g ! j = gdt s ! j" by (auto simp: GDT_SIZE_def)
  ultimately show ?thesis unfolding s' Let_def by (intro exI conjI) (simp, blast)
qed

section \<open>Switching the interrupts on\<close>

lemma interrupts_facts:
  "sched_view (setup_interrupts dev im s) = sched_view s"
  "mem (setup_interrupts dev im s) = mem s" "gdt (setup_interrupts dev im s) = gdt s"
  "keycode_queue (setup_interrupts dev im s) = keycode_queue s" "files (setup_interrupts dev im s) = files s"
  "cr3 (setup_interrupts dev im s) = cr3 s" "cr0 (setup_interrupts dev im s) = cr0 s OR 0x80000000"
  "interrupts_on (setup_interrupts dev im s)"
  "\<exists>w. hd (trace (setup_interrupts dev im s)) = OutB w 0x0021 \<and> \<not> bit w 0 \<and> \<not> bit w 1"
  "gate_of (idt (setup_interrupts dev im s)) v =
    (if v \<in> {INTR_NUM_TIMER, INTR_NUM_KB, INTR_NUM_USER128}
     then gate_to v (entries im (the (handler_for v))) else gate_of (idt s) v)"
proof -
  define u where "u = set_handler (entries im) INTR_NUM_USER128 Syscall_handler
    (set_handler (entries im) INTR_NUM_KB Keyboard_handler
      (set_handler (entries im) INTR_NUM_TIMER Timer_handler (s\<lparr>cr0 := mem_page_start (cr0 s)\<rparr>)))"
  obtain m T where e: "setup_interrupts dev im s = sti (u\<lparr>trace := OutB (m AND NOT 3) 0x0021 # T\<rparr>)"
    and T: "switches T = switches (trace s)"
    by (simp add: setup_interrupts_def u_def [symmetric] Let_def split_beta intr_init_def intr_get_mask_master_def
        intr_set_mask_master_def inb_p_def outb_p_def INTR_MASK_BIT_TIMER_def INTR_MASK_BIT_KB_def
        IOADR_MPIC_OCW1_def) (simp add: u_def set_handler_def)
  have u: "u = s\<lparr>idt := idt u, cr0 := cr0 s OR 0x80000000\<rparr>"
    by (simp add: u_def set_handler_def mem_page_start_def)
  show "sched_view (setup_interrupts dev im s) = sched_view s"
      "mem (setup_interrupts dev im s) = mem s" "gdt (setup_interrupts dev im s) = gdt s"
    "keycode_queue (setup_interrupts dev im s) = keycode_queue s" "files (setup_interrupts dev im s) = files s"
    "cr3 (setup_interrupts dev im s) = cr3 s" "cr0 (setup_interrupts dev im s) = cr0 s OR 0x80000000"
    unfolding e using T by (subst u; simp add: sti_def sched_view_def)+
  show "interrupts_on (setup_interrupts dev im s)" by (simp add: e interrupts_on_iff sti_def bit_IF bit_simps)
  have "\<not> bit (m AND NOT (3 :: u8)) 0" "\<not> bit (m AND NOT (3 :: u8)) 1" by (simp_all add: bit_simps)
  then show "\<exists>w. hd (trace (setup_interrupts dev im s)) = OutB w 0x0021 \<and> \<not> bit w 0 \<and> \<not> bit w 1"
    by (auto simp: e sti_def)
  show "gate_of (idt (setup_interrupts dev im s)) v =
    (if v \<in> {INTR_NUM_TIMER, INTR_NUM_KB, INTR_NUM_USER128}
     then gate_to v (entries im (the (handler_for v))) else gate_of (idt s) v)"
    by (simp add: e sti_def u_def gate_set_handler handler_for_def INTR_NUM_TIMER_def INTR_NUM_KB_def
        INTR_NUM_USER128_def)
qed

lemma task_init_kernel_table:
  assumes "task_init d s = Some s'" and "length (gdt s) = GDT_SIZE" and "kernel_table (mem s)"
  shows "kernel_table (mem s')"
proof -
  obtain i j k l s4 g where a: "alloc4 s = ((page_addr i, page_addr j, page_addr k, page_addr l), s4)"
    and pages: "{i, j, k, l} \<subseteq> {..<MAX_HEAP_PAGES}" "distinct [i, j, k, l]"
    and s': "s' = (let u = s4\<lparr>mem := task_page_table (page_addr j) d (page_addr l)
             (task_page_directory (page_addr i) (page_addr j) (mem s4)),
             task_id_counter := task_id_counter s + 1, gdt := g\<rparr>
           in snd (sched_runq_enq (THeap (page_addr k)) (u\<lparr>tasks := (tasks u)(THeap (page_addr k) :=
             new_task_of (task_id_counter s) (page_addr i) (tasks u (THeap (page_addr k))))\<rparr>)))"
    using task_init_result [OF assms(1,2)] by metis
  have "mem s' = task_page_table (page_addr j) d (page_addr l)
      (task_page_directory (page_addr i) (page_addr j) (mem s))"
    by (simp add: s' Let_def alloc4_frame(3) [OF a])
  from task_translation(3) [OF _ _ _ assms(3) this] pages show ?thesis by auto
qed

section \<open>The whole setup\<close>

text \<open>The state \<^verbatim>\<open>sys.S\<close> enters \<^verbatim>\<open>kern_init\<close> in: nothing queued, no task, an empty heap, its
  own descriptor table.\<close>

definition before_init :: "'a kernel_state_scheme \<Rightarrow> bool" where
  "before_init s \<longleftrightarrow> run_queue s = \<lparr>q_head = TNull, q_len = 0\<rparr>
     \<and> wakeup_queue s = \<lparr>q_head = TNull, q_len = 0\<rparr>
     \<and> wakeup_event_queue s = \<lparr>q_head = TNull, q_len = 0\<rparr>
     \<and> current_task s = TNull \<and> NullCall \<notin> set (trace s)
     \<and> gdt s = gdt_initial \<and> task_id_counter s = 1 \<and> heap_alloc_table s = (\<lambda>_. 0)"

text \<open>The setup up to the first program: the kernel task runs, nothing else.\<close>

lemma kern_task_started:
  assumes s: "before_init s"
  obtains t where "kern_task_init (tss_loc im) (setup_tables im s) = Some t"
    "sched_inv t [] [] []" "tasks_in_pages t {}" "current_task t = TNull"
    "length (gdt t) = GDT_SIZE" "task_id_counter t = 1" "card (free_pages t) = MAX_HEAP_PAGES"
    "descriptor_base (gdt t ! 3) = tss_loc im" "kernel_table (mem t)" "kq_holds t []"
    "queue_holds FHead (fs_links (files t)) [FShell, FUptime]" "data_base_addr (files t) FShell = 0x00012020"
    "cr3 t AND NOT (mask 12) = 0x0008f000" "idt t = idt (setup_tables im s)"
    "is_tss (gdt t ! 3)" "\<forall>j. j \<noteq> 3 \<longrightarrow> gdt t ! j = gdt_initial ! j"
proof -
  let ?u = "setup_tables im s"
  have v: "task_view ?u = task_view s" by simp
  then have u: "run_queue ?u = \<lparr>q_head = TNull, q_len = 0\<rparr>" "wakeup_queue ?u = \<lparr>q_head = TNull, q_len = 0\<rparr>"
    "wakeup_event_queue ?u = \<lparr>q_head = TNull, q_len = 0\<rparr>" "current_task ?u = TNull" "NullCall \<notin> set (trace ?u)"
    "gdt ?u = gdt_initial" "task_id_counter ?u = 1" "heap_alloc_table ?u = (\<lambda>_. 0)"
    using s sched_viewD [of ?u s] by (simp_all add: task_view_def before_init_def del: task_view_tables)
  obtain g where t: "kern_task_init (tss_loc im) ?u = Some (?u\<lparr>kern_task_tss := (kern_task_tss ?u)\<lparr>tss_esp0 := 0x0007f800,
        tss_ss0 := 0x0010, tss_cr3 := 0x0008f018\<rparr>, gdt := g, cr3 := 0x0008f018 OR (cr3 ?u AND 0x00000fe7),
        tr := 0x18, tasks := (tasks ?u)(TInst KERN_TASK_ID := (tasks ?u (TInst KERN_TASK_ID))\<lparr>context_switch := CtxKern\<rparr>)\<rparr>)"
    (is "_ = Some ?t") and g: "length g = GDT_SIZE" "descriptor_base (g ! 3) = tss_loc im" "is_tss (g ! 3)"
      "\<forall>j. j \<noteq> 3 \<longrightarrow> g ! j = gdt_initial ! j"
    using kern_task_init_spec [of ?u "tss_loc im"]
    by (auto simp: u(6) is_tss_def gdt_initial_def GDT_SIZE_def descriptor_of_def)
  have inv: "sched_inv ?t [] [] []" by (rule boot_inv) (simp add: sched_boot_def u)
  have cr: "(0x0008f018 OR (c AND 0x00000fe7)) AND NOT (mask 12) = (0x0008f000 :: u32)" for c
  proof -
    have "(c AND 0x00000fe7) AND NOT (mask 12) = c AND (0x00000fe7 AND NOT (mask 12))" by (simp only: and.assoc)
    also have "\<dots> = 0" by (simp add: mask_eq_exp_minus_1)
    finally show ?thesis by (simp add: bit.conj_disj_distrib2 mask_eq_exp_minus_1)
  qed
  note F = tables_facts [of im s]
  show ?thesis
  proof (rule that [OF t inv])
    show "tasks_in_pages ?t {}" by (simp add: tasks_in_pages_def)
    show "card (free_pages ?t) = MAX_HEAP_PAGES" by (simp add: free_pages_def used_pages_def u)
    show "kq_holds ?t []" using F(2) by (simp add: kq_holds_def)
    show "cr3 ?t AND NOT (mask 12) = 0x0008f000" by (simp add: cr)
  qed (use u g F in simp_all)
qed

section \<open>Properties\<close>

text \<open>
  C11. Booting. From the state the loader leaves, the setup of \<^verbatim>\<open>kern_init\<close> gets to its end. Then the
  scheduler's invariant holds with the shell alone in the run queue and the kernel task running;
  descriptors 3 and 4 are the state segments of the two; paging is on, with the directory of \<^verbatim>\<open>mem_init\<close>;
  the key buffer is empty and both files can be opened; the interrupts are enabled in the processor and,
  for the timer and the keyboard, in the controller; and every vector up to 20, 32, 33 and 128 leads
  to its entry point, while no other gate has changed.
\<close>

theorem kern_boot:
  assumes "before_init s"
  shows "\<exists>s' k. kern_init_setup dev im s = Some s'
    \<and> sched_inv s' [THeap (page_addr k)] [] [] \<and> current_task s' = TNull
    \<and> descriptor_base (gdt s' ! 3) = tss_loc im \<and> descriptor_base (gdt s' ! 4) = tss_addr (page_addr k)
    \<and> own_selector (tasks s' (THeap (page_addr k))) = 0x20
    \<and> bit (cr0 s') 31 \<and> cr3 s' AND NOT (mask 12) = 0x0008f000 \<and> kernel_table (mem s')
    \<and> kq_holds s' [] \<and> queue_holds FHead (fs_links (files s')) [FShell, FUptime]
    \<and> interrupts_on s' \<and> (\<exists>w. hd (trace s') = OutB w 0x0021 \<and> \<not> bit w 0 \<and> \<not> bit w 1)
    \<and> (\<forall>v. gate_of (idt s') v = (case handler_for v of
         Some e \<Rightarrow> gate_to v (entries im e) | None \<Rightarrow> gate_of (idt s) v))"
proof -
  obtain t where t: "kern_task_init (tss_loc im) (setup_tables im s) = Some t"
    "sched_inv t [] [] []" "tasks_in_pages t {}" "current_task t = TNull"
    "length (gdt t) = GDT_SIZE" "task_id_counter t = 1" "card (free_pages t) = MAX_HEAP_PAGES"
    "descriptor_base (gdt t ! 3) = tss_loc im" "kernel_table (mem t)" "kq_holds t []"
    "queue_holds FHead (fs_links (files t)) [FShell, FUptime]" "data_base_addr (files t) FShell = 0x00012020"
    "cr3 t AND NOT (mask 12) = 0x0008f000" "idt t = idt (setup_tables im s)"
    by (rule kern_task_started [OF assms])
  obtain u where u: "task_init 0x00012020 t = Some u"
    using task_init_fails [OF t(5), of "0x00012020"] by (auto simp: t(6,7) MAX_HEAP_PAGES_def)
  obtain k where k: "sched_inv u [THeap (page_addr k)] [] []"
    "own_selector (tasks u (THeap (page_addr k))) = 8 * (task_id_counter t + 3)"
    "descriptor_base (gdt u ! (unat (task_id_counter t) + 3)) = tss_addr (page_addr k)"
    using task_init_inv [OF u t(5,2)] t(3) by auto
  obtain p h m g T where e: "u = snd (sched_runq_enq p (t\<lparr>heap_alloc_table := h, mem := m,
      task_id_counter := task_id_counter t + 1, gdt := g, tasks := T\<rparr>))"
    "\<forall>j. j \<noteq> unat (task_id_counter t) + 3 \<longrightarrow> g ! j = gdt t ! j"
    using task_init_shape [OF u t(5)] by blast
  let ?s = "setup_interrupts dev im u"
  note I = interrupts_facts [of dev im u]
  have "current_task u = TNull" using t(4) by (simp add: e sched_runq_enq_eq)
  then have cur: "current_task ?s = TNull" using I(1) by (simp add: sched_view_def)
  have g3: "gdt u ! 3 = gdt t ! 3" using e(2) by (simp add: e(1) t(6))
  have keep: "keycode_queue u = keycode_queue t" "files u = files t" "cr3 u = cr3 t" "idt u = idt t"
    by (simp_all add: e sched_runq_enq_eq)
  have gates: "gate_of (idt ?s) v = (case handler_for v of
      Some e \<Rightarrow> gate_to v (entries im e) | None \<Rightarrow> gate_of (idt s) v)" for v
    by (simp add: I(10) keep(4) t(14) gates_after_tables handler_for_def)
  have run: "kern_init_setup dev im s = Some ?s" by (simp add: kern_init_setup_eq t(1,12) u)
  have "tasks ?s = tasks u" using I(1) by (simp add: sched_view_def)
  moreover have "sched_inv ?s [THeap (page_addr k)] [] []"
    using sched_inv_cong [OF I(1)] k(1) by simp
  moreover have "kq_holds ?s []" using t(10) by (simp add: kq_holds_def I(4) keep)
  moreover have "bit (cr0 ?s) 31" unfolding I(7) by (simp add: bit_simps)
  ultimately show ?thesis
    using run cur k(2,3) g3 gates task_init_kernel_table [OF u t(5,9)] t(6,8,11,13) I(8,9)
    by (intro exI [of _ ?s] exI [of _ k]) (simp add: I keep)
qed

text \<open>A kernel state before the setup, and an image.\<close>

definition boot_kernel :: kernel_state where
  "boot_kernel = ata_state.extend boot_ata (kernel_state.fields demo_fs (\<lambda>_. 0) 0 0)"

definition demo_entries :: image where
  "demo_entries = \<lparr>entries = (\<lambda>e. case e of Excp v \<Rightarrow> 0x8000 + 16 * ucast v | Exception_handler \<Rightarrow> 0x8800
       | Timer_handler \<Rightarrow> 0x8810 | Keyboard_handler \<Rightarrow> 0x8820 | Syscall_handler \<Rightarrow> 0x8830),
     tss_loc = 0x9000, ata_dev = 0x9100, buf0 = 0x9200, buf1 = 0x9400, lit_ata_disk = 0x9600,
     lit_no_disk = 0x9610, lit_test_data = 0x9620\<rparr>"

lemma boot_kernel_ready: "before_init boot_kernel"
  by (simp add: before_init_def boot_kernel_def boot_ata_def boot_pci_def boot_task_def boot_heap_def
      boot_con_def con_init_def boot_state_def gdt_initial_def GDT_SIZE_def kernel_state.defs ata_state.defs
      blk_state.defs pci_state.defs task_state.defs heap_state.defs con_state.defs timer_state.defs Let_def)

theorem kern_boot_witness:
  "\<exists>s' k. kern_init_setup demo_drive demo_entries boot_kernel = Some s'
    \<and> sched_inv s' [THeap (page_addr k)] [] [] \<and> gate_of (idt s') 0x80 = gate_to 0x80 0x8830"
proof -
  have "handler_for 0x80 = Some Syscall_handler"
    by (simp add: handler_for_def INTR_NUM_TIMER_def INTR_NUM_KB_def INTR_NUM_USER128_def)
  then have "gate_of (idt s') 0x80 = gate_to 0x80 0x8830"
    if "\<forall>v. gate_of (idt s') v = (case handler_for v of
         Some e \<Rightarrow> gate_to v (entries demo_entries e) | None \<Rightarrow> gate_of (idt boot_kernel) v)" for s' :: kernel_state
    using that by (simp add: demo_entries_def)
  with kern_boot [OF boot_kernel_ready, of demo_drive demo_entries] show ?thesis by blast
qed

text \<open>
  C12. System calls and the scheduler. A system call of the running task that returns leaves every task
  where it was, with one exception: \<^verbatim>\<open>SYSCALL_EXEC\<close> appends one new task, in a page that was free, to the
  run queue. Two calls give up the processor. \<^verbatim>\<open>SYSCALL_SCHED_WAKEUP_MSEC\<close> always does: the caller
  moves to the end of the wait queue with the time it asked for. \<^verbatim>\<open>SYSCALL_CON_GET_LINE\<close> does so exactly
  when the keys in the buffer do not complete the line: it has then used them all, and the caller is
  at the end of the event queue and waits for the keyboard. In both cases the caller's successor runs.
\<close>

theorem syscall_scheduling:
  assumes "sched_inv s (xs @ c # ys) ws es" and "current_task s = c" and "kq_holds s ks"
    and "length (gdt s) = GDT_SIZE" and "tasks_in_pages s (set ((xs @ c # ys) @ ws @ es))"
    and "do_syscall addr n arg1 arg2 arg3 s = Some (r, s')"
  shows "case r of
      Ret v \<Rightarrow> (if n = SYSCALL_EXEC
          then \<exists>k \<in> free_pages s. sched_inv s' (xs @ c # ys @ [THeap (page_addr k)]) ws es
            \<and> current_task s' = c
          else task_view s' = task_view s)
        \<and> (n = SYSCALL_CON_GET_LINE \<longrightarrow> (\<exists>ks' t. get_line arg1 arg2 ks s = Some (v, ks', t) \<and> kq_holds s' ks'))
    | Sleeps i v \<Rightarrow> n = SYSCALL_SCHED_WAKEUP_MSEC \<and> sched_inv s' (xs @ ys) (ws @ [c]) es
        \<and> wakeup_msec (tasks s' c) = arg1
        \<and> current_task s' = (if xs @ ys = [] then TNull else hd (ys @ xs))
    | Reads i j \<Rightarrow> n = SYSCALL_CON_GET_LINE \<and> get_line arg1 arg2 ks s = None \<and> kq_holds s' []
        \<and> sched_inv s' (xs @ ys) ws (es @ [c]) \<and> wakeup_event (tasks s' c) = EVENT_TYPE_KBD
        \<and> current_task s' = (if xs @ ys = [] then TNull else hd (ys @ xs))"
  using assms(6)
proof (cases rule: do_syscall_cases)
  case (sleep i)
  with wakeup_after_msec_spec [OF assms(1,2), of arg1] show ?thesis by auto
next
  case (exec d)
  obtain p h m g T where "s' = snd (sched_runq_enq p (s\<lparr>heap_alloc_table := h, mem := m,
      task_id_counter := task_id_counter s + 1, gdt := g, tasks := T\<rparr>))"
    using task_init_shape [OF exec(2) assms(4)] by blast
  then have "current_task s' = c" using assms(2) by (simp add: sched_runq_enq_eq)
  with task_init_inv [OF exec(2) assms(4,1,5)] exec show ?thesis
    by (auto simp: free_pages_def syscall_numbers)
next
  case (line l)
  show ?thesis
  proof (cases "get_line arg1 arg2 ks s")
    case None
    with get_line_blocks [OF assms(3,1,2), of arg1 arg2 0] line show ?thesis
      by (auto simp: get_line_def line_sysret_def)
  next
    case (Some q)
    then obtain v ks' t where q: "get_line arg1 arg2 ks s = Some (v, ks', t)" by (cases q) auto
    from get_line_returns [OF assms(3), of arg1 arg2 0] q line line_frame_views(1) [of s' s] show ?thesis
      by (auto simp: get_line_def line_sysret_def syscall_numbers)
  qed
next
  case (plain v)
  then show ?thesis by (simp add: call_view_def)
qed

text \<open>A program that runs, in the first page of the heap, asks to sleep 33 milliseconds.\<close>

definition running_program :: kernel_state where
  "running_program = schedule SCHED_CAUSE_TIMER (start_task (THeap 0x100000) (app_task 0x20)
     (boot_kernel\<lparr>heap_alloc_table := (\<lambda>_. 0)(0 := 1)\<rparr>))"

lemma more_task_fields:
  fixes s s' :: "'a task_state_scheme"
  assumes "sched_state.more s' = sched_state.more s"
  shows "gdt s' = gdt s" "heap_alloc_table s' = heap_alloc_table s"
  using assms by (cases s; cases s'; simp)+

lemma running_program_facts:
  "sched_inv running_program ([] @ THeap 0x100000 # []) [] []" "current_task running_program = THeap 0x100000"
  "length (gdt running_program) = GDT_SIZE" "tasks_in_pages running_program {THeap 0x100000}"
proof -
  let ?b = "boot_kernel\<lparr>heap_alloc_table := (\<lambda>_. 0)(0 := 1)\<rparr>"
  let ?s = "start_task (THeap 0x100000) (app_task 0x20) ?b"
  have "sched_boot ?b"
    by (simp add: sched_boot_def boot_kernel_def boot_ata_def boot_pci_def boot_task_def boot_heap_def
        boot_con_def con_init_def boot_state_def KERN_TASK_ID_def kernel_state.defs ata_state.defs
        blk_state.defs pci_state.defs task_state.defs heap_state.defs con_state.defs timer_state.defs Let_def)
  then have i: "sched_inv ?s ([] @ [THeap 0x100000]) [] []"
    by (intro start_task_inv boot_inv) simp_all
  have c: "current_task ?b = TNull" using boot_kernel_ready by (simp add: before_init_def)
  from i show "sched_inv running_program ([] @ THeap 0x100000 # []) [] []"
    unfolding running_program_def by (simp only: append_Cons append_Nil schedule_inv)
  have "current_task ?s = TNull" using c by (simp add: start_task_def sched_runq_enq_eq)
  with first_turn [OF i] show "current_task running_program = THeap 0x100000"
    by (simp only: running_program_def) simp
  have "sched_state.more running_program = sched_state.more ?b"
    by (simp add: running_program_def start_task_def sched_runq_enq_eq)
  then have m: "gdt running_program = gdt ?b" "heap_alloc_table running_program = heap_alloc_table ?b"
    by (rule more_task_fields)+
  show "length (gdt running_program) = GDT_SIZE"
    using boot_kernel_ready by (simp add: m before_init_def)
  have "0 \<in> used_pages running_program" by (simp add: used_pages_def m MAX_HEAP_PAGES_def)
  moreover have "page_addr 0 = 0x100000" by (simp add: page_addr_def HEAP_START_ADDR_def)
  ultimately show "tasks_in_pages running_program {THeap 0x100000}" by (force simp: tasks_in_pages_def)
qed

text \<open>It sleeps; or it asks for a line, with the key buffer empty.\<close>

lemma running_program_buffer: "kq_holds running_program []"
proof -
  let ?b = "boot_kernel\<lparr>heap_alloc_table := (\<lambda>_. 0)(0 := 1)\<rparr>"
  have "sched_state.more running_program = sched_state.more ?b"
    by (simp add: running_program_def start_task_def sched_runq_enq_eq)
  then have "keycode_queue running_program = keycode_queue ?b" by (rule more_queue)
  then show ?thesis
    by (simp add: kq_holds_def boot_kernel_def boot_ata_def boot_pci_def boot_task_def boot_heap_def
        boot_con_def con_init_def QUEUE_BUF_SIZE_def kernel_state.defs ata_state.defs blk_state.defs
        pci_state.defs task_state.defs heap_state.defs con_state.defs timer_state.defs Let_def)
qed

theorem syscall_scheduling_witness:
  "(\<exists>s' i. do_syscall (\<lambda>_. 0) SYSCALL_SCHED_WAKEUP_MSEC 33 0 0 running_program = Some (Sleeps i 0, s')
      \<and> sched_inv s' [] [THeap 0x100000] [] \<and> current_task s' = TNull)
    \<and> (\<exists>s' i. do_syscall (\<lambda>_. 0) SYSCALL_CON_GET_LINE 0x5000 16 0 running_program = Some (Reads i 0, s')
      \<and> sched_inv s' [] [] [THeap 0x100000] \<and> current_task s' = TNull)"
proof -
  note R = running_program_facts(1,2) running_program_buffer running_program_facts(3)
  have own: "tasks_in_pages running_program (set (([] @ THeap 0x100000 # []) @ [] @ []))"
    using running_program_facts(4) by simp
  obtain i s' where s': "wakeup_after_msec 33 running_program = Some (i, s')"
    using wakeup_after_msec_spec [OF running_program_facts(1,2), of 33] by blast
  then have r: "do_syscall (\<lambda>_. 0) SYSCALL_SCHED_WAKEUP_MSEC 33 0 0 running_program = Some (Sleeps i 0, s')"
    by (simp add: do_syscall_def syscall_numbers)
  obtain j t where "get_keydata_step running_program = Some (Blocked j, t)"
    using get_keydata_blocks [OF running_program_buffer running_program_facts(1,2)] by blast
  then have "get_line_run 0x5000 16 0 running_program = Some (Waiting j 0, t)"
    by (simp add: get_line_run_unfold)
  then have t: "do_syscall (\<lambda>_. 0) SYSCALL_CON_GET_LINE 0x5000 16 0 running_program = Some (Reads j 0, t)"
    by (simp add: do_syscall_def syscall_numbers line_sysret_def)
  from syscall_scheduling [OF R own r] r syscall_scheduling [OF R own t] t show ?thesis by simp
qed

end
