(* ===== verification/Net.thy ===== *)
theory Net
  imports Ata "HOL-Library.Monad_Syntax"
begin

text \<open>
  The driver of the i825xx network cards, \<^verbatim>\<open>kernel/i825xx.c\<close>. The card is behind memory-mapped registers
  and the rings of descriptors and buffers it shares with the driver: every access to these is an
  event of \<open>mmio\<close>, newest first, and a parameter, the card, gives the value of each read from the
  events so far, the width and the address. \<^verbatim>\<open>uintptr_t\<close> is \<^verbatim>\<open>unsigned int *\<close>, so that the register
  offsets are scaled by four.
\<close>

section \<open>State\<close>

type_synonym u64 = "64 word"

datatype mmio_event = MRead nat u32 u64 | MWrite nat u32 u64

type_synonym nic = "mmio_event list \<Rightarrow> nat \<Rightarrow> u32 \<Rightarrow> u64"

definition NUM_RX_DESCRIPTORS :: nat where "NUM_RX_DESCRIPTORS = 768"
definition NUM_TX_DESCRIPTORS :: nat where "NUM_TX_DESCRIPTORS = 768"

text \<open>
  The function pointers of the two structures are only ever set to the functions below; they have no
  fields here.
\<close>

record net_device_t =
  tx_count :: u32
  rx_count :: u32
  packets_dropped :: u32
  lldev :: u32
  hwid :: u32
  mac_address :: "nat \<Rightarrow> u8"
  nd_interrupt_line :: u16
  nd_pci :: u32

record i825xx_device_t =
  mmio_address :: u32
  rx_desc_base :: u32
  rx_desc :: "nat \<Rightarrow> u32"
  rx_tail :: u16
  tx_desc_base :: u32
  tx_desc :: "nat \<Rightarrow> u32"
  tx_tail :: u16

record pci_bar =
  locate_below_1meg :: bool
  bar_address :: u32
  bar_type :: u32
  prefetchable :: bool
  is64bit :: bool

definition sizeof_net_device_t :: u32 where "sizeof_net_device_t = 52"
definition sizeof_i825xx_device_t :: u32 where "sizeof_i825xx_device_t = 6172"
definition sizeof_i825xx_desc_t :: u32 where "sizeof_i825xx_desc_t = 16"

record net_state = ata_state +
  mmio :: "mmio_event list"
  netdevs :: "u32 \<Rightarrow> net_device_t"
  cards :: "u32 \<Rightarrow> i825xx_device_t"

definition upd_netdev :: "u32 \<Rightarrow> (net_device_t \<Rightarrow> net_device_t) \<Rightarrow> 'a net_state_scheme \<Rightarrow> 'a net_state_scheme" where
  "upd_netdev p f s = s\<lparr>netdevs := (netdevs s)(p := f (netdevs s p))\<rparr>"

definition upd_card :: "u32 \<Rightarrow> (i825xx_device_t \<Rightarrow> i825xx_device_t) \<Rightarrow> 'a net_state_scheme \<Rightarrow> 'a net_state_scheme" where
  "upd_card p f s = s\<lparr>cards := (cards s)(p := f (cards s p))\<rparr>"

section \<open>Not implemented\<close>

definition find_net_device_by_irq :: "u32 \<Rightarrow> 'a con_state_scheme \<Rightarrow> (u32, 'a con_state_scheme) run" where
  "find_net_device_by_irq int_vector s =
     Stuck (kern_abort ''i825xx.c'' 53 ''find_net_device_by_irq'' ''not implemented'' s)"

definition AddInterruptServiceRoutine :: "u32 \<Rightarrow> 'a con_state_scheme \<Rightarrow> (unit, 'a con_state_scheme) run" where
  "AddInterruptServiceRoutine int_line s =
     Stuck (kern_abort ''i825xx.c'' 62 ''AddInterruptServiceRoutine'' ''not implemented'' s)"

definition register_global_network_device :: "u32 \<Rightarrow> 'a con_state_scheme \<Rightarrow> (unit, 'a con_state_scheme) run" where
  "register_global_network_device netdev s =
     Stuck (kern_abort ''i825xx.c'' 68 ''register_global_network_device'' ''not implemented'' s)"

section \<open>Memory-mapped I/O\<close>

definition mmio_read8 :: "nic \<Rightarrow> u32 \<Rightarrow> 'a net_state_scheme \<Rightarrow> u8 \<times> 'a net_state_scheme" where
  "mmio_read8 nic p s = (let v = nic (mmio s) 8 p in (ucast v, s\<lparr>mmio := MRead 8 p v # mmio s\<rparr>))"

definition mmio_read16 :: "nic \<Rightarrow> u32 \<Rightarrow> 'a net_state_scheme \<Rightarrow> u16 \<times> 'a net_state_scheme" where
  "mmio_read16 nic p s = (let v = nic (mmio s) 16 p in (ucast v, s\<lparr>mmio := MRead 16 p v # mmio s\<rparr>))"

definition mmio_read32 :: "nic \<Rightarrow> u32 \<Rightarrow> 'a net_state_scheme \<Rightarrow> u32 \<times> 'a net_state_scheme" where
  "mmio_read32 nic p s = (let v = nic (mmio s) 32 p in (ucast v, s\<lparr>mmio := MRead 32 p v # mmio s\<rparr>))"

definition mmio_read64 :: "nic \<Rightarrow> u32 \<Rightarrow> 'a net_state_scheme \<Rightarrow> u64 \<times> 'a net_state_scheme" where
  "mmio_read64 nic p s = (let v = nic (mmio s) 64 p in (v, s\<lparr>mmio := MRead 64 p v # mmio s\<rparr>))"

definition mmio_write8 :: "u32 \<Rightarrow> u8 \<Rightarrow> 'a net_state_scheme \<Rightarrow> 'a net_state_scheme" where
  "mmio_write8 p v s = s\<lparr>mmio := MWrite 8 p (ucast v) # mmio s\<rparr>"

definition mmio_write16 :: "u32 \<Rightarrow> u16 \<Rightarrow> 'a net_state_scheme \<Rightarrow> 'a net_state_scheme" where
  "mmio_write16 p v s = s\<lparr>mmio := MWrite 16 p (ucast v) # mmio s\<rparr>"

definition mmio_write32 :: "u32 \<Rightarrow> u32 \<Rightarrow> 'a net_state_scheme \<Rightarrow> 'a net_state_scheme" where
  "mmio_write32 p v s = s\<lparr>mmio := MWrite 32 p (ucast v) # mmio s\<rparr>"

definition mmio_write64 :: "u32 \<Rightarrow> u64 \<Rightarrow> 'a net_state_scheme \<Rightarrow> 'a net_state_scheme" where
  "mmio_write64 p v s = s\<lparr>mmio := MWrite 64 p v # mmio s\<rparr>"

text \<open>The register at an offset: pointer arithmetic on \<^verbatim>\<open>unsigned int *\<close>.\<close>

definition i825xx_REG :: "u32 \<Rightarrow> u32 \<Rightarrow> 'a net_state_scheme \<Rightarrow> u32" where
  "i825xx_REG d ofs s = mmio_address (cards s d) + 4 * ofs"

definition i825xx_REG_CTRL :: u32 where "i825xx_REG_CTRL = 0x0000"
definition i825xx_REG_STATUS :: u32 where "i825xx_REG_STATUS = 0x0008"
definition i825xx_REG_EERD :: u32 where "i825xx_REG_EERD = 0x0014"
definition i825xx_REG_MDIC :: u32 where "i825xx_REG_MDIC = 0x0020"
definition i825xx_REG_IMS :: u32 where "i825xx_REG_IMS = 0x00D0"
definition i825xx_REG_RCTL :: u32 where "i825xx_REG_RCTL = 0x0100"
definition i825xx_REG_TCTL :: u32 where "i825xx_REG_TCTL = 0x0400"
definition i825xx_REG_RDBAL :: u32 where "i825xx_REG_RDBAL = 0x2800"
definition i825xx_REG_RDBAH :: u32 where "i825xx_REG_RDBAH = 0x2804"
definition i825xx_REG_RDLEN :: u32 where "i825xx_REG_RDLEN = 0x2808"
definition i825xx_REG_RDH :: u32 where "i825xx_REG_RDH = 0x2810"
definition i825xx_REG_RDT :: u32 where "i825xx_REG_RDT = 0x2818"
definition i825xx_REG_TDBAL :: u32 where "i825xx_REG_TDBAL = 0x3800"
definition i825xx_REG_TDBAH :: u32 where "i825xx_REG_TDBAH = 0x3804"
definition i825xx_REG_TDLEN :: u32 where "i825xx_REG_TDLEN = 0x3808"
definition i825xx_REG_TDH :: u32 where "i825xx_REG_TDH = 0x3810"
definition i825xx_REG_TDT :: u32 where "i825xx_REG_TDT = 0x3818"
definition i825xx_REG_MTA :: u32 where "i825xx_REG_MTA = 0x5200"

definition i825xx_PHYREG_PCTRL :: u32 where "i825xx_PHYREG_PCTRL = 0"
definition i825xx_PHYREG_PSTATUS :: u32 where "i825xx_PHYREG_PSTATUS = 1"
definition i825xx_PHYREG_PSSTAT :: u32 where "i825xx_PHYREG_PSSTAT = 17"

definition CTRL_SLU :: u32 where "CTRL_SLU = push_bit 6 1"

text \<open>Reading and writing the register at an offset.\<close>

definition reg_read :: "nic \<Rightarrow> u32 \<Rightarrow> u32 \<Rightarrow> 'a net_state_scheme \<Rightarrow> u32 \<times> 'a net_state_scheme" where
  "reg_read nic d ofs s = mmio_read32 nic (i825xx_REG d ofs s) s"

definition reg_write :: "u32 \<Rightarrow> u32 \<Rightarrow> u32 \<Rightarrow> 'a net_state_scheme \<Rightarrow> 'a net_state_scheme" where
  "reg_write d ofs v s = mmio_write32 (i825xx_REG d ofs s) v s"

section \<open>EEPROM and PHY\<close>

text \<open>\<^const>\<open>None\<close>: the card never answers.\<close>

partial_function (option) eeprom_loop :: "nic \<Rightarrow> u32 \<Rightarrow> 'a net_state_scheme \<Rightarrow> (u32 \<times> 'a net_state_scheme) option" where
  "eeprom_loop nic d s =
     (case reg_read nic d i825xx_REG_EERD s of (tmp, s) \<Rightarrow>
        if \<not> bit tmp 4 then eeprom_loop nic d (busy_wait 1 s) else Some (tmp, s))"

definition net_i825xx_eeprom_read :: "nic \<Rightarrow> u32 \<Rightarrow> u8 \<Rightarrow> 'a net_state_scheme \<Rightarrow> (u16 \<times> 'a net_state_scheme) option" where
  "net_i825xx_eeprom_read nic d ADDR s =
     do {
       let s = reg_write d i825xx_REG_EERD (1 OR push_bit 8 (ucast ADDR)) s;
       (tmp, s) \<leftarrow> eeprom_loop nic d s;
       Some (ucast (drop_bit 16 tmp AND 0xFFFF), s)
     }"

definition MDIC_PHYADD :: u32 where "MDIC_PHYADD = push_bit 21 1"
definition MDIC_OP_WRITE :: u32 where "MDIC_OP_WRITE = push_bit 26 1"
definition MDIC_OP_READ :: u32 where "MDIC_OP_READ = push_bit 26 2"
definition MDIC_R :: u32 where "MDIC_R = push_bit 28 1"
definition MDIC_I :: u32 where "MDIC_I = push_bit 29 1"
definition MDIC_E :: u32 where "MDIC_E = push_bit 30 1"

partial_function (option) mdic_loop :: "nic \<Rightarrow> u32 \<Rightarrow> 'a net_state_scheme \<Rightarrow> 'a net_state_scheme option" where
  "mdic_loop nic d s =
     (case reg_read nic d i825xx_REG_MDIC s of (v, s) \<Rightarrow>
        if v AND (MDIC_R OR MDIC_E) = 0 then mdic_loop nic d (busy_wait 1 s) else Some s)"

definition net_i825xx_phy_read :: "nic \<Rightarrow> u32 \<Rightarrow> u32 \<Rightarrow> 'a net_state_scheme \<Rightarrow> (u16 \<times> 'a net_state_scheme) option" where
  "net_i825xx_phy_read nic d MDIC_REGADD s =
     do {
       let s = reg_write d i825xx_REG_MDIC
                 (push_bit 16 (MDIC_REGADD AND 0x1F) OR MDIC_PHYADD OR MDIC_I OR MDIC_OP_READ) s;
       s \<leftarrow> mdic_loop nic d s;
       let (v, s) = reg_read nic d i825xx_REG_MDIC s;
       (if v AND MDIC_E \<noteq> 0 then Some (- 1, printk_line ''i825xx: MDI READ ERROR'' [] s)
        else
          (let (v, s) = reg_read nic d i825xx_REG_MDIC s
           in Some (ucast (v AND 0xFFFF), s)))
     }"

definition net_i825xx_phy_write :: "nic \<Rightarrow> u32 \<Rightarrow> u32 \<Rightarrow> u16 \<Rightarrow> 'a net_state_scheme \<Rightarrow> 'a net_state_scheme option" where
  "net_i825xx_phy_write nic d MDIC_REGADD MDIC_DATA s =
     do {
       let s = reg_write d i825xx_REG_MDIC
                 ((ucast MDIC_DATA AND 0xFFFF) OR push_bit 16 (MDIC_REGADD AND 0x1F) OR
                  MDIC_PHYADD OR MDIC_I OR MDIC_OP_WRITE) s;
       s \<leftarrow> mdic_loop nic d s;
       let (v, s) = reg_read nic d i825xx_REG_MDIC s;
       (if v AND MDIC_E \<noteq> 0 then Some (printk_line ''i825xx: MDI WRITE ERROR'' [] s) else Some s)
     }"

section \<open>Receiving and transmitting\<close>

definition RCTL_EN :: u32 where "RCTL_EN = push_bit 1 1"
definition RCTL_SBP :: u32 where "RCTL_SBP = push_bit 2 1"
definition RCTL_UPE :: u32 where "RCTL_UPE = push_bit 3 1"
definition RCTL_MPE :: u32 where "RCTL_MPE = push_bit 4 1"
definition RCTL_LPE :: u32 where "RCTL_LPE = push_bit 5 1"
definition RDMTS_HALF :: u32 where "RDMTS_HALF = push_bit 8 0"
definition RCTL_BAM :: u32 where "RCTL_BAM = push_bit 15 1"
definition RCTL_BSIZE_8192 :: u32 where "RCTL_BSIZE_8192 = push_bit 16 2 OR push_bit 25 1"
definition RCTL_SECRC :: u32 where "RCTL_SECRC = push_bit 26 1"
definition TCTL_EN :: u32 where "TCTL_EN = push_bit 1 1"
definition TCTL_PSP :: u32 where "TCTL_PSP = push_bit 3 1"

definition net_i825xx_rx_enable :: "nic \<Rightarrow> u32 \<Rightarrow> 'a net_state_scheme \<Rightarrow> 'a net_state_scheme" where
  "net_i825xx_rx_enable nic netdev s =
     (let d = lldev (netdevs s netdev);
          (v, s) = reg_read nic d i825xx_REG_RCTL s
      in reg_write d i825xx_REG_RCTL (v OR RCTL_EN) s)"

text \<open>An address rounded up to a multiple of 16, as a signed number.\<close>

definition align16 :: "u32 \<Rightarrow> u32" where
  "align16 p = (let r = word_of_int (sint p smod 16) in if r \<noteq> 0 then p + 16 - r else p)"

text \<open>The fields of a descriptor: \<^verbatim>\<open>address\<close>, \<^verbatim>\<open>length\<close>, and the bytes from offset 10 on.\<close>

fun rx_fill :: "nat list \<Rightarrow> u32 \<Rightarrow> 'a net_state_scheme \<Rightarrow> (unit, 'a net_state_scheme) run" where
  "rx_fill [] d s = Done () s"
| "rx_fill (i # is) d s =
     (let a = rx_desc_base (cards s d) + of_nat (i * 16);
          s = upd_card d (\<lambda>c. c\<lparr>rx_desc := (rx_desc c)(i := a)\<rparr>) s
      in case kmalloc (8192 + 16) s of
           Stuck s \<Rightarrow> Stuck s
         | Done p s \<Rightarrow>
             (let s = mmio_write64 a (scast p) s;
                  s = mmio_write8 (a + 12) 0 s
              in rx_fill is d s))"

text \<open>The value of a 64-bit address register's two halves.\<close>

definition high_half :: "u32 \<Rightarrow> u32" where
  "high_half p = ucast (drop_bit 32 (ucast p :: u64))"

definition low_half :: "u32 \<Rightarrow> u32" where
  "low_half p = ucast ((ucast p :: u64) AND 0xFFFFFFFF)"

text \<open>The two registers a \<^verbatim>\<open>printk\<close> shows are read from the last argument to the first.\<close>

definition net_i825xx_rx_init :: "nic \<Rightarrow> u32 \<Rightarrow> 'a net_state_scheme \<Rightarrow> (int, 'a net_state_scheme) run" where
  "net_i825xx_rx_init nic netdev s =
     (let d = lldev (netdevs s netdev)
      in case kmalloc (sizeof_i825xx_desc_t * of_nat NUM_RX_DESCRIPTORS + 16) s of
           Stuck s \<Rightarrow> Stuck s
         | Done tmpbase s \<Rightarrow>
             (let s = upd_card d (\<lambda>c. c\<lparr>rx_desc_base := align16 tmpbase\<rparr>) s
              in case rx_fill [0..<NUM_RX_DESCRIPTORS] d s of
                   Stuck s \<Rightarrow> Stuck s
                 | Done _ s \<Rightarrow>
                     (let b = rx_desc_base (cards s d);
                          s = reg_write d i825xx_REG_RDBAH (high_half b) s;
                          s = reg_write d i825xx_REG_RDBAL (low_half b) s;
                          (l, s) = reg_read nic d i825xx_REG_RDBAL s;
                          (h, s) = reg_read nic d i825xx_REG_RDBAH s;
                          s = printk_line ''i825xx[%u]: RDBAH/RDBAL = %x:%x''
                                [PInt (hwid (netdevs s netdev)), PInt h, PInt l] s;
                          s = reg_write d i825xx_REG_RDLEN (of_nat (NUM_RX_DESCRIPTORS * 16)) s;
                          s = reg_write d i825xx_REG_RDH 0 s;
                          s = reg_write d i825xx_REG_RDT (of_nat NUM_RX_DESCRIPTORS) s;
                          s = upd_card d (\<lambda>c. c\<lparr>rx_tail := 0\<rparr>) s;
                          s = reg_write d i825xx_REG_RCTL (RCTL_SBP OR RCTL_UPE OR RCTL_MPE OR RDMTS_HALF OR
                                RCTL_SECRC OR RCTL_LPE OR RCTL_BAM OR RCTL_BSIZE_8192) s
                      in Done 0 s)))"

fun tx_fill :: "nat list \<Rightarrow> u32 \<Rightarrow> 'a net_state_scheme \<Rightarrow> 'a net_state_scheme" where
  "tx_fill [] d s = s"
| "tx_fill (i # is) d s =
     (let a = tx_desc_base (cards s d) + of_nat (i * 16);
          s = upd_card d (\<lambda>c. c\<lparr>tx_desc := (tx_desc c)(i := a)\<rparr>) s;
          s = mmio_write64 a 0 s;
          s = mmio_write8 (a + 11) 0 s
      in tx_fill is d s)"

definition net_i825xx_tx_init :: "nic \<Rightarrow> u32 \<Rightarrow> 'a net_state_scheme \<Rightarrow> (int, 'a net_state_scheme) run" where
  "net_i825xx_tx_init nic netdev s =
     (let d = lldev (netdevs s netdev)
      in case kmalloc (sizeof_i825xx_desc_t * of_nat NUM_TX_DESCRIPTORS + 16) s of
           Stuck s \<Rightarrow> Stuck s
         | Done tmpbase s \<Rightarrow>
             (let s = upd_card d (\<lambda>c. c\<lparr>tx_desc_base := align16 tmpbase\<rparr>) s;
                  s = tx_fill [0..<NUM_TX_DESCRIPTORS] d s;
                  b = tx_desc_base (cards s d);
                  s = reg_write d i825xx_REG_TDBAH (high_half b) s;
                  s = reg_write d i825xx_REG_TDBAL (low_half b) s;
                  (l, s) = reg_read nic d i825xx_REG_TDBAL s;
                  (h, s) = reg_read nic d i825xx_REG_TDBAH s;
                  s = printk_line ''i825xx[%u]: TDBAH/TDBAL = %x:%x''
                        [PInt (hwid (netdevs s netdev)), PInt h, PInt l] s;
                  s = reg_write d i825xx_REG_TDLEN (of_nat (NUM_TX_DESCRIPTORS * 16)) s;
                  s = reg_write d i825xx_REG_TDH 0 s;
                  s = reg_write d i825xx_REG_TDT (of_nat NUM_TX_DESCRIPTORS) s;
                  s = upd_card d (\<lambda>c. c\<lparr>tx_tail := 0\<rparr>) s;
                  s = reg_write d i825xx_REG_TCTL (TCTL_EN OR TCTL_PSP) s
              in Done 0 s))"

text \<open>The next index of a ring of 768 descriptors.\<close>

definition next_desc :: "u16 \<Rightarrow> u16" where
  "next_desc i = of_nat ((unat i + 1) mod NUM_RX_DESCRIPTORS)"

partial_function (option) tx_wait :: "nic \<Rightarrow> u32 \<Rightarrow> 'a net_state_scheme \<Rightarrow> 'a net_state_scheme option" where
  "tx_wait nic a s =
     (case mmio_read8 nic a s of (v, s) \<Rightarrow>
        if v AND 0xF = 0 then tx_wait nic a (busy_wait 1 s) else Some s)"

definition net_i825xx_tx_poll :: "nic \<Rightarrow> u32 \<Rightarrow> u32 \<Rightarrow> u16 \<Rightarrow> 'a net_state_scheme \<Rightarrow> 'a net_state_scheme option" where
  "net_i825xx_tx_poll nic netdev pkt len s =
     do {
       let d = lldev (netdevs s netdev);
       let a = tx_desc (cards s d) (unat (tx_tail (cards s d)));
       let s = mmio_write64 a (scast pkt) s;
       let s = mmio_write16 (a + 8) len s;
       let s = mmio_write8 (a + 11) (push_bit 3 1 OR 3) s;
       let oldtail = tx_tail (cards s d);
       let s = upd_card d (\<lambda>c. c\<lparr>tx_tail := next_desc (tx_tail c)\<rparr>) s;
       let s = reg_write d i825xx_REG_TDT (ucast (tx_tail (cards s d))) s;
       s \<leftarrow> tx_wait nic (tx_desc (cards s d) (unat oldtail) + 12) s;
       Some (upd_netdev netdev (\<lambda>n. n\<lparr>tx_count := tx_count n + 1\<rparr>) s)
     }"

text \<open>One descriptor of the receive ring: the messages about the packet, then the bookkeeping.\<close>

definition rx_check :: "nic \<Rightarrow> u32 \<Rightarrow> u32 \<Rightarrow> 'a net_state_scheme \<Rightarrow> bool \<times> 'a net_state_scheme" where
  "rx_check nic netdev a s =
     (let (pkt, s) = mmio_read64 nic a s;
          (pktlen, s) = mmio_read16 nic (a + 8) s;
          dropflag = False;
          (dropflag, s) =
            (if pktlen < 60 then
               (True, printk_line ''net[%u]: short packet (%u bytes)''
                  [PInt (hwid (netdevs s netdev)), PInt (ucast pktlen)] s)
             else (dropflag, s));
          (status, s) = mmio_read8 nic (a + 12) s;
          (dropflag, s) =
            (if \<not> bit status 1 then
               (let (c2, s) = mmio_read8 nic (ucast pkt + 2) s;
                    (c1, s) = mmio_read8 nic (ucast pkt + 1) s;
                    (c0, s) = mmio_read8 nic (ucast pkt) s
                in (True, printk_line ''net[%u]: no EOP set! (len=%u, 0x%x 0x%x 0x%x)''
                     [PInt (hwid (netdevs s netdev)), PInt (ucast pktlen), PInt (ucast c0),
                      PInt (ucast c1), PInt (ucast c2)] s))
             else (dropflag, s));
          (errors, s) = mmio_read8 nic (a + 13) s
      in if errors \<noteq> 0 then
           (let (errors, s) = mmio_read8 nic (a + 13) s
            in (True, printk_line ''net[%u]: rx errors (0x%x)''
                  [PInt (hwid (netdevs s netdev)), PInt (ucast errors)] s))
         else (dropflag, s))"

definition rx_done :: "u32 \<Rightarrow> u32 \<Rightarrow> 'a net_state_scheme \<Rightarrow> 'a net_state_scheme" where
  "rx_done netdev d s =
     (let s = upd_netdev netdev (\<lambda>n. n\<lparr>rx_count := rx_count n + 1\<rparr>) s;
          s = mmio_write8 (rx_desc (cards s d) (unat (rx_tail (cards s d))) + 12) 0 s;
          s = upd_card d (\<lambda>c. c\<lparr>rx_tail := next_desc (rx_tail c)\<rparr>) s
      in reg_write d i825xx_REG_RDT (ucast (rx_tail (cards s d))) s)"

text \<open>\<^const>\<open>None\<close>: packets keep coming.\<close>

partial_function (option) rx_poll_loop :: "nic \<Rightarrow> u32 \<Rightarrow> u32 \<Rightarrow> 'a net_state_scheme \<Rightarrow> 'a net_state_scheme option" where
  "rx_poll_loop nic netdev d s =
     (case mmio_read8 nic (rx_desc (cards s d) (unat (rx_tail (cards s d))) + 12) s of (status, s) \<Rightarrow>
        if bit status 0 then
          rx_poll_loop nic netdev d (rx_done netdev d
            (snd (rx_check nic netdev (rx_desc (cards s d) (unat (rx_tail (cards s d)))) s)))
        else Some s)"

definition net_i825xx_rx_poll :: "nic \<Rightarrow> u32 \<Rightarrow> 'a net_state_scheme \<Rightarrow> 'a net_state_scheme option" where
  "net_i825xx_rx_poll nic netdev s = rx_poll_loop nic netdev (lldev (netdevs s netdev)) s"

section \<open>Interrupts\<close>

text \<open>Printing a PHY register: the read comes first.\<close>

definition show_phy :: "nic \<Rightarrow> u32 \<Rightarrow> string \<Rightarrow> u32 \<Rightarrow> 'a net_state_scheme \<Rightarrow> 'a net_state_scheme option" where
  "show_phy nic d fmt r s =
     do {
       (v, s) \<leftarrow> net_i825xx_phy_read nic d r s;
       Some (printk_line fmt [PInt (ucast v)] s)
     }"

definition link_change :: "nic \<Rightarrow> u32 \<Rightarrow> 'a net_state_scheme \<Rightarrow> 'a net_state_scheme option" where
  "link_change nic d s =
     do {
       let (v, s) = reg_read nic d i825xx_REG_CTRL s;
       let s = reg_write d i825xx_REG_CTRL (v OR CTRL_SLU) s;
       let (v, s) = reg_read nic d i825xx_REG_STATUS s;
       let s = printk_line ''i825xx: Link Status Change, STATUS = 0x%x'' [PInt v] s;
       s \<leftarrow> show_phy nic d ''i825xx: PHY CONTROL = 0x%x'' i825xx_PHYREG_PCTRL s;
       s \<leftarrow> show_phy nic d ''i825xx: PHY STATUS = 0x%x'' i825xx_PHYREG_PSTATUS s;
       s \<leftarrow> show_phy nic d ''i825xx: PHY PSSTAT = 0x%x'' i825xx_PHYREG_PSSTAT s;
       s \<leftarrow> show_phy nic d ''i825xx: PHY ANA = 0x%x'' 4 s;
       s \<leftarrow> show_phy nic d ''i825xx: PHY ANE = 0x%x'' 6 s;
       s \<leftarrow> show_phy nic d ''i825xx: PHY GCON = 0x%x'' 9 s;
       s \<leftarrow> show_phy nic d ''i825xx: PHY GSTATUS = 0x%x'' 10 s;
       show_phy nic d ''i825xx: PHY EPSTATUS = 0x%x'' 15 s
     }"

definition show_pending :: "nic \<Rightarrow> u32 \<Rightarrow> nat \<Rightarrow> 'a net_state_scheme \<Rightarrow> 'a net_state_scheme" where
  "show_pending nic d i s =
     (let (status, s) = mmio_read8 nic (rx_desc (cards s d) i + 12) s
      in if status \<noteq> 0 then
           (let (status, s) = mmio_read8 nic (rx_desc (cards s d) i + 12) s
            in printk_line '' pending descriptor (i=%u, status=0x%x)'' [PInt (of_nat i), PInt (ucast status)] s)
         else s)"

definition rx_underrun :: "nic \<Rightarrow> u32 \<Rightarrow> u32 \<Rightarrow> 'a net_state_scheme \<Rightarrow> 'a net_state_scheme option" where
  "rx_underrun nic netdev d s =
     (let (h, s) = reg_read nic d i825xx_REG_RDH s;
          s = printk_line '' underrun (rx_head = %u, rx_tail = %u)'' [PInt h, PInt (ucast (rx_tail (cards s d)))] s;
          s = fold (show_pending nic d) [0..<NUM_RX_DESCRIPTORS] s
      in net_i825xx_rx_poll nic netdev s)"

text \<open>
  The handler after \<^verbatim>\<open>find_net_device_by_irq\<close>. \<^verbatim>\<open>netdev->lldev\<close> is read before the test for a null pointer.
\<close>

definition interrupt_body :: "nic \<Rightarrow> u32 \<Rightarrow> u32 \<Rightarrow> 'a net_state_scheme \<Rightarrow> 'a net_state_scheme option" where
  "interrupt_body nic vector netdev s =
     (let d = lldev (netdevs s netdev)
      in if netdev = 0 then Some (printk_line ''i825xx: UNKNOWN IRQ / INVALID DEVICE'' [] s)
         else do {
           let (icr, s) = reg_read nic d 0xC0 s;
           let icr = icr AND NOT 3;
           s \<leftarrow> (if bit icr 2 then link_change nic d s else Some s);
           let icr = icr AND NOT (push_bit 2 1);
           s \<leftarrow> (if bit icr 6 \<or> bit icr 4 then rx_underrun nic netdev d s else Some s);
           let icr = icr AND NOT (push_bit 6 1 OR push_bit 4 1);
           s \<leftarrow> (if bit icr 7 then net_i825xx_rx_poll nic netdev s else Some s);
           let icr = icr AND NOT (push_bit 7 1);
           let s = (if icr \<noteq> 0 then
                      printk_line ''i825xx[%u]: unhandled interrupt #%u received! (0x%x)''
                        [PInt (hwid (netdevs s netdev)), PInt vector, PInt icr] s
                    else s);
           Some (snd (reg_read nic d 0xC0 s))
         })"

definition i825xx_interrupt_handler :: "nic \<Rightarrow> u32 \<Rightarrow> 'a net_state_scheme \<Rightarrow> (unit, 'a net_state_scheme) run option" where
  "i825xx_interrupt_handler nic vector s =
     (case find_net_device_by_irq vector s of
        Stuck s \<Rightarrow> Some (Stuck s)
      | Done netdev s \<Rightarrow> map_option (Done ()) (interrupt_body nic vector netdev s))"

section \<open>The entry point\<close>

definition PCI_BAR_MMIO :: u32 where "PCI_BAR_MMIO = 1"

definition show_bar :: "pci_bar \<Rightarrow> 'a net_state_scheme \<Rightarrow> 'a net_state_scheme" where
  "show_bar bar s =
     (let yes = (\<lambda>b. PStr (bytes_of (if b then ''true'' else ''false'')));
          s = printk_line ''BAR0:'' [] s;
          s = printk_line '' type: %s''
                [PStr (bytes_of (if bar_type bar \<noteq> 0 then ''I/O'' else ''Memory Mapped I/O''))] s;
          s = printk_line '' prefetchable: %s'' [yes (prefetchable bar)] s;
          s = printk_line '' is64bit: %s'' [yes (is64bit bar)] s;
          s = printk_line '' locate below 1MB: %s'' [yes (locate_below_1meg bar)] s
      in printk_line '' address: 0x%x'' [PInt (bar_address bar)] s)"

text \<open>Two bytes of the hardware address from a word of the EEPROM.\<close>

definition read_mac :: "nic \<Rightarrow> u32 \<Rightarrow> u32 \<Rightarrow> nat \<Rightarrow> 'a net_state_scheme \<Rightarrow> 'a net_state_scheme option" where
  "read_mac nic netdev d i s =
     do {
       (mac16, s) \<leftarrow> net_i825xx_eeprom_read nic d (of_nat i) s;
       Some (upd_netdev netdev (\<lambda>n. n\<lparr>mac_address := (mac_address n)
         (2 * i := ucast (mac16 AND 0xFF), 2 * i + 1 := ucast (drop_bit 8 mac16 AND 0xFF))\<rparr>) s)
     }"

text \<open>The configuration of the card, once its interrupt handler and itself are registered.\<close>

definition net_configure :: "nic \<Rightarrow> u32 \<Rightarrow> u32 \<Rightarrow> 'a net_state_scheme \<Rightarrow> (int, 'a net_state_scheme) run option" where
  "net_configure nic netdev d s =
     do {
       let n = netdevs s netdev;
       let s = printk_line ''i825xx[%u]: interrupt line = %u (isr%u)''
                 [PInt (hwid n), PInt (ucast (nd_interrupt_line n)), PInt (32 + ucast (nd_interrupt_line n))] s;
       s \<leftarrow> read_mac nic netdev d 0 s;
       s \<leftarrow> read_mac nic netdev d 1 s;
       s \<leftarrow> read_mac nic netdev d 2 s;
       let (v, s) = reg_read nic d i825xx_REG_CTRL s;
       let s = reg_write d i825xx_REG_CTRL (v OR CTRL_SLU) s;
       let s = printk_line ''i825xx[%u]: Initializing the Multicast Table Array...'' [PInt (hwid n)] s;
       let s = fold (\<lambda>i. reg_write d (i825xx_REG_MTA + of_nat (i * 4)) 0) [0..<128] s;
       let s = reg_write d i825xx_REG_IMS 0x1F6DC s;
       let (_, s) = reg_read nic d 0xC0 s;
       Some (case net_i825xx_rx_init nic netdev s of
          Stuck s \<Rightarrow> Stuck s
        | Done _ s \<Rightarrow>
            (case net_i825xx_tx_init nic netdev s of
               Stuck s \<Rightarrow> Stuck s
             | Done _ s \<Rightarrow> Done 0 (printk_line ''i825xx[%u]: configuration complete'' [PInt (hwid n)] s)))
     }"

text \<open>\<open>pcidev\<close> is the address of a device in the PCI list.\<close>

definition net_i825xx_init :: "nic \<Rightarrow> u32 \<Rightarrow> 'a net_state_scheme \<Rightarrow> (int, 'a net_state_scheme) run option" where
  "net_i825xx_init nic pcidev s =
     (case kmalloc sizeof_net_device_t s of
        Stuck s \<Rightarrow> Some (Stuck s)
      | Done netdev s \<Rightarrow>
     (case kmalloc sizeof_i825xx_device_t s of
        Stuck s \<Rightarrow> Some (Stuck s)
      | Done d s \<Rightarrow>
     (let s = upd_netdev netdev (\<lambda>n. n\<lparr>nd_pci := pcidev, lldev := d, rx_count := 0, tx_count := 0,
                packets_dropped := 0\<rparr>) s
      in case pci_resolve_bar (pci_data s pcidev) 0 s of
        Stuck s \<Rightarrow> Some (Stuck s)
      | Done None s \<Rightarrow> Some (Done (- 1) s)
      | Done (Some bar) s \<Rightarrow>
          if bar_type bar \<noteq> PCI_BAR_MMIO \<or> locate_below_1meg bar then Some (Done (- 1) s)
          else
            (let s = show_bar bar s;
                 s = upd_card d (\<lambda>c. c\<lparr>mmio_address := bar_address bar\<rparr>) s;
                 s = upd_netdev netdev (\<lambda>n. n\<lparr>nd_interrupt_line := pd_interrupt_line (pci_data s (nd_pci n))\<rparr>) s
             in case AddInterruptServiceRoutine (ucast (nd_interrupt_line (netdevs s netdev))) s of
                Stuck s \<Rightarrow> Some (Stuck s)
              | Done _ s \<Rightarrow>
             (case register_global_network_device netdev s of
                Stuck s \<Rightarrow> Some (Stuck s)
              | Done _ s \<Rightarrow> net_configure nic netdev d s)))))"

end
