(* ===== verification/Net_Props.thy ===== *)
theory Net_Props
  imports Net Kernel_Props
begin

text \<open>
  The network driver: its receive loop empties the ring of descriptors, and its entry point never
  gets past its second allocation.
\<close>

section \<open>The console leaves the card alone\<close>

lemma printk_loop_more: "printk_loop l f ap s = Some s' \<Longrightarrow> con_state.more s' = con_state.more s"
  using printk_output [of l f ap s s'] put_bytes_more by blast

definition net_view :: "'a net_state_scheme \<Rightarrow> mmio_event list \<times> (u32 \<Rightarrow> net_device_t) \<times> (u32 \<Rightarrow> i825xx_device_t)" where
  "net_view s = (mmio s, netdevs s, cards s)"

lemma con_more_net: "con_state.more s' = con_state.more s \<Longrightarrow> net_view s' = net_view s"
  by (cases s; cases s') (simp add: net_view_def)

lemma printk_line_net:
  assumes "printk (fmt @ [CHR 0x0a]) ap s \<noteq> None"
  shows "net_view (printk_line fmt ap s) = net_view s"
  using assms printk_loop_more by (intro con_more_net) (auto simp: printk_line_def printk_def)

lemma rx_messages:
  "net_view (printk_line ''net[%u]: short packet (%u bytes)'' [PInt a, PInt b] s) = net_view s"
  "net_view (printk_line ''net[%u]: no EOP set! (len=%u, 0x%x 0x%x 0x%x)'' [PInt a, PInt b, PInt c, PInt e, PInt f] s)
     = net_view s"
  "net_view (printk_line ''net[%u]: rx errors (0x%x)'' [PInt a, PInt b] s) = net_view s"
  by (rule printk_line_net; simp add: printk_def printk_loop.simps)+

section \<open>The receive loop\<close>

text \<open>What the driver has made of its structures, and its writes to what it shares with the card.\<close>

definition net_writes :: "'a net_state_scheme \<Rightarrow> (nat \<times> u32 \<times> u64) set" where
  "net_writes s = {(w, p, v). MWrite w p v \<in> set (mmio s)}"

definition driver_view :: "'a net_state_scheme \<Rightarrow>
    (u32 \<Rightarrow> net_device_t) \<times> (u32 \<Rightarrow> i825xx_device_t) \<times> (nat \<times> u32 \<times> u64) set" where
  "driver_view s = (netdevs s, cards s, net_writes s)"

lemma driver_view_cong: "net_view s' = net_view s \<Longrightarrow> driver_view s' = driver_view s"
  by (simp add: net_view_def driver_view_def net_writes_def)

lemmas driver_view_messages [simp] = rx_messages [THEN driver_view_cong]

lemma driver_view_reads [simp]:
  "driver_view (snd (mmio_read8 nic p s)) = driver_view s" "driver_view (snd (mmio_read16 nic p s)) = driver_view s"
  "driver_view (snd (mmio_read32 nic p s)) = driver_view s" "driver_view (snd (mmio_read64 nic p s)) = driver_view s"
  by (simp_all add: driver_view_def net_writes_def mmio_read8_def mmio_read16_def mmio_read32_def
      mmio_read64_def Let_def)

lemma driver_view_check [simp]: "driver_view (snd (rx_check nic n a s)) = driver_view s"
  by (simp add: rx_check_def Let_def split_beta)

text \<open>The descriptors the card has filled and the driver has not given back.\<close>

definition status_addr :: "i825xx_device_t \<Rightarrow> nat \<Rightarrow> u32" where
  "status_addr c i = rx_desc c i + 12"

definition rx_pending :: "nat set \<Rightarrow> u32 \<Rightarrow> 'a net_state_scheme \<Rightarrow> nat set" where
  "rx_pending P d s = {i \<in> P. i < NUM_RX_DESCRIPTORS \<and> (8, status_addr (cards s d) i, 0) \<notin> net_writes s}"

text \<open>
  A card that has filled the descriptors \<open>P\<close> and receives nothing more: the done bit of a status reads as
  set until the driver clears the status.
\<close>

definition card_filled :: "nic \<Rightarrow> i825xx_device_t \<Rightarrow> nat set \<Rightarrow> bool" where
  "card_filled nic c P \<longleftrightarrow> (\<forall>h. \<forall>i < NUM_RX_DESCRIPTORS.
     bit (nic h 8 (status_addr c i)) 0 \<longleftrightarrow> i \<in> P \<and> MWrite 8 (status_addr c i) 0 \<notin> set h)"

definition ring_ok :: "i825xx_device_t \<Rightarrow> bool" where
  "ring_ok c \<longleftrightarrow> inj_on (status_addr c) {..<NUM_RX_DESCRIPTORS} \<and> unat (rx_tail c) < NUM_RX_DESCRIPTORS"

lemma rx_done_spec:
  fixes s :: "'a net_state_scheme" and n d :: u32
  assumes "ring_ok (cards s d)"
  defines "t \<equiv> unat (rx_tail (cards s d))" and "u \<equiv> rx_done n d s"
  shows "netdevs u = (netdevs s)(n := (netdevs s n)\<lparr>rx_count := rx_count (netdevs s n) + 1\<rparr>)"
    and "cards u = (cards s)(d := (cards s d)\<lparr>rx_tail := of_nat ((t + 1) mod 768)\<rparr>)"
    and "unat (rx_tail (cards u d)) = (t + 1) mod 768"
    and "rx_pending P d u = rx_pending P d s - {t}"
    and "MWrite 32 (mmio_address (cards s d) + 4 * i825xx_REG_RDT) (of_nat ((t + 1) mod 768)) = hd (mmio u)"
    and "ring_ok (cards u d)"
proof -
  have small: "(t + 1) mod 768 < 2 ^ 16" by (rule less_trans [of _ 768]) simp_all
  show N: "netdevs u = (netdevs s)(n := (netdevs s n)\<lparr>rx_count := rx_count (netdevs s n) + 1\<rparr>)"
    and C: "cards u = (cards s)(d := (cards s d)\<lparr>rx_tail := of_nat ((t + 1) mod 768)\<rparr>)"
    by (simp_all add: u_def t_def rx_done_def Let_def upd_netdev_def upd_card_def mmio_write8_def reg_write_def
        mmio_write32_def next_desc_def NUM_RX_DESCRIPTORS_def)
  show T: "unat (rx_tail (cards u d)) = (t + 1) mod 768"
    using small by (simp add: C unsigned_of_nat take_bit_nat_eq_self)
  have W: "mmio u = MWrite 32 (mmio_address (cards s d) + 4 * i825xx_REG_RDT) (of_nat ((t + 1) mod 768))
      # MWrite 8 (status_addr (cards s d) t) 0 # mmio s"
    using small
    by (simp add: u_def t_def rx_done_def Let_def upd_netdev_def upd_card_def mmio_write8_def reg_write_def
        mmio_write32_def i825xx_REG_def next_desc_def NUM_RX_DESCRIPTORS_def status_addr_def
        unsigned_of_nat take_bit_nat_eq_self)
  then show "MWrite 32 (mmio_address (cards s d) + 4 * i825xx_REG_RDT) (of_nat ((t + 1) mod 768)) = hd (mmio u)"
    by simp
  have addr: "status_addr (cards u d) = status_addr (cards s d)" by (simp add: status_addr_def C fun_eq_iff)
  then show "ring_ok (cards u d)" using assms(1) T by (simp add: ring_ok_def NUM_RX_DESCRIPTORS_def)
  have "status_addr (cards s d) i = status_addr (cards s d) t \<longleftrightarrow> i = t" if "i < NUM_RX_DESCRIPTORS" for i
    using assms(1) that by (auto simp: ring_ok_def t_def inj_on_def)
  then show "rx_pending P d u = rx_pending P d s - {t}"
    by (auto simp: rx_pending_def net_writes_def W addr)
qed

lemma driver_viewD:
  assumes "driver_view s' = driver_view s"
  shows "netdevs s' = netdevs s" "cards s' = cards s" "rx_pending P d s' = rx_pending P d s"
  using assms by (simp_all add: driver_view_def rx_pending_def)

lemma finite_pending: "finite (rx_pending P d s)"
  by (rule finite_subset [of _ "{..<NUM_RX_DESCRIPTORS}"]) (auto simp: rx_pending_def)

text \<open>One turn: the status of the descriptor at the tail decides.\<close>

lemma rx_poll_turn:
  assumes "ring_ok (cards s d)" and "card_filled nic (cards s d) P"
  shows "\<exists>s2. driver_view s2 = driver_view s
    \<and> rx_poll_loop nic n d s =
      (if unat (rx_tail (cards s d)) \<in> rx_pending P d s then rx_poll_loop nic n d (rx_done n d s2) else Some s2)"
proof -
  let ?t = "unat (rx_tail (cards s d))"
  obtain v s1 where r: "mmio_read8 nic (status_addr (cards s d) ?t) s = (v, s1)" by fastforce
  then have s1: "driver_view s1 = driver_view s" by (metis driver_view_reads(1) snd_conv)
  have t: "?t < NUM_RX_DESCRIPTORS" using assms(1) by (simp add: ring_ok_def)
  have "v = ucast (nic (mmio s) 8 (status_addr (cards s d) ?t))"
    using r by (simp add: mmio_read8_def Let_def)
  then have v: "bit v 0 \<longleftrightarrow> ?t \<in> rx_pending P d s"
    using assms(2) t by (auto simp: card_filled_def rx_pending_def net_writes_def bit_simps)
  let ?s2 = "snd (rx_check nic n (rx_desc (cards s1 d) (unat (rx_tail (cards s1 d)))) s1)"
  have loop: "rx_poll_loop nic n d s = (if bit v 0 then rx_poll_loop nic n d (rx_done n d ?s2) else Some s1)"
    using r by (subst rx_poll_loop.simps) (simp add: status_addr_def)
  show ?thesis
  proof (cases "bit v 0")
    case True
    with loop v s1 show ?thesis by (intro exI [of _ ?s2]) simp
  next
    case False
    with loop v s1 show ?thesis by (intro exI [of _ s1]) simp
  qed
qed

text \<open>The slots passed in \<open>k + 1\<close> turns: the first, and those passed in \<open>k\<close> turns from its successor on.\<close>

lemma slots_passed:
  assumes "t < (768 :: nat)"
  shows "(\<lambda>i. (t + i) mod 768) ` {..<Suc k} = insert t ((\<lambda>i. ((t + 1) mod 768 + i) mod 768) ` {..<k})"
    and "((t + 1) mod 768 + i) mod 768 = (t + Suc i) mod 768"
    and "t \<in> S \<Longrightarrow> \<forall>i < k. ((t + 1) mod 768 + i) mod 768 \<in> S - {t} \<Longrightarrow> \<forall>i < Suc k. (t + i) mod 768 \<in> S"
proof -
  have shift: "((t + 1) mod 768 + i) mod 768 = (t + Suc i) mod 768" for i by (simp add: mod_simps)
  then show "((t + 1) mod 768 + i) mod 768 = (t + Suc i) mod 768" .
  have t0: "(t + 0) mod 768 = t" using assms by simp
  show "(\<lambda>i. (t + i) mod 768) ` {..<Suc k} = insert t ((\<lambda>i. ((t + 1) mod 768 + i) mod 768) ` {..<k})"
    unfolding lessThan_Suc_eq_insert_0 image_insert image_image t0 shift by (rule refl)
  assume S: "t \<in> S" "\<forall>i < k. ((t + 1) mod 768 + i) mod 768 \<in> S - {t}"
  show "\<forall>i < Suc k. (t + i) mod 768 \<in> S"
  proof (intro allI impI)
    fix i assume "i < Suc k"
    then show "(t + i) mod 768 \<in> S" using S t0 unfolding shift by (cases i) (simp_all only: Suc_less_eq, blast)
  qed
qed

lemma rx_poll_loop_spec:
  assumes "ring_ok (cards s d)" and "card_filled nic (cards s d) P"
  shows "\<exists>k s'. rx_poll_loop nic n d s = Some s'
    \<and> netdevs s' = (netdevs s)(n := (netdevs s n)\<lparr>rx_count := rx_count (netdevs s n) + of_nat k\<rparr>)
    \<and> unat (rx_tail (cards s' d)) = (unat (rx_tail (cards s d)) + k) mod 768
    \<and> rx_desc (cards s' d) = rx_desc (cards s d)
    \<and> (\<forall>i < k. (unat (rx_tail (cards s d)) + i) mod 768 \<in> rx_pending P d s)
    \<and> rx_pending P d s' = rx_pending P d s - (\<lambda>i. (unat (rx_tail (cards s d)) + i) mod 768) ` {..<k}
    \<and> unat (rx_tail (cards s' d)) \<notin> rx_pending P d s'"
  using assms
proof (induction "card (rx_pending P d s)" arbitrary: s rule: less_induct)
  case less
  let ?t = "unat (rx_tail (cards s d))"
  obtain s2 where s2: "driver_view s2 = driver_view s"
    and loop: "rx_poll_loop nic n d s = (if ?t \<in> rx_pending P d s then rx_poll_loop nic n d (rx_done n d s2) else Some s2)"
    using rx_poll_turn [OF less.prems] by blast
  note V = driver_viewD [OF s2]
  show ?case
  proof (cases "?t \<in> rx_pending P d s")
    case False
    have "?t mod 768 = ?t" using less.prems(1) by (simp add: ring_ok_def NUM_RX_DESCRIPTORS_def)
    with False loop V show ?thesis by (intro exI [of _ "0 :: nat"] exI [of _ s2]) simp
  next
    case True
    let ?u = "rx_done n d s2"
    have "ring_ok (cards s2 d)" using less.prems(1) V by simp
    note D = rx_done_spec [OF this, where n = n, unfolded V]
    have same: "rx_desc (cards ?u d) = rx_desc (cards s d)" by (simp add: D(2))
    then have "status_addr (cards ?u d) = status_addr (cards s d)" by (simp add: status_addr_def fun_eq_iff)
    then have filled: "card_filled nic (cards ?u d) P" using less.prems(2) by (simp add: card_filled_def)
    have "card (rx_pending P d ?u) < card (rx_pending P d s)"
      unfolding D(4) using True finite_pending by (rule card_Diff1_less [rotated])
    from less.hyps [OF this D(6) filled] obtain k s' where s': "rx_poll_loop nic n d ?u = Some s'"
      "netdevs s' = (netdevs ?u)(n := (netdevs ?u n)\<lparr>rx_count := rx_count (netdevs ?u n) + of_nat k\<rparr>)"
      "unat (rx_tail (cards s' d)) = ((?t + 1) mod 768 + k) mod 768" "rx_desc (cards s' d) = rx_desc (cards ?u d)"
      "\<forall>i < k. ((?t + 1) mod 768 + i) mod 768 \<in> rx_pending P d ?u"
      "rx_pending P d s' = rx_pending P d ?u - (\<lambda>i. ((?t + 1) mod 768 + i) mod 768) ` {..<k}"
      "unat (rx_tail (cards s' d)) \<notin> rx_pending P d s'"
      unfolding D(3) by blast
    have "?t < 768" using less.prems(1) by (simp add: ring_ok_def NUM_RX_DESCRIPTORS_def)
    note S = slots_passed [OF this]
    have "\<forall>i < Suc k. (?t + i) mod 768 \<in> rx_pending P d s" using S(3) [OF True] s'(5) unfolding D(4) by blast
    moreover have "rx_pending P d s' = rx_pending P d s - (\<lambda>i. (?t + i) mod 768) ` {..<Suc k}"
      unfolding S(1) s'(6) D(4) by blast
    moreover have "netdevs s' = (netdevs s)(n := (netdevs s n)\<lparr>rx_count := rx_count (netdevs s n) + of_nat (Suc k)\<rparr>)"
      unfolding s'(2) D(1) by (simp add: add.assoc)
    ultimately show ?thesis
      using loop True s'(1,3,4,7) same
      by (intro exI [of _ "Suc k"] exI [of _ s']) (simp only: S(2) if_True simp_thms)
  qed
qed

section \<open>Properties\<close>

text \<open>
  C32. Receiving. With a card that has filled some descriptors and receives nothing more, \<^verbatim>\<open>rx_poll\<close>
  returns. It takes the filled descriptors in ring order from the tail on, up to the first that is
  not filled or once around the ring; it counts each, gives each back to the card, leaves the others
  alone, and the tail stands at the first it has not taken.
\<close>

theorem rx_poll_takes_filled:
  assumes "d = lldev (netdevs s n)" and "ring_ok (cards s d)" and "card_filled nic (cards s d) P"
    and "t = unat (rx_tail (cards s d))"
  shows "\<exists>k s'. net_i825xx_rx_poll nic n s = Some s'
    \<and> rx_count (netdevs s' n) = rx_count (netdevs s n) + of_nat k
    \<and> (\<forall>i < k. (t + i) mod 768 \<in> rx_pending P d s)
    \<and> rx_pending P d s' = rx_pending P d s - (\<lambda>i. (t + i) mod 768) ` {..<k}
    \<and> unat (rx_tail (cards s' d)) = (t + k) mod 768 \<and> (t + k) mod 768 \<notin> rx_pending P d s'"
proof -
  obtain k s' where s': "rx_poll_loop nic n d s = Some s'"
    "netdevs s' = (netdevs s)(n := (netdevs s n)\<lparr>rx_count := rx_count (netdevs s n) + of_nat k\<rparr>)"
    "unat (rx_tail (cards s' d)) = (t + k) mod 768" "\<forall>i < k. (t + i) mod 768 \<in> rx_pending P d s"
    "rx_pending P d s' = rx_pending P d s - (\<lambda>i. (t + i) mod 768) ` {..<k}"
    "unat (rx_tail (cards s' d)) \<notin> rx_pending P d s'"
    using rx_poll_loop_spec [OF assms(2,3), of n] unfolding assms(4) [symmetric] by blast
  have "net_i825xx_rx_poll nic n s = Some s'" using s'(1) by (simp add: net_i825xx_rx_poll_def assms(1))
  moreover have "rx_count (netdevs s' n) = rx_count (netdevs s n) + of_nat k" by (simp add: s'(2))
  ultimately show ?thesis using s'(3-6) by metis
qed

text \<open>A ring at 0x200000, and a card that has filled its first two descriptors.\<close>

definition demo_ring :: i825xx_device_t where
  "demo_ring = \<lparr>mmio_address = 0xfebc0000, rx_desc_base = 0x200000,
     rx_desc = (\<lambda>i. 0x200000 + of_nat (16 * i)), rx_tail = 0, tx_desc_base = 0, tx_desc = (\<lambda>_. 0), tx_tail = 0\<rparr>"

definition demo_nic :: nic where
  "demo_nic h w a =
     (if w = 8 \<and> a \<in> {0x20000c, 0x20001c} \<and> MWrite 8 a 0 \<notin> set h then 3 else 0)"

definition boot_net :: net_state where
  "boot_net = ata_state.extend boot_ata (net_state.fields []
     (\<lambda>_. \<lparr>tx_count = 0, rx_count = 0, packets_dropped = 0, lldev = 0x3000, hwid = 0, mac_address = (\<lambda>_. 0),
        nd_interrupt_line = 0, nd_pci = 0\<rparr>) (\<lambda>_. demo_ring))"

lemma boot_net_fields:
  "mmio boot_net = []" "cards boot_net = (\<lambda>_. demo_ring)" "rx_count (netdevs boot_net n) = 0"
  "lldev (netdevs boot_net n) = 0x3000"
  by (simp_all add: boot_net_def ata_state.defs net_state.defs)

lemma demo_status: "status_addr demo_ring i = of_nat (0x20000c + 16 * i)"
  by (simp add: status_addr_def demo_ring_def)

lemma demo_ring_ok: "ring_ok demo_ring"
proof -
  have "i = j" if "i < 768" "j < 768" "status_addr demo_ring i = status_addr demo_ring j" for i j
    using that unfolding demo_status by (subst (asm) of_nat_u32_eq) simp_all
  then have "inj_on (status_addr demo_ring) {..<NUM_RX_DESCRIPTORS}" by (auto simp: inj_on_def NUM_RX_DESCRIPTORS_def)
  then show ?thesis by (simp add: ring_ok_def demo_ring_def NUM_RX_DESCRIPTORS_def)
qed

lemma demo_nic_filled: "card_filled demo_nic demo_ring {0, 1}"
proof -
  have "status_addr demo_ring i \<in> {0x20000c, 0x20001c} \<longleftrightarrow> i \<in> {0, 1}" if "i < 768" for i
  proof -
    have "status_addr demo_ring i = of_nat 0x20000c \<longleftrightarrow> 0x20000c + 16 * i = 0x20000c"
      "status_addr demo_ring i = of_nat 0x20001c \<longleftrightarrow> 0x20000c + 16 * i = 0x20001c"
      unfolding demo_status using that by (subst of_nat_u32_eq; simp)+
    then show ?thesis by auto
  qed
  moreover have "bit (3 :: u64) 0" by (simp add: bit_0)
  ultimately show ?thesis by (auto simp: card_filled_def demo_nic_def NUM_RX_DESCRIPTORS_def)
qed

theorem rx_poll_takes_filled_witness:
  "\<exists>s'. net_i825xx_rx_poll demo_nic 0x4000 boot_net = Some s' \<and> rx_count (netdevs s' 0x4000) = 2
    \<and> unat (rx_tail (cards s' 0x3000)) = 2"
proof -
  define P :: "nat set" where "P = {0, 1}"
  have p: "rx_pending P 0x3000 boot_net = P"
    by (auto simp: rx_pending_def net_writes_def boot_net_fields NUM_RX_DESCRIPTORS_def P_def)
  have r: "ring_ok (cards boot_net 0x3000)" "card_filled demo_nic (cards boot_net 0x3000) P"
    using demo_ring_ok demo_nic_filled by (simp_all only: boot_net_fields P_def)
  have d: "0x3000 = lldev (netdevs boot_net 0x4000)" "0 = unat (rx_tail (cards boot_net 0x3000))"
    by (simp_all add: boot_net_fields demo_ring_def)
  obtain k s' where s': "net_i825xx_rx_poll demo_nic 0x4000 boot_net = Some s'"
    "rx_count (netdevs s' 0x4000) = rx_count (netdevs boot_net 0x4000) + of_nat k" "\<forall>i < k. (0 + i) mod 768 \<in> P"
    "rx_pending P 0x3000 s' = P - (\<lambda>i. (0 + i) mod 768) ` {..<k}"
    "unat (rx_tail (cards s' 0x3000)) = (0 + k) mod 768" "(0 + k) mod 768 \<notin> rx_pending P 0x3000 s'"
    using rx_poll_takes_filled [OF d(1) r d(2), unfolded p] by (elim exE conjE)
  have "\<not> 2 < k" using s'(3) [rule_format, of 2] by (auto simp: P_def)
  moreover have "k \<noteq> 0"
  proof
    assume "k = 0"
    with s'(4,6) show False by (simp add: P_def)
  qed
  moreover have "k \<noteq> 1"
  proof
    assume "k = 1"
    with s'(4,6) show False by (simp add: P_def)
  qed
  ultimately have "k = 2" by simp
  with s' show ?thesis by (auto simp: boot_net_fields)
qed

text \<open>The state \<^verbatim>\<open>kmalloc\<close> stops in: the request is counted, messages are printed, nothing else has changed.\<close>

lemma con_more_total:
  "con_state.more s' = con_state.more s \<Longrightarrow> sTotalSize s' = sTotalSize s"
  by (cases s; cases s') simp

lemma kmalloc_page_net: "net_view (kmalloc_page s) = net_view s"
  by (cases s rule: mem_alloc_cases) (simp_all add: kmalloc_page_def net_view_def)

lemma kmalloc_stuck_state:
  assumes "kmalloc_ready s" and "sTotalSize s + n > PAGE_SIZE"
  shows "\<exists>t. kmalloc n s = Stuck t \<and> net_view t = net_view s \<and> sTotalSize t = sTotalSize s + n"
proof -
  let ?s = "(kmalloc_page s)\<lparr>sTotalSize := sTotalSize s + n\<rparr>"
  let ?f = "bytes_of ''kmalloc: %d left: %d'' @ [0x0a]" and ?a = "[PInt n, PInt (PAGE_SIZE - (sTotalSize s + n))]"
  obtain u where u: "printk_loop False ?f ?a ?s = Some u" by (simp add: printk_loop.simps)
  let ?t = "kern_abort ''memory.c'' 150 ''kmalloc'' ''Too much memory'' u"
  have "kmalloc n s = Stuck ?t" using assms u by (simp add: kmalloc_eq Let_def kmalloc_page_top del: bytes_of_simps)
  moreover have m: "con_state.more ?t = con_state.more ?s"
    unfolding kern_abort_message put_bytes_more by (rule printk_loop_more [OF u])
  have "net_view ?s = net_view s" using kmalloc_page_net [of s] by (simp add: net_view_def)
  with con_more_net [OF m] con_more_total [OF m] have "net_view ?t = net_view s" "sTotalSize ?t = sTotalSize s + n"
    by simp_all
  ultimately show ?thesis by blast
qed

text \<open>
  C33. The entry point. \<^verbatim>\<open>net_i825xx_init\<close> asks \<^verbatim>\<open>kmalloc\<close> for two structures, of 52 and of 6172 bytes, and
  \<^verbatim>\<open>kmalloc\<close> has one page for all requests. With at least 52 bytes of the page left it is the second
  request that stops the kernel, with less it is the first one, whatever the card and the device; no
  structure of the driver has been written and the card has not been accessed by then. (The code behind
  the two requests, which starts with a function that is not implemented, is never reached.)
\<close>

theorem net_init_stops:
  assumes "kmalloc_ready s" and "unat (sTotalSize s) \<le> 4096"
  shows "\<exists>t. net_i825xx_init nic pcidev s = Some (Stuck t) \<and> net_view t = net_view s
    \<and> (if unat (sTotalSize s) + 52 \<le> 4096
       then \<exists>p u. kmalloc sizeof_net_device_t s = Done p u \<and> kmalloc sizeof_i825xx_device_t u = Stuck t
         \<and> unat (sTotalSize t) = unat (sTotalSize s) + 52 + 6172
       else kmalloc sizeof_net_device_t s = Stuck t \<and> unat (sTotalSize t) = unat (sTotalSize s) + 52)"
proof -
  have w: "unat (sTotalSize s + sizeof_net_device_t) = unat (sTotalSize s) + 52"
    "unat (sTotalSize s + sizeof_net_device_t + sizeof_i825xx_device_t) = unat (sTotalSize s) + 52 + 6172"
    using assms(2) by (simp_all add: unat_word_ariths sizeof_net_device_t_def sizeof_i825xx_device_t_def)
  show ?thesis
  proof (cases "unat (sTotalSize s) + 52 \<le> 4096")
    case False
    then have "sTotalSize s + sizeof_net_device_t > PAGE_SIZE"
      by (simp add: word_less_nat_alt w PAGE_SIZE_def)
    from kmalloc_stuck_state [OF assms(1) this] False w show ?thesis by (auto simp: net_i825xx_init_def)
  next
    case True
    let ?u = "(kmalloc_page s)\<lparr>sTotalSize := sTotalSize s + sizeof_net_device_t\<rparr>"
    have k: "kmalloc sizeof_net_device_t s = Done (sTopAddr (kmalloc_page s) + sTotalSize s) ?u"
      using kmalloc_done [OF assms(1)] True by (simp add: word_le_nat_alt w PAGE_SIZE_def)
    have "kmalloc_ready ?u" using kmalloc_page_top(1) [OF assms(1)] by (simp add: kmalloc_ready_def)
    moreover have "sTotalSize ?u + sizeof_i825xx_device_t > PAGE_SIZE"
      by (simp add: word_less_nat_alt w(2) PAGE_SIZE_def)
    ultimately obtain t where t: "kmalloc sizeof_i825xx_device_t ?u = Stuck t" "net_view t = net_view ?u"
      "sTotalSize t = sTotalSize ?u + sizeof_i825xx_device_t" using kmalloc_stuck_state by blast
    have "net_view ?u = net_view s" using kmalloc_page_net [of s] by (simp add: net_view_def)
    with k t True w(2) show ?thesis by (simp add: net_i825xx_init_def)
  qed
qed

theorem net_init_stops_witness:
  "\<exists>t p u. net_i825xx_init demo_nic 0 boot_net = Some (Stuck t) \<and> kmalloc sizeof_net_device_t boot_net = Done p u
    \<and> kmalloc sizeof_i825xx_device_t u = Stuck t \<and> mmio t = mmio boot_net"
proof -
  have h: "heap_alloc_table boot_net = (\<lambda>_. 0)" "sTotalSize boot_net = 0"
    by (simp_all add: boot_net_def boot_ata_def boot_pci_def boot_task_def boot_heap_def
        ata_state.defs blk_state.defs pci_state.defs task_state.defs heap_state.defs con_state.defs)
  have "kmalloc_ready boot_net" by (auto simp: kmalloc_ready_def h MAX_HEAP_PAGES_def intro!: exI [of _ 0])
  from net_init_stops [OF this, of demo_nic 0] show ?thesis by (auto simp: h net_view_def)
qed

end
