(* ===== verification/Shell.thy ===== *)
theory Shell
  imports Kernel
begin

text \<open>
  The two programs of the boot image, \<^verbatim>\<open>apps/shell.c\<close> and \<^verbatim>\<open>apps/uptime.c\<close>. A program and the system
  calls it makes run in the same address space, the memory of the state. The arrays on the
  stack of a function are given by their addresses (a \<open>frame\<close>), and so are the string literals (\<open>lit\<close>).
\<close>

section \<open>Strings\<close>

partial_function (option) str_len_loop :: "memory \<Rightarrow> u32 \<Rightarrow> u32 \<Rightarrow> u32 option" where
  "str_len_loop m src len = (if m (src + len) \<noteq> 0 then str_len_loop m src (len + 1) else Some len)"

text \<open>The length with the terminating NUL.\<close>

definition str_get_len :: "memory \<Rightarrow> u32 \<Rightarrow> u32 option" where
  "str_get_len m src = map_option (\<lambda>len. len + 1) (str_len_loop m src 0)"

partial_function (option) str_find_loop :: "memory \<Rightarrow> u32 \<Rightarrow> u8 \<Rightarrow> u32 \<Rightarrow> u32 option option" where
  "str_find_loop m src key i =
     (if m (src + i) \<noteq> key then (if m (src + i) = 0 then Some None else str_find_loop m src key (i + 1))
      else Some (Some i))"

text \<open>\<^term>\<open>Some None\<close> is the result -1.\<close>

definition str_find_char :: "memory \<Rightarrow> u32 \<Rightarrow> u8 \<Rightarrow> u32 option option" where
  "str_find_char m src key = str_find_loop m src key 0"

definition str_get_first_entry :: "u32 \<Rightarrow> u32 \<Rightarrow> u32 \<Rightarrow> memory \<Rightarrow> memory option" where
  "str_get_first_entry line first other m =
     do {
       line_len \<leftarrow> str_get_len m line;
       pos \<leftarrow> str_find_char m line 0x20;
       Some (case pos of
         None \<Rightarrow> (let m = copy_mem line first line_len m in m(other := 0))
       | Some first_len \<Rightarrow>
           (let m = copy_mem line first first_len m;
                m = m(first + first_len := 0);
                first_len = first_len + 1;
                other_len = line_len - first_len
            in copy_mem (line + first_len) other other_len m))
     }"

fun pow :: "u32 \<Rightarrow> nat \<Rightarrow> u32" where
  "pow num 0 = 1"
| "pow num (Suc multer) = pow num multer * num"

text \<open>Characters are signed; the arithmetic is that of \<^verbatim>\<open>int\<close>.\<close>

definition hex_char_value :: "u8 \<Rightarrow> u32" where
  "hex_char_value c = (if 0x30 \<le> sint c \<and> sint c \<le> 0x39 then scast c - 0x30 else scast c - 0x61 + 10)"

partial_function (option) str_conv_loop :: "memory \<Rightarrow> u32 \<Rightarrow> u32 \<Rightarrow> u32 \<Rightarrow> u32 \<Rightarrow> u32 option" where
  "str_conv_loop m hex_str len i val =
     (if m (hex_str + i) \<noteq> 0 then
        str_conv_loop m hex_str len (i + 1)
          (val + hex_char_value (m (hex_str + i)) * pow 16 (unat (len - 2 - i)))
      else Some val)"

definition str_conv_ahex_int :: "memory \<Rightarrow> u32 \<Rightarrow> u32 option" where
  "str_conv_ahex_int m hex_str =
     do {
       len \<leftarrow> str_get_len m hex_str;
       str_conv_loop m hex_str len 0 0
     }"

section \<open>System calls of the shell\<close>

text \<open>
  The calls of the shell that return a value at once; a call that sleeps is one it does not make.
  \<open>addr\<close> are the kernel's file objects.
\<close>

definition syscall_now :: "(fptr \<Rightarrow> u32) \<Rightarrow> u32 \<Rightarrow> u32 \<Rightarrow> u32 \<Rightarrow> u32 \<Rightarrow> 'a kernel_state_scheme
    \<Rightarrow> (u32 \<times> 'a kernel_state_scheme) option" where
  "syscall_now addr syscall_id arg1 arg2 arg3 s =
     do {
       (r, s) \<leftarrow> do_syscall addr syscall_id arg1 arg2 arg3 s;
       (case r of Ret v \<Rightarrow> Some (v, s) | _ \<Rightarrow> None)
     }"

definition shell_put_str :: "(fptr \<Rightarrow> u32) \<Rightarrow> u32 \<Rightarrow> 'a kernel_state_scheme \<Rightarrow> 'a kernel_state_scheme option" where
  "shell_put_str addr str s = map_option snd (syscall_now addr SYSCALL_CON_PUT_STR str 0 0 s)"

definition shell_dump_hex :: "(fptr \<Rightarrow> u32) \<Rightarrow> u32 \<Rightarrow> u32 \<Rightarrow> 'a kernel_state_scheme \<Rightarrow> 'a kernel_state_scheme option" where
  "shell_dump_hex addr val num_digits s = map_option snd (syscall_now addr SYSCALL_CON_DUMP_HEX val num_digits 0 s)"

section \<open>Commands\<close>

datatype shell_command = ECHO | READB | READW | READL | IOREADB | WRITEB | WRITEW | WRITEL
  | IOWRITEB | TEST | COMMAND_NUM | SHUTDOWN

record frame =
  fr_first :: u32
  fr_second :: u32
  fr_other :: u32
  fr_other2 :: u32

definition put_crlf :: "(fptr \<Rightarrow> u32) \<Rightarrow> (u8 list \<Rightarrow> u32) \<Rightarrow> 'a kernel_state_scheme \<Rightarrow> 'a kernel_state_scheme option" where
  "put_crlf addr lit s = shell_put_str addr (lit CRLF) s"

definition split_line :: "u32 \<Rightarrow> u32 \<Rightarrow> u32 \<Rightarrow> 'a machine_scheme \<Rightarrow> 'a machine_scheme option" where
  "split_line line first other s = map_option (\<lambda>m. s\<lparr>mem := m\<rparr>) (str_get_first_entry line first other (mem s))"

definition command_echo :: "(fptr \<Rightarrow> u32) \<Rightarrow> (u8 list \<Rightarrow> u32) \<Rightarrow> u32 \<Rightarrow> 'a kernel_state_scheme \<Rightarrow> 'a kernel_state_scheme option" where
  "command_echo addr lit args s =
     do {
       s \<leftarrow> shell_put_str addr args s;
       put_crlf addr lit s
     }"

definition command_readb :: "(fptr \<Rightarrow> u32) \<Rightarrow> (u8 list \<Rightarrow> u32) \<Rightarrow> frame \<Rightarrow> u32 \<Rightarrow> 'a kernel_state_scheme \<Rightarrow> 'a kernel_state_scheme option" where
  "command_readb addr lit fr args s =
     do {
       s \<leftarrow> split_line args (fr_first fr) (fr_other fr) s;
       a \<leftarrow> str_conv_ahex_int (mem s) (fr_first fr);
       s \<leftarrow> shell_dump_hex addr (ucast (mem s a)) 2 s;
       put_crlf addr lit s
     }"

definition command_readw :: "(fptr \<Rightarrow> u32) \<Rightarrow> (u8 list \<Rightarrow> u32) \<Rightarrow> frame \<Rightarrow> u32 \<Rightarrow> 'a kernel_state_scheme \<Rightarrow> 'a kernel_state_scheme option" where
  "command_readw addr lit fr args s =
     do {
       s \<leftarrow> split_line args (fr_first fr) (fr_other fr) s;
       a \<leftarrow> str_conv_ahex_int (mem s) (fr_first fr);
       s \<leftarrow> shell_dump_hex addr (ucast (read16 (mem s) a)) 4 s;
       put_crlf addr lit s
     }"

definition command_readl :: "(fptr \<Rightarrow> u32) \<Rightarrow> (u8 list \<Rightarrow> u32) \<Rightarrow> frame \<Rightarrow> u32 \<Rightarrow> 'a kernel_state_scheme \<Rightarrow> 'a kernel_state_scheme option" where
  "command_readl addr lit fr args s =
     do {
       s \<leftarrow> split_line args (fr_first fr) (fr_other fr) s;
       a \<leftarrow> str_conv_ahex_int (mem s) (fr_first fr);
       s \<leftarrow> shell_dump_hex addr (read32 (mem s) a) 8 s;
       put_crlf addr lit s
     }"

definition command_ioreadb :: "device \<Rightarrow> (fptr \<Rightarrow> u32) \<Rightarrow> (u8 list \<Rightarrow> u32) \<Rightarrow> frame \<Rightarrow> u32 \<Rightarrow> 'a kernel_state_scheme \<Rightarrow> 'a kernel_state_scheme option" where
  "command_ioreadb dev addr lit fr args s =
     do {
       s \<leftarrow> split_line args (fr_first fr) (fr_other fr) s;
       a \<leftarrow> str_conv_ahex_int (mem s) (fr_first fr);
       let (v, s) = inb_p dev (ucast a) s;
       s \<leftarrow> shell_dump_hex addr (ucast v) 2 s;
       put_crlf addr lit s
     }"

text \<open>The two arguments of the writing commands: the value and the address.\<close>

definition value_and_address :: "frame \<Rightarrow> u32 \<Rightarrow> 'a machine_scheme \<Rightarrow> (u32 \<times> u32 \<times> 'a machine_scheme) option" where
  "value_and_address fr args s =
     do {
       s \<leftarrow> split_line args (fr_first fr) (fr_other fr) s;
       s \<leftarrow> split_line (fr_other fr) (fr_second fr) (fr_other2 fr) s;
       data \<leftarrow> str_conv_ahex_int (mem s) (fr_first fr);
       a \<leftarrow> str_conv_ahex_int (mem s) (fr_second fr);
       Some (data, a, s)
     }"

definition command_writeb :: "frame \<Rightarrow> u32 \<Rightarrow> 'a machine_scheme \<Rightarrow> 'a machine_scheme option" where
  "command_writeb fr args s =
     map_option (\<lambda>(data, a, s). s\<lparr>mem := (mem s)(a := ucast data)\<rparr>) (value_and_address fr args s)"

definition command_writew :: "frame \<Rightarrow> u32 \<Rightarrow> 'a machine_scheme \<Rightarrow> 'a machine_scheme option" where
  "command_writew fr args s =
     map_option (\<lambda>(data, a, s). s\<lparr>mem := write16 a (ucast data) (mem s)\<rparr>) (value_and_address fr args s)"

definition command_writel :: "frame \<Rightarrow> u32 \<Rightarrow> 'a machine_scheme \<Rightarrow> 'a machine_scheme option" where
  "command_writel fr args s =
     map_option (\<lambda>(data, a, s). s\<lparr>mem := write32 a data (mem s)\<rparr>) (value_and_address fr args s)"

definition command_iowriteb :: "frame \<Rightarrow> u32 \<Rightarrow> 'a machine_scheme \<Rightarrow> 'a machine_scheme option" where
  "command_iowriteb fr args s =
     map_option (\<lambda>(data, a, s). outb_p (ucast data) (ucast a) s) (value_and_address fr args s)"

definition command_test :: "(fptr \<Rightarrow> u32) \<Rightarrow> (u8 list \<Rightarrow> u32) \<Rightarrow> 'a kernel_state_scheme \<Rightarrow> 'a kernel_state_scheme option" where
  "command_test addr lit s = shell_put_str addr (lit (bytes_of ''test'' @ CRLF)) s"

definition command_shutdown :: "(fptr \<Rightarrow> u32) \<Rightarrow> 'a kernel_state_scheme \<Rightarrow> 'a kernel_state_scheme option" where
  "command_shutdown addr s = map_option snd (syscall_now addr SYSCALL_SHUTDOWN 0 0 0 s)"

section \<open>The main loop\<close>

text \<open>The comparisons of \<^verbatim>\<open>get_command_id\<close>, in their order.\<close>

definition command_names :: "(string \<times> shell_command) list" where
  "command_names = [(''echo'', ECHO), (''readb'', READB), (''readw'', READW), (''readl'', READL),
     (''ioreadb'', IOREADB), (''writeb'', WRITEB), (''writew'', WRITEW), (''writel'', WRITEL),
     (''iowriteb'', IOWRITEB), (''test'', TEST), (''shutdown'', SHUTDOWN)]"

fun match_command :: "memory \<Rightarrow> (u8 list \<Rightarrow> u32) \<Rightarrow> u32 \<Rightarrow> (string \<times> shell_command) list \<Rightarrow> shell_command option" where
  "match_command m lit p [] = Some COMMAND_NUM"
| "match_command m lit p ((name, c) # cs) =
     do {
       d \<leftarrow> str_compare m p (lit (bytes_of name));
       (if d = 0 then Some c else match_command m lit p cs)
     }"

definition get_command_id :: "memory \<Rightarrow> (u8 list \<Rightarrow> u32) \<Rightarrow> u32 \<Rightarrow> shell_command option" where
  "get_command_id m lit p = match_command m lit p command_names"

text \<open>The last case: a file of that name is started as a task.\<close>

definition run_file :: "(fptr \<Rightarrow> u32) \<Rightarrow> (u8 list \<Rightarrow> u32) \<Rightarrow> u32 \<Rightarrow> 'a kernel_state_scheme \<Rightarrow> 'a kernel_state_scheme option" where
  "run_file addr lit cmd s =
     do {
       (fp, s) \<leftarrow> syscall_now addr SYSCALL_OPEN cmd 0 0 s;
       (if fp \<noteq> 0 then map_option snd (syscall_now addr SYSCALL_EXEC fp 0 0 s)
        else shell_put_str addr (lit (bytes_of ''Command not found.'' @ CRLF)) s)
     }"

definition run_command :: "device \<Rightarrow> (fptr \<Rightarrow> u32) \<Rightarrow> (u8 list \<Rightarrow> u32) \<Rightarrow> frame \<Rightarrow> shell_command \<Rightarrow> u32 \<Rightarrow> u32
    \<Rightarrow> 'a kernel_state_scheme \<Rightarrow> 'a kernel_state_scheme option" where
  "run_command dev addr lit fr c cmd args s =
     (case c of
        ECHO \<Rightarrow> command_echo addr lit args s
      | READB \<Rightarrow> command_readb addr lit fr args s
      | READW \<Rightarrow> command_readw addr lit fr args s
      | READL \<Rightarrow> command_readl addr lit fr args s
      | IOREADB \<Rightarrow> command_ioreadb dev addr lit fr args s
      | WRITEB \<Rightarrow> command_writeb fr args s
      | WRITEW \<Rightarrow> command_writew fr args s
      | WRITEL \<Rightarrow> command_writel fr args s
      | IOWRITEB \<Rightarrow> command_iowriteb fr args s
      | TEST \<Rightarrow> command_test addr lit s
      | SHUTDOWN \<Rightarrow> command_shutdown addr s
      | COMMAND_NUM \<Rightarrow> run_file addr lit cmd s)"

text \<open>The arrays of \<^verbatim>\<open>shell_main\<close>, and those of the functions it calls.\<close>

record shell_frame = frame +
  fr_buf :: u32
  fr_command :: u32
  fr_args :: u32

definition MAX_LINE_SIZE :: u32 where "MAX_LINE_SIZE = 512"

text \<open>
  One turn of the endless loop in \<^verbatim>\<open>shell_main\<close>, on the keys typed so far. The call that reads the line is
  taken from its start to its end, with the waits in between left out: \<open>get_line\<close> on the bytes its reads
  deliver, to which theory \<open>Console_Line\<close> relates the call that blocks.
\<close>

definition shell_turn :: "device \<Rightarrow> (fptr \<Rightarrow> u32) \<Rightarrow> (u8 list \<Rightarrow> u32) \<Rightarrow> shell_frame \<Rightarrow> u8 list
    \<Rightarrow> 'a kernel_state_scheme \<Rightarrow> (u8 list \<times> 'a kernel_state_scheme) option" where
  "shell_turn dev addr lit fr ks s =
     do {
       s \<leftarrow> shell_put_str addr (lit (bytes_of ''OS5> '')) s;
       (n, ks, s) \<leftarrow> get_line (fr_buf fr) MAX_LINE_SIZE ks s;
       (if n \<le> 0 then Some (ks, s)
        else do {
          s \<leftarrow> split_line (fr_buf fr) (fr_command fr) (fr_args fr) s;
          command_id \<leftarrow> get_command_id (mem s) lit (fr_command fr);
          s \<leftarrow> run_command dev addr lit (frame.truncate fr) command_id (fr_command fr) (fr_args fr) s;
          Some (ks, s)
        })
     }"

fun shell_main :: "device \<Rightarrow> (fptr \<Rightarrow> u32) \<Rightarrow> (u8 list \<Rightarrow> u32) \<Rightarrow> shell_frame \<Rightarrow> nat \<Rightarrow> u8 list
    \<Rightarrow> 'a kernel_state_scheme \<Rightarrow> (u8 list \<times> 'a kernel_state_scheme) option" where
  "shell_main dev addr lit fr 0 ks s = Some (ks, s)"
| "shell_main dev addr lit fr (Suc turns) ks s =
     do {
       (ks, s) \<leftarrow> shell_turn dev addr lit fr ks s;
       shell_main dev addr lit fr turns ks s
     }"

section \<open>The uptime program\<close>

text \<open>
  One turn of its loop, up to the call that sleeps. The last column arguments are packed as the
  source packs them.
\<close>

definition uptime_turn :: "(fptr \<Rightarrow> u32) \<Rightarrow> (u8 list \<Rightarrow> u32) \<Rightarrow> 'a kernel_state_scheme
    \<Rightarrow> (sysret \<times> 'a kernel_state_scheme) option" where
  "uptime_turn addr lit s =
     do {
       (c, s) \<leftarrow> syscall_now addr SYSCALL_TIMER_GET_GLOBAL_COUNTER 0 0 0 s;
       let uptime = c div 1000;
       (y, s) \<leftarrow> syscall_now addr SYSCALL_CON_GET_CURSOR_POS_Y 0 0 0 s;
       let row = (if y < ROWS then 0 else y - ROWS + 1);
       (_, s) \<leftarrow> syscall_now addr SYSCALL_CON_PUT_STR_POS (lit (bytes_of ''uptime:'')) (COLUMNS - (7 + 4)) row s;
       (_, s) \<leftarrow> syscall_now addr SYSCALL_CON_DUMP_HEX_POS uptime 4 (push_bit 16 (COLUMNS - 4) OR row) s;
       do_syscall addr SYSCALL_SCHED_WAKEUP_MSEC 33 0 0 s
     }"

end
