(* ===== verification/Shell_Props.thy ===== *)
theory Shell_Props
  imports Shell Console_Props Kernel_Props
begin

text \<open>
  What the shell does with a line: its first word and the rest, the number a word stands for, the
  command a word names, and the effect of the commands that write.
\<close>

section \<open>Strings\<close>

lemma str_len_loop_spec:
  "cstr m (p + of_nat k) xs \<Longrightarrow> str_len_loop m p (of_nat k) = Some (of_nat (k + length xs))"
proof (induction xs arbitrary: k)
  case Nil
  then show ?case by (subst str_len_loop.simps) (simp add: cstr_simps)
next
  case (Cons x xs)
  have "str_len_loop m p (of_nat (Suc k)) = Some (of_nat (Suc k + length xs))"
    using Cons.prems by (intro Cons.IH) (simp add: cstr_simps ac_simps)
  with Cons.prems show ?case by (subst str_len_loop.simps) (simp add: cstr_simps ac_simps)
qed

lemma str_get_len_spec: "cstr m p xs \<Longrightarrow> str_get_len m p = Some (of_nat (Suc (length xs)))"
  using str_len_loop_spec [of m p 0 xs] by (simp add: str_get_len_def add.commute)

lemma str_find_loop_spec:
  "cstr m (p + of_nat k) xs \<Longrightarrow> key \<noteq> 0 \<Longrightarrow> str_find_loop m p key (of_nat k) =
    Some (if key \<in> set xs then Some (of_nat (k + length (takeWhile (\<lambda>c. c \<noteq> key) xs))) else None)"
proof (induction xs arbitrary: k)
  case Nil
  then show ?case by (subst str_find_loop.simps) (simp add: cstr_simps)
next
  case (Cons x xs)
  have "str_find_loop m p key (of_nat (Suc k)) =
    Some (if key \<in> set xs then Some (of_nat (Suc k + length (takeWhile (\<lambda>c. c \<noteq> key) xs))) else None)"
    using Cons.prems by (intro Cons.IH) (simp_all add: cstr_simps ac_simps)
  with Cons.prems show ?case by (subst str_find_loop.simps) (auto simp: cstr_simps ac_simps)
qed

text \<open>The first word of a line and what follows the space.\<close>

definition first_word :: "u8 list \<Rightarrow> u8 list" where
  "first_word xs = takeWhile (\<lambda>c. c \<noteq> 0x20) xs"

definition other_words :: "u8 list \<Rightarrow> u8 list" where
  "other_words xs = drop (Suc (length (first_word xs))) xs"

lemma first_word_le: "length (first_word xs) \<le> length xs" "0x20 \<in> set xs \<Longrightarrow> length (first_word xs) < length xs"
  by (induction xs) (auto simp: first_word_def)

lemma first_word_all:
  assumes "0x20 \<notin> set xs"
  shows "first_word xs = xs" "other_words xs = []"
proof -
  show "first_word xs = xs" using assms by (auto simp: first_word_def takeWhile_eq_all_conv)
  then show "other_words xs = []" by (simp add: other_words_def)
qed

lemma first_word_take: "take (length (first_word xs)) xs = first_word xs"
  by (simp add: first_word_def takeWhile_eq_take [symmetric])

lemma word_split [simp]:
  "0x20 \<notin> set xs \<Longrightarrow> first_word (xs @ 0x20 # ys) = xs" "0x20 \<notin> set xs \<Longrightarrow> other_words (xs @ 0x20 # ys) = ys"
  by (auto simp: first_word_def other_words_def takeWhile_append)

lemma copy_cstr:
  assumes "cstr m src xs" and "unat n = Suc (length xs)"
    and "region dst (unat n) \<inter> region src (unat n) = {}"
  shows "cstr (copy_mem src dst n m) dst xs"
  using assms(1) copy_mem_region(1) [OF assms(3)] cstr_at [OF assms(1)] cstr_end [OF assms(1)]
  by (intro cstrI) (auto simp: assms(2) cstr_def)

text \<open>
  \<^verbatim>\<open>str_get_first_entry\<close>, for a line and two buffers that do not overlap within the length of the line.
\<close>

lemma region_disjoint_mono:
  "region p n \<inter> region q n = {} \<Longrightarrow> k \<le> n \<Longrightarrow> l \<le> n \<Longrightarrow> region p k \<inter> region q l = {}"
  using region_mono [of k n p] region_mono [of l n q] by blast

lemma cstr_drop:
  assumes "cstr m p xs" and "k \<le> length xs"
  shows "cstr m (p + of_nat k) (drop k xs)"
proof (rule cstrI)
  have "of_nat (length xs) = (of_nat k + of_nat (length (drop k xs)) :: u32)"
    using assms(2) by (simp flip: of_nat_add)
  then show "m (p + of_nat k + of_nat (length (drop k xs))) = 0"
    using cstr_end [OF assms(1)] by (simp only: add.assoc)
  show "m (p + of_nat k + of_nat i) = drop k xs ! i" if "i < length (drop k xs)" for i
    using cstr_at [OF assms(1), of "k + i"] that by (simp add: ac_simps)
qed (use assms(1) in \<open>auto simp: cstr_def dest: in_set_dropD\<close>)

text \<open>Copying the beginning of a string and terminating the copy.\<close>

lemma copy_beginning:
  assumes xs: "cstr m src xs" and k: "k \<le> length xs" "length xs < 2 ^ 32"
    and d: "region dst k \<inter> region src k = {}"
  defines "m' \<equiv> (copy_mem src dst (of_nat k) m)(dst + of_nat k := 0)"
  shows "cstr m' dst (take k xs)" "\<And>q. q \<notin> region dst (Suc k) \<Longrightarrow> m' q = m q"
proof -
  have un: "unat (of_nat k :: u32) = k" using k by (simp add: unsigned_of_nat take_bit_nat_eq_self)
  note A = copy_mem_region [of dst "of_nat k" src, unfolded un, OF d]
  show "cstr m' dst (take k xs)"
  proof (rule cstrI)
    fix i assume i: "i < length (take k xs)"
    then have "dst + of_nat i \<noteq> dst + of_nat k" using of_nat_u32_inj [of i k] k by simp
    then show "m' (dst + of_nat i) = take k xs ! i"
      using A(1) [of i m] cstr_at [OF xs, of i] i by (simp add: m'_def)
  qed (use xs k in \<open>auto simp: m'_def cstr_def dest: in_set_takeD\<close>)
  have "dst + of_nat k \<in> region dst (Suc k)" by (rule region_mem) simp
  then show "m' q = m q" if "q \<notin> region dst (Suc k)" for q
    using that A(2) [of q m] region_mono [of k "Suc k" dst] by (auto simp: m'_def)
qed

lemma first_entry_whole:
  assumes xs: "cstr m line xs" "length xs < 2 ^ 32 - 1" and L: "L = Suc (length xs)"
    and d: "region first L \<inter> region line L = {}" "region other L \<inter> region first L = {}"
  defines "m' \<equiv> (copy_mem line first (of_nat L) m)(other := 0)"
  shows "cstr m' first xs" "cstr m' other []" "\<And>q. q \<notin> region first L \<Longrightarrow> q \<notin> region other L \<Longrightarrow> m' q = m q"
proof -
  have un: "unat (of_nat L :: u32) = L" using xs(2) L by (simp add: unsigned_of_nat take_bit_nat_eq_self del: of_nat_Suc)
  have o: "other \<in> region other L" using region_mem [of 0 L other] L by simp
  have "cstr (copy_mem line first (of_nat L) m) first xs"
    by (rule copy_cstr [OF xs(1)]) (simp_all add: un L [symmetric] d(1) del: of_nat_Suc)
  then show "cstr m' first xs" by (rule cstr_frame) (use o d(2) L in \<open>auto simp: m'_def\<close>)
  show "cstr m' other []" by (simp add: cstr_simps m'_def)
  show "m' q = m q" if "q \<notin> region first L" "q \<notin> region other L" for q
    using that o copy_mem_region(2) [of first "of_nat L" line _ m] d(1) by (auto simp: un m'_def)
qed

lemma first_entry_parts:
  assumes xs: "cstr m line xs" "length xs < 2 ^ 32 - 1" and k: "k < length xs" and L: "L = Suc (length xs)"
    and d: "region first L \<inter> region line L = {}" "region other L \<inter> region line L = {}"
      "region other L \<inter> region first L = {}"
  defines "a \<equiv> (copy_mem line first (of_nat k) m)(first + of_nat k := 0)"
  defines "m' \<equiv> copy_mem (line + of_nat (Suc k)) other (of_nat (L - Suc k)) a"
  shows "cstr m' first (take k xs)" "cstr m' other (drop (Suc k) xs)"
    "\<And>q. q \<notin> region first L \<Longrightarrow> q \<notin> region other L \<Longrightarrow> m' q = m q"
proof -
  let ?n = "L - Suc k" and ?t = "line + of_nat (Suc k)"
  have n: "Suc k + ?n = L" "k \<le> L" "Suc k \<le> L" "?n \<le> L" "?n = Suc (length (drop (Suc k) xs))" using k L by auto
  have un: "unat (of_nat ?n :: u32) = ?n" using xs(2) L by (simp add: unsigned_of_nat take_bit_nat_eq_self)
  have A: "cstr a first (take k xs)" "\<And>q. q \<notin> region first (Suc k) \<Longrightarrow> a q = m q"
    using copy_beginning [OF xs(1) _ _ region_disjoint_mono [OF d(1) n(2,2)]] k xs(2) by (simp_all add: a_def)
  have tail: "region ?t ?n \<subseteq> region line L" using region_shift [of line "Suc k" ?n] n(1) by simp
  then have ot: "region other ?n \<inter> region ?t ?n = {}" using d(2) region_mono [OF n(4), of other] by blast
  have C: "m' q = a q" if "q \<notin> region other ?n" for q
    using copy_mem_region(2) [of other "of_nat ?n" ?t q a, unfolded un, OF ot that] by (simp add: m'_def)
  show "cstr m' first (take k xs)"
  proof (rule cstr_frame [OF A(1)])
    fix q assume "q \<in> region first (Suc (length (take k xs)))"
    then have "q \<in> region first (Suc k)" using k by simp
    then show "m' q = a q" using region_disjoint_mono [OF d(3) n(4,3)] by (intro C) blast
  qed
  have "cstr a ?t (drop (Suc k) xs)"
  proof (rule cstr_frame)
    show "cstr m ?t (drop (Suc k) xs)" using k by (intro cstr_drop [OF xs(1)]) simp
    fix q assume "q \<in> region ?t (Suc (length (drop (Suc k) xs)))"
    then have "q \<in> region line L" using tail n(5) by auto
    then show "a q = m q" using region_disjoint_mono [OF d(1) n(3) order_refl] by (intro A(2)) blast
  qed
  then show "cstr m' other (drop (Suc k) xs)"
    unfolding m'_def by (rule copy_cstr) (simp_all only: un n(5) [symmetric] ot)
  show "m' q = m q" if "q \<notin> region first L" "q \<notin> region other L" for q
    using that C A(2) region_mono [OF n(4), of other] region_mono [OF n(3), of first] by (metis subsetD)
qed

lemma str_get_first_entry_spec:
  assumes xs: "cstr m line xs" "length xs < 2 ^ 32 - 1" and L: "L = Suc (length xs)"
    and d: "region first L \<inter> region line L = {}" "region other L \<inter> region line L = {}"
      "region other L \<inter> region first L = {}"
  shows "\<exists>m'. str_get_first_entry line first other m = Some m'
    \<and> cstr m' first (first_word xs) \<and> cstr m' other (other_words xs)
    \<and> (\<forall>q. q \<notin> region first L \<longrightarrow> q \<notin> region other L \<longrightarrow> m' q = m q)"
proof -
  let ?k = "length (first_word xs)"
  have len: "str_get_len m line = Some (of_nat L)" using str_get_len_spec [OF xs(1)] by (simp add: L)
  have find: "str_find_char m line 0x20 = Some (if 0x20 \<in> set xs then Some (of_nat ?k) else None)"
    using str_find_loop_spec [of m line 0 xs "0x20"] xs(1) by (simp add: str_find_char_def first_word_def)
  show ?thesis
  proof (cases "0x20 \<in> set xs")
    case False
    with first_entry_whole [OF xs L d(1,3)] show ?thesis
      by (auto simp: str_get_first_entry_def len find Let_def first_word_all)
  next
    case True
    have k: "?k < length xs" by (rule first_word_le(2) [OF True])
    have "of_nat ?k + 1 = (of_nat (Suc ?k) :: u32)" "(of_nat L :: u32) - of_nat (Suc ?k) = of_nat (L - Suc ?k)"
      using k L by (simp_all add: of_nat_diff)
    then have "str_get_first_entry line first other m = Some (copy_mem (line + of_nat (Suc ?k)) other
        (of_nat (L - Suc ?k)) ((copy_mem line first (of_nat ?k) m)(first + of_nat ?k := 0)))"
      using True by (simp add: str_get_first_entry_def len find Let_def del: of_nat_Suc)
    with first_entry_parts [OF xs k L d] show ?thesis by (simp add: other_words_def first_word_take)
  qed
qed

section \<open>Numbers\<close>

text \<open>The number \<^verbatim>\<open>str_conv_ahex_int\<close> makes of any string, and of a numeral.\<close>

definition hex_word :: "u8 list \<Rightarrow> u32" where
  "hex_word cs = foldl (\<lambda>v c. 16 * v + hex_char_value c) 0 cs"

lemma pow_power: "pow x n = x ^ n"
  by (induction n) (simp_all add: mult.commute)

lemma hex_word_acc: "foldl (\<lambda>v c. 16 * v + hex_char_value c) v cs = v * 16 ^ length cs + hex_word cs"
proof (induction cs arbitrary: v)
  case (Cons c cs)
  from Cons [of "16 * v + hex_char_value c"] Cons [of "hex_char_value c"] show ?case
    by (simp add: hex_word_def algebra_simps)
qed (simp add: hex_word_def)

lemma hex_word_Cons: "hex_word (c # cs) = hex_char_value c * 16 ^ length cs + hex_word cs"
  using hex_word_acc [of "hex_char_value c" cs] by (simp add: hex_word_def)

lemma str_conv_loop_spec:
  assumes "cstr m (p + of_nat k) cs" and "len = of_nat (k + length cs + 1)" and "k + length cs < 2 ^ 32"
  shows "str_conv_loop m p len (of_nat k) val = Some (val + hex_word cs)"
  using assms
proof (induction cs arbitrary: k val)
  case Nil
  then show ?case by (subst str_conv_loop.simps) (simp add: cstr_simps hex_word_def)
next
  case (Cons c cs)
  have "len - 2 - of_nat k = of_nat (length cs)" using Cons.prems(2) by simp
  then have e: "unat (len - 2 - of_nat k) = length cs"
    using Cons.prems(3) by (simp add: unsigned_of_nat take_bit_nat_eq_self)
  have "str_conv_loop m p len (of_nat (Suc k)) (val + hex_char_value c * 16 ^ length cs) =
      Some (val + hex_char_value c * 16 ^ length cs + hex_word cs)"
    using Cons.prems by (intro Cons.IH) (simp_all add: cstr_simps ac_simps)
  with Cons.prems(1) show ?case
    by (subst str_conv_loop.simps) (simp add: cstr_simps e pow_power hex_word_Cons ac_simps)
qed

lemma str_conv_spec:
  assumes "cstr m p cs" and "length cs < 2 ^ 32"
  shows "str_conv_ahex_int m p = Some (hex_word cs)"
  using str_conv_loop_spec [of m p 0 cs "of_nat (Suc (length cs))" 0] assms
  by (simp add: str_conv_ahex_int_def str_get_len_spec)

lemma hex_char_value_digit:
  assumes "c \<in> set hex_digits"
  shows "hex_char_value c = of_nat (hex_digit_val c)"
proof -
  have "\<forall>c \<in> set hex_digits. hex_char_value c = of_nat (hex_digit_val c)" by code_simp
  with assms show ?thesis by blast
qed

lemma hex_word_digits: "set cs \<subseteq> set hex_digits \<Longrightarrow> hex_word cs = of_nat (read_hex cs)"
proof (induction cs rule: rev_induct)
  case (snoc c cs)
  then show ?case by (simp add: hex_word_def read_hex_def hex_char_value_digit)
qed (simp add: hex_word_def read_hex_def)

lemma hex_numeral_digits: "set (hex_numeral n) \<subseteq> set hex_digits"
proof (induction n rule: hex_numeral.induct)
  case (1 n)
  have "hex_digits ! (k mod 16) \<in> set hex_digits" for k
    by (rule nth_mem) (simp add: hex_digits_def)
  from 1 this [of n] show ?case
    by (subst hex_numeral.simps) (auto split: if_splits)
qed

lemma hex_word_numeral: "hex_word (hex_numeral (unat n)) = n"
  by (simp add: hex_word_digits hex_numeral_digits read_hex_hex_numeral)

lemma digits_not_space: "set cs \<subseteq> set hex_digits \<Longrightarrow> 0x20 \<notin> set cs"
proof -
  have "0x20 \<notin> set hex_digits" by code_simp
  then show "set cs \<subseteq> set hex_digits \<Longrightarrow> 0x20 \<notin> set cs" by blast
qed

lemma numeral_word:
  "0x20 \<notin> set (hex_numeral n)" "length (hex_numeral (unat (v :: u32))) \<le> 8"
  using digits_not_space [OF hex_numeral_digits] length_hex_numeral [of "unat v" 7] unat_u32_bound [of v]
  by auto

section \<open>Commands\<close>

text \<open>The literals are where the linker has put them, and hold their strings.\<close>

definition names_at :: "memory \<Rightarrow> (u8 list \<Rightarrow> u32) \<Rightarrow> (string \<times> shell_command) list \<Rightarrow> bool" where
  "names_at m lit cs \<longleftrightarrow> (\<forall>(n, c) \<in> set cs. cstr m (lit (bytes_of n)) (bytes_of n))"

lemma match_command_spec:
  assumes "cstr m p bs"
  shows "names_at m lit cs \<Longrightarrow> match_command m lit p cs =
    Some (case find (\<lambda>(n, c). bytes_of n = bs) cs of Some (n, c) \<Rightarrow> c | None \<Rightarrow> COMMAND_NUM)"
proof (induction cs)
  case (Cons e cs)
  obtain n c where e: "e = (n, c)" by (metis surj_pair)
  have n: "cstr m (lit (bytes_of n)) (bytes_of n)" and IH: "names_at m lit cs"
    using Cons.prems by (simp_all add: names_at_def e)
  from str_compare_eq [OF assms n] obtain d where
    "str_compare m p (lit (bytes_of n)) = Some d" "d = 0 \<longleftrightarrow> bs = bytes_of n" by blast
  then show ?case using Cons.IH [OF IH] by (auto simp: e)
qed (simp add: names_at_def)

lemma get_command_id_spec:
  assumes "cstr m p bs" and "names_at m lit command_names"
  shows "get_command_id m lit p =
    Some (case find (\<lambda>(n, c). bytes_of n = bs) command_names of Some (n, c) \<Rightarrow> c | None \<Rightarrow> COMMAND_NUM)"
  unfolding get_command_id_def by (rule match_command_spec [OF assms])

text \<open>The arguments of a command that writes: two numbers, in buffers that do not overlap.\<close>

definition frame_ok :: "frame \<Rightarrow> u32 \<Rightarrow> nat \<Rightarrow> bool" where
  "frame_ok fr args n \<longleftrightarrow> sorted_wrt (\<lambda>p q. region p n \<inter> region q n = {})
     [args, fr_first fr, fr_other fr, fr_second fr, fr_other2 fr]"

definition frame_region :: "frame \<Rightarrow> nat \<Rightarrow> u32 set" where
  "frame_region fr n = region (fr_first fr) n \<union> region (fr_other fr) n \<union> region (fr_second fr) n
     \<union> region (fr_other2 fr) n"

lemma frame_okD:
  assumes "frame_ok fr args n"
  shows "region (fr_first fr) n \<inter> region args n = {}" "region (fr_other fr) n \<inter> region args n = {}"
    "region (fr_other fr) n \<inter> region (fr_first fr) n = {}"
    "region (fr_second fr) n \<inter> region (fr_other fr) n = {}" "region (fr_other2 fr) n \<inter> region (fr_other fr) n = {}"
    "region (fr_other2 fr) n \<inter> region (fr_second fr) n = {}"
    "region (fr_second fr) n \<inter> region (fr_first fr) n = {}" "region (fr_other2 fr) n \<inter> region (fr_first fr) n = {}"
  using assms by (simp_all add: frame_ok_def Int_commute)

lemma split_line_spec:
  assumes "cstr (mem s) line xs" and "length xs < n" and "n < 2 ^ 32"
    and d: "region first n \<inter> region line n = {}" "region other n \<inter> region line n = {}"
      "region other n \<inter> region first n = {}"
  shows "\<exists>m'. split_line line first other s = Some (s\<lparr>mem := m'\<rparr>)
    \<and> cstr m' first (first_word xs) \<and> cstr m' other (other_words xs)
    \<and> (\<forall>q. q \<notin> region first n \<longrightarrow> q \<notin> region other n \<longrightarrow> m' q = mem s q)"
proof -
  let ?L = "Suc (length xs)"
  have L: "?L \<le> n" using assms(2) by simp
  have "length xs < 2 ^ 32 - 1" using assms(2,3) by simp
  from str_get_first_entry_spec [OF assms(1) this refl region_disjoint_mono [OF d(1) L L]
      region_disjoint_mono [OF d(2) L L] region_disjoint_mono [OF d(3) L L]]
  obtain m' where "str_get_first_entry line first other (mem s) = Some m'"
    "cstr m' first (first_word xs)" "cstr m' other (other_words xs)"
    "\<forall>q. q \<notin> region first ?L \<longrightarrow> q \<notin> region other ?L \<longrightarrow> m' q = mem s q" by blast
  moreover have "\<And>q. q \<notin> region first n \<Longrightarrow> q \<notin> region first ?L" "\<And>q. q \<notin> region other n \<Longrightarrow> q \<notin> region other ?L"
    using region_mono [OF L] by blast+
  ultimately show ?thesis by (intro exI [of _ m']) (simp add: split_line_def)
qed

lemma value_and_address_spec:
  assumes xs: "cstr (mem s) args xs" and n: "length xs < n" "n < 2 ^ 32" and f: "frame_ok fr args n"
  shows "\<exists>m'. value_and_address fr args s =
      Some (hex_word (first_word xs), hex_word (first_word (other_words xs)), s\<lparr>mem := m'\<rparr>)
    \<and> (\<forall>q. q \<notin> frame_region fr n \<longrightarrow> m' q = mem s q)"
proof -
  note D = frame_okD [OF f]
  obtain m1 where m1: "split_line args (fr_first fr) (fr_other fr) s = Some (s\<lparr>mem := m1\<rparr>)"
    "cstr m1 (fr_first fr) (first_word xs)" "cstr m1 (fr_other fr) (other_words xs)"
    "\<forall>q. q \<notin> region (fr_first fr) n \<longrightarrow> q \<notin> region (fr_other fr) n \<longrightarrow> m1 q = mem s q"
    using split_line_spec [OF xs n D(1-3)] by blast
  have lens: "length (first_word xs) < n" "length (other_words xs) < n"
    "length (first_word (other_words xs)) < n"
    using first_word_le(1) [of xs] first_word_le(1) [of "other_words xs"] n(1) by (simp_all add: other_words_def)
  let ?s = "s\<lparr>mem := m1\<rparr>"
  have "cstr (mem ?s) (fr_other fr) (other_words xs)" using m1(3) by simp
  then obtain m2 where m2: "split_line (fr_other fr) (fr_second fr) (fr_other2 fr) ?s = Some (?s\<lparr>mem := m2\<rparr>)"
    "cstr m2 (fr_second fr) (first_word (other_words xs))"
    "\<forall>q. q \<notin> region (fr_second fr) n \<longrightarrow> q \<notin> region (fr_other2 fr) n \<longrightarrow> m2 q = mem ?s q"
    using split_line_spec [OF _ lens(2) n(2) D(4-6)] by blast
  have "cstr m2 (fr_first fr) (first_word xs)"
  proof (rule cstr_frame [OF m1(2)])
    fix q assume "q \<in> region (fr_first fr) (Suc (length (first_word xs)))"
    then have "q \<in> region (fr_first fr) n" using region_mono [of "Suc (length (first_word xs))" n] lens(1) by (meson Suc_leI subsetD)
    then have "q \<notin> region (fr_second fr) n" "q \<notin> region (fr_other2 fr) n" using D(7,8) by blast+
    then show "m2 q = m1 q" using m2(3) by simp
  qed
  then have "value_and_address fr args s =
      Some (hex_word (first_word xs), hex_word (first_word (other_words xs)), s\<lparr>mem := m2\<rparr>)"
    using m1(1) m2(1,2) lens n(2) by (simp add: value_and_address_def str_conv_spec)
  moreover have "m2 q = mem s q" if "q \<notin> frame_region fr n" for q
    using that m1(4) m2(3) by (simp add: frame_region_def)
  ultimately show ?thesis by blast
qed

lemma shell_put_str_eq: "shell_put_str addr p s = put_str p s"
  by (cases "put_str p s") (simp_all add: shell_put_str_def syscall_now_def do_syscall_def syscall_numbers)

section \<open>One turn of the shell\<close>

text \<open>The command a line starts with.\<close>

definition command_of :: "u8 list \<Rightarrow> shell_command" where
  "command_of line = (case find (\<lambda>(n, c). bytes_of n = first_word line) command_names of
     Some (n, c) \<Rightarrow> c | None \<Rightarrow> COMMAND_NUM)"

definition prompt :: "u8 list" where
  "prompt = bytes_of ''OS5> ''"

text \<open>The arrays of the stack frame and the literals do not overlap, and only the screen is the screen.\<close>

definition shell_area :: "shell_frame \<Rightarrow> u32 set" where
  "shell_area fr = screen_area \<union> region (fr_buf fr) 512 \<union> region (fr_command fr) 256 \<union> region (fr_args fr) 256"

definition shell_frame_ok :: "shell_frame \<Rightarrow> bool" where
  "shell_frame_ok fr \<longleftrightarrow> buffer_ok (fr_buf fr) MAX_LINE_SIZE
     \<and> region (fr_command fr) 256 \<inter> region (fr_buf fr) 512 = {}
     \<and> region (fr_args fr) 256 \<inter> region (fr_buf fr) 512 = {}
     \<and> region (fr_args fr) 256 \<inter> region (fr_command fr) 256 = {}"

lemma frame_regions:
  assumes "shell_frame_ok fr"
  shows "region (fr_command fr) 256 \<inter> region (fr_buf fr) 256 = {}"
    and "region (fr_args fr) 256 \<inter> region (fr_buf fr) 256 = {}"
    and "region (fr_args fr) 256 \<inter> region (fr_command fr) 256 = {}"
  using assms region_mono [of 256 512 "fr_buf fr"] unfolding shell_frame_ok_def by (simp_all, blast+)

definition literals_ok :: "memory \<Rightarrow> (u8 list \<Rightarrow> u32) \<Rightarrow> shell_frame \<Rightarrow> bool" where
  "literals_ok m lit fr \<longleftrightarrow> (\<forall>b \<in> set (prompt # map (bytes_of \<circ> fst) command_names).
     cstr m (lit b) b \<and> region (lit b) (Suc (length b)) \<inter> shell_area fr = {})"

lemma literal_kept:
  assumes "literals_ok m lit fr" and "b \<in> set (prompt # map (bytes_of \<circ> fst) command_names)"
    and "\<forall>q. q \<notin> shell_area fr \<longrightarrow> m' q = m q"
  shows "cstr m' (lit b) b"
proof (rule cstr_frame)
  show "cstr m (lit b) b" using assms(1,2) unfolding literals_ok_def by blast
  show "m' q = m q" if "q \<in> region (lit b) (Suc (length b))" for q
    using assms that unfolding literals_ok_def by blast
qed

lemma names_kept:
  assumes "literals_ok m lit fr" and "\<forall>q. q \<notin> shell_area fr \<longrightarrow> m' q = m q"
  shows "names_at m' lit command_names"
  unfolding names_at_def
proof (clarify)
  fix n c assume "(n, c) \<in> set command_names"
  then have "bytes_of n \<in> (bytes_of \<circ> fst) ` set command_names" by (metis comp_apply fst_conv image_eqI)
  then show "cstr m' (lit (bytes_of n)) (bytes_of n)"
    using literal_kept [OF assms(1) _ assms(2)] by (metis insert_iff list.set(2) set_map)
qed

lemma prompt_shown:
  assumes "literals_ok (mem s) lit fr"
  shows "put_str (lit prompt) s = Some (put_bytes prompt s)"
proof (rule put_str_bytes)
  show "cstr (mem s) (lit prompt) prompt" using literal_kept [OF assms, of prompt] by simp
  have "region (lit prompt) (Suc (length prompt)) \<inter> shell_area fr = {}"
    using assms unfolding literals_ok_def by simp
  then show "\<forall>i \<le> length prompt. lit prompt + of_nat i \<notin> screen_area"
    using region_mem [of _ "Suc (length prompt)" "lit prompt"] unfolding shell_area_def
    by (meson Un_iff disjoint_iff le_imp_less_Suc)
qed

lemma buffer_area_512: "buffer_area p MAX_LINE_SIZE = region p 512"
  by (simp add: buffer_area_def region_def MAX_LINE_SIZE_def)

lemma line_read:
  assumes "shell_frame_ok fr"
  shows "case edit_line 511 [] ks of
      None \<Rightarrow> get_line (fr_buf fr) MAX_LINE_SIZE ks s = None
    | Some (line, ks') \<Rightarrow> length line < 512
        \<and> (\<exists>s'. get_line (fr_buf fr) MAX_LINE_SIZE ks s = Some (of_nat (length line), ks', s')
          \<and> (0 \<notin> set line \<longrightarrow> cstr (mem s') (fr_buf fr) line)
          \<and> (\<forall>q. q \<notin> screen_area \<longrightarrow> q \<notin> region (fr_buf fr) 512 \<longrightarrow> mem s' q = mem s q))"
proof -
  have b: "buffer_ok (fr_buf fr) MAX_LINE_SIZE" using assms by (simp add: shell_frame_ok_def)
  have n: "unat MAX_LINE_SIZE - 1 = 511" "unat MAX_LINE_SIZE = 512" by (simp_all add: MAX_LINE_SIZE_def)
  have "length line < 512" if "edit_line 511 [] ks = Some (line, ks')" for line ks'
    using edit_line_bound [OF _ that] by simp
  then show ?thesis
    using get_line_loop_spec [OF b, of "mem s" "[]" s ks, unfolded n]
    by (auto simp: get_line_def line_typed_def n line_stored_def block_at_def cstr_def buffer_area_512 split: option.splits)
qed

lemma prompt_literal: "bytes_of ''OS5> '' = prompt"
  by (simp only: prompt_def)

section \<open>Properties\<close>

text \<open>
  C13. A turn of the shell. When the keys complete a line, \<^verbatim>\<open>shell_main\<close> splits it at its first space
  into the command and its arguments and runs the command the first word names (a file of that name,
  if it is none of the eleven commands); an empty line does nothing; as long as the line is not
  complete the turn does not end. Before the command runs, nothing but the screen and the three arrays
  has changed. The line may have up to 511 characters, but the arrays for the command and its arguments
  have 256 bytes each: the property is about the lines they can hold.
\<close>

theorem shell_runs_line:
  assumes "shell_frame_ok fr" and "literals_ok (mem s) lit fr"
  shows "case edit_line 511 [] ks of
      None \<Rightarrow> shell_turn dev addr lit fr ks s = None
    | Some (line, ks') \<Rightarrow>
        (\<exists>t. (\<forall>q. q \<notin> shell_area fr \<longrightarrow> mem t q = mem s q)
          \<and> (line = [] \<longrightarrow> shell_turn dev addr lit fr ks s = Some (ks', t))
          \<and> (line \<noteq> [] \<and> 0 \<notin> set line \<and> length line < 256 \<longrightarrow>
              cstr (mem t) (fr_command fr) (first_word line) \<and> cstr (mem t) (fr_args fr) (other_words line)
              \<and> shell_turn dev addr lit fr ks s = map_option (Pair ks')
                  (run_command dev addr lit (frame.truncate fr) (command_of line) (fr_command fr) (fr_args fr) t)))"
proof (cases "edit_line 511 [] ks")
  case None
  with line_read [OF assms(1), of ks "put_bytes prompt s"] show ?thesis
    by (simp add: shell_turn_def prompt_literal shell_put_str_eq prompt_shown [OF assms(2)] del: bytes_of_simps)
next
  case (Some r)
  obtain line ks' where r: "r = (line, ks')" by (metis surj_pair)
  obtain s1 where len: "length line < 512"
    and s1: "get_line (fr_buf fr) MAX_LINE_SIZE ks (put_bytes prompt s) = Some (of_nat (length line), ks', s1)"
    and buf: "0 \<notin> set line \<longrightarrow> cstr (mem s1) (fr_buf fr) line"
    and m1: "\<forall>q. q \<notin> screen_area \<longrightarrow> q \<notin> region (fr_buf fr) 512 \<longrightarrow> mem s1 q = mem (put_bytes prompt s) q"
    using line_read [OF assms(1), of ks "put_bytes prompt s"] by (auto simp: Some r)
  have out1: "\<forall>q. q \<notin> shell_area fr \<longrightarrow> mem s1 q = mem s q"
    using m1 put_bytes_outside [of _ prompt s] by (simp add: shell_area_def)
  have empty: "(of_nat (length line) :: u32) = 0 \<longleftrightarrow> line = []"
    using len of_nat_u32_eq [of "length line" 0] by simp
  note turn = shell_turn_def prompt_literal shell_put_str_eq prompt_shown [OF assms(2)] s1 empty
  show ?thesis
  proof (cases "line \<noteq> [] \<and> 0 \<notin> set line \<and> length line < 256")
    case False
    with out1 show ?thesis
      by (auto simp: Some r turn simp del: bytes_of_simps intro!: exI [of _ s1])
  next
    case True
    with assms(1) obtain m' where m': "split_line (fr_buf fr) (fr_command fr) (fr_args fr) s1 = Some (s1\<lparr>mem := m'\<rparr>)"
      "cstr m' (fr_command fr) (first_word line)" "cstr m' (fr_args fr) (other_words line)"
      "\<forall>q. q \<notin> region (fr_command fr) 256 \<longrightarrow> q \<notin> region (fr_args fr) 256 \<longrightarrow> m' q = mem s1 q"
      using split_line_spec [of s1 "fr_buf fr" line 256 "fr_command fr" "fr_args fr"] buf
        frame_regions [OF assms(1)]
      by auto
    have out: "\<forall>q. q \<notin> shell_area fr \<longrightarrow> m' q = mem s q"
      using out1 m'(4) by (simp add: shell_area_def)
    have "get_command_id m' lit (fr_command fr) = Some (command_of line)"
      using get_command_id_spec [OF m'(2) names_kept [OF assms(2) out]] by (simp add: command_of_def)
    then have "shell_turn dev addr lit fr ks s = map_option (Pair ks')
        (run_command dev addr lit (frame.truncate fr) (command_of line) (fr_command fr) (fr_args fr) (s1\<lparr>mem := m'\<rparr>))"
      using True m'(1)
      by (simp add: turn map_conv_bind_option comp_def del: bytes_of_simps)
    then show ?thesis using True out m'(2,3) by (auto simp: Some r intro!: exI [of _ "s1\<lparr>mem := m'\<rparr>"])
  qed
qed

text \<open>Literals from 0x2000 on, a frame, and the keys for a line \<open>"a"\<close>, which names no command.\<close>

definition demo_literals :: "u8 list list" where
  "demo_literals = prompt # map (bytes_of \<circ> fst) command_names"

definition demo_lit :: "u8 list \<Rightarrow> u32" where
  "demo_lit b = 0x2000 + 16 * of_nat (length (takeWhile (\<lambda>x. x \<noteq> b) demo_literals))"

definition demo_text :: memory where
  "demo_text q =
     (let k = unat q div 16 - 0x200; i = unat q mod 16
      in if k < 12 \<and> i < length (demo_literals ! k) then demo_literals ! k ! i else 0)"

definition demo_frame :: shell_frame where
  "demo_frame = \<lparr>fr_first = 0x8000, fr_second = 0x8200, fr_other = 0x8400, fr_other2 = 0x8600,
     fr_buf = 0x5000, fr_command = 0x6000, fr_args = 0x7000\<rparr>"

lemma demo_literals_list:
  "length demo_literals = 12" "distinct demo_literals"
  "b \<in> set demo_literals \<Longrightarrow> length b < 16 \<and> 0 \<notin> set b"
proof -
  have "list_all (\<lambda>b. length b < 16 \<and> 0 \<notin> set b) demo_literals" by code_simp
  then show "b \<in> set demo_literals \<Longrightarrow> length b < 16 \<and> 0 \<notin> set b" by (auto simp: list_all_iff)
  have "map bytes_of [''OS5> '', ''echo'', ''readb'', ''readw'', ''readl'', ''ioreadb'', ''writeb'', ''writew'',
      ''writel'', ''iowriteb'', ''test'', ''shutdown''] = demo_literals"
    by (simp add: demo_literals_def prompt_def command_names_def del: bytes_of_simps)
  moreover have "distinct (map bytes_of [''OS5> '', ''echo'', ''readb'', ''readw'', ''readl'', ''ioreadb'', ''writeb'',
      ''writew'', ''writel'', ''iowriteb'', ''test'', ''shutdown''])"
    by code_simp
  ultimately show "distinct demo_literals" by simp
  show "length demo_literals = 12" by (simp add: demo_literals_def command_names_def)
qed

lemma takeWhile_index:
  "distinct xs \<Longrightarrow> k < length xs \<Longrightarrow> length (takeWhile (\<lambda>x. x \<noteq> xs ! k) xs) = k"
  by (induction xs arbitrary: k) (auto simp: nth_Cons split: nat.split)

lemma demo_literals_stored:
  assumes "b \<in> set demo_literals"
  shows "cstr demo_text (demo_lit b) b" "unat (demo_lit b) + length b < 0x3000"
proof -
  obtain k where k: "k < 12" "b = demo_literals ! k" using assms demo_literals_list(1) by (metis in_set_conv_nth)
  note b = demo_literals_list(3) [OF assms]
  have "length (takeWhile (\<lambda>x. x \<noteq> b) demo_literals) = k"
    unfolding k(2) by (rule takeWhile_index) (use k demo_literals_list in simp_all)
  then have a: "demo_lit b = of_nat (0x2000 + 16 * k)" by (simp add: demo_lit_def)
  have at: "unat (demo_lit b + of_nat i) = 0x2000 + 16 * k + i" if "i < 16" for i
  proof -
    have "demo_lit b + of_nat i = of_nat (0x2000 + 16 * k + i)" by (simp add: a)
    then show ?thesis using that k(1) by (simp only: unat_of_nat) simp
  qed
  have byte: "demo_text (demo_lit b + of_nat i) = (if i < length b then b ! i else 0)" if "i < 16" for i
  proof -
    have "(0x2000 + 16 * k + i) div 16 = 0x200 + k" "(0x2000 + 16 * k + i) mod 16 = i"
      using that div_mult_self3 [of 16 "0x200 + k" i] mod_mult_self4 [of 16 "0x200 + k" i] by simp_all
    then show ?thesis unfolding demo_text_def at [OF that] Let_def using k(1) by (simp add: k(2) [symmetric])
  qed
  show "cstr demo_text (demo_lit b) b" by (rule cstrI) (use b byte in auto)
  show "unat (demo_lit b) + length b < 0x3000" using at [of 0] b k(1) by simp
qed

lemma demo_frame_ok: "shell_frame_ok demo_frame" "literals_ok demo_text demo_lit demo_frame"
proof -
  have r: "q \<in> region 0x5000 512 \<Longrightarrow> 0x5000 \<le> unat q \<and> unat q < 0x5200"
    "q \<in> region 0x6000 256 \<Longrightarrow> 0x6000 \<le> unat q \<and> unat q < 0x6100"
    "q \<in> region 0x7000 256 \<Longrightarrow> 0x7000 \<le> unat q \<and> unat q < 0x7100"
    "q \<in> screen_area \<Longrightarrow> 0xb8000 \<le> unat q" for q
    using region_range [of q "0x5000" 512] region_range [of q "0x6000" 256] region_range [of q "0x7000" 256]
      region_range [of q SCREEN_START 41312] by (simp_all add: screen_area_def region_def SCREEN_START_def)
  have "(0x5000 :: u32) + of_nat i \<notin> screen_area" if "i < 512" for i
    using r(1,4) [of "0x5000 + of_nat i"] region_mem [OF that, of "0x5000"] by auto
  then have "buffer_ok 0x5000 MAX_LINE_SIZE" by (simp add: buffer_ok_def MAX_LINE_SIZE_def)
  moreover have "region 0x6000 256 \<inter> region 0x5000 512 = {}" "region 0x7000 256 \<inter> region 0x5000 512 = {}"
    "region 0x7000 256 \<inter> region 0x6000 256 = {}" using r(1-3) by fastforce+
  ultimately show "shell_frame_ok demo_frame" by (simp add: shell_frame_ok_def demo_frame_def)
  have "region (demo_lit b) (Suc (length b)) \<inter> shell_area demo_frame = {}" if b: "b \<in> set demo_literals" for b
  proof -
    have "unat q < 0x5000" if "q \<in> region (demo_lit b) (Suc (length b))" for q
      using region_range [OF that] demo_literals_stored(2) [OF b] by simp
    then show ?thesis using r by (fastforce simp: shell_area_def demo_frame_def)
  qed
  then show "literals_ok demo_text demo_lit demo_frame"
    using demo_literals_stored(1) unfolding literals_ok_def demo_literals_def by blast
qed

theorem shell_runs_line_witness:
  "\<exists>t. cstr (mem t) 0x6000 [0x61]
    \<and> shell_turn demo_drive (\<lambda>_. 0) demo_lit demo_frame [0x1e, 0x1c] (boot_kernel\<lparr>mem := demo_text\<rparr>)
      = map_option (Pair []) (run_file (\<lambda>_. 0) demo_lit 0x6000 t)"
proof -
  have k: "keymap ! 0x1e = 0x61" "keymap ! 0x1c = 0x0a"
    by (simp_all add: keymap_def ASCII_ESC_def ASCII_BS_def ASCII_HT_def)
  have e: "edit_line 511 [] [0x1e, 0x1c] = Some ([0x61], [])"
    by (simp add: edit_line.simps get_char_def IOADR_KBC_DATA_BIT_BRAKE_def k ASCII_BS_def)
  have "first_word [0x61] = [0x61]" by (simp add: first_word_def)
  then have c: "command_of [0x61] = COMMAND_NUM" by (simp add: command_of_def command_names_def)
  have "literals_ok (mem (boot_kernel\<lparr>mem := demo_text\<rparr>)) demo_lit demo_frame"
    using demo_frame_ok(2) by simp
  from shell_runs_line [OF demo_frame_ok(1) this, where ks = "[0x1e, 0x1c]" and dev = demo_drive and addr = "\<lambda>_. 0"]
  obtain t where "cstr (mem t) (fr_command demo_frame) (first_word [0x61])"
    "shell_turn demo_drive (\<lambda>_. 0) demo_lit demo_frame [0x1e, 0x1c] (boot_kernel\<lparr>mem := demo_text\<rparr>)
      = map_option (Pair []) (run_command demo_drive (\<lambda>_. 0) demo_lit (frame.truncate demo_frame)
          (command_of [0x61]) (fr_command demo_frame) (fr_args demo_frame) t)"
    unfolding e by auto
  then show ?thesis by (auto simp: c run_command_def first_word_def demo_frame_def)
qed

text \<open>
  C39. The commands that write. Their arguments are a value and an address in hexadecimal; \<^verbatim>\<open>writeb\<close>,
  \<^verbatim>\<open>writew\<close> and \<^verbatim>\<open>writel\<close> store the low 8, 16 or 32 bits of the value there and change no other memory
  than their own arrays, and \<^verbatim>\<open>iowriteb\<close> sends the low byte to the port and changes no other memory.
\<close>

theorem write_commands:
  assumes "cstr (mem s) args xs" and "length xs < n" "n < 2 ^ 32" and "frame_ok fr args n"
    and "v = hex_word (first_word xs)" and "a = hex_word (first_word (other_words xs))"
  shows "\<exists>m. (\<forall>q. q \<notin> frame_region fr n \<longrightarrow> m q = mem s q)
    \<and> command_writeb fr args s = Some (s\<lparr>mem := m(a := ucast v)\<rparr>)
    \<and> command_writew fr args s = Some (s\<lparr>mem := write16 a (ucast v) m\<rparr>)
    \<and> command_writel fr args s = Some (s\<lparr>mem := write32 a v m\<rparr>)
    \<and> command_iowriteb fr args s = Some (outb_p (ucast v) (ucast a) (s\<lparr>mem := m\<rparr>))"
proof -
  obtain m where "value_and_address fr args s = Some (v, a, s\<lparr>mem := m\<rparr>)"
    "\<forall>q. q \<notin> frame_region fr n \<longrightarrow> m q = mem s q"
    using value_and_address_spec [OF assms(1-4)] assms(5,6) by auto
  then show ?thesis
    by (auto simp: command_writeb_def command_writew_def command_writel_def command_iowriteb_def)
qed

text \<open>The line of a command \<open>"writeb 41 9000"\<close> after the command, at 0x5000.\<close>

definition demo_args :: machine where
  "demo_args = \<lparr>mem = (\<lambda>_. 0)(0x5000 := 0x34, 0x5001 := 0x31, 0x5002 := 0x20, 0x5003 := 0x39,
     0x5004 := 0x30, 0x5005 := 0x30, 0x5006 := 0x30), eflags = 0, tr = 0, trace = []\<rparr>"

theorem write_commands_witness:
  "\<exists>s'. command_writeb (frame.truncate demo_frame) 0x5000 demo_args = Some s' \<and> mem s' 0x9000 = 0x41"
proof -
  let ?xs = "[0x34, 0x31, 0x20, 0x39, 0x30, 0x30, 0x30]" and ?fr = "frame.truncate demo_frame"
  have xs: "cstr (mem demo_args) 0x5000 ?xs" by (simp add: cstr_simps demo_args_def)
  have d: "region p 16 \<inter> region p' 16 = {}"
    if "unat p + 16 \<le> unat p' \<or> unat p' + 16 \<le> unat p" "unat p + 16 \<le> 2 ^ 32" "unat p' + 16 \<le> 2 ^ 32" for p p'
  proof -
    have "q \<notin> region p' 16" if "q \<in> region p 16" for q
      using region_range [OF that] region_range [of q p' 16] \<open>_ \<or> _\<close> \<open>unat p + 16 \<le> _\<close> \<open>unat p' + 16 \<le> 2 ^ 32\<close>
      by linarith
    then show ?thesis by blast
  qed
  have "frame_ok ?fr 0x5000 16"
    by (simp add: frame_ok_def frame.defs demo_frame_def d)
  moreover have "first_word ?xs = [0x34, 0x31]" "first_word [0x39, 0x30, 0x30, 0x30] = [0x39, 0x30, 0x30, 0x30]"
    "other_words ?xs = [0x39, 0x30, 0x30, 0x30]"
    by (simp_all add: first_word_def other_words_def)
  moreover have "hex_word [0x34, 0x31] = 0x41" "hex_word [0x39, 0x30, 0x30, 0x30] = 0x9000"
    by (simp_all add: hex_word_def hex_char_value_def)
  ultimately show ?thesis
    using write_commands [OF xs, where n = 16 and v = "0x41" and a = "0x9000" and fr = ?fr] by auto
qed

text \<open>
  C40. Numbers on the command line. The shell reads every number back that \<^verbatim>\<open>itox\<close> has written (in
  lower case), however many digits it has.
\<close>

theorem hex_parse_roundtrip:
  assumes "cstr m p (butlast (itox n))"
  shows "str_conv_ahex_int m p = Some n"
proof -
  have "butlast (itox n) = hex_numeral (unat n)" by (simp add: itox_eq)
  moreover have "length (hex_numeral (unat n)) < 2 ^ 32" using numeral_word(2) [of n] by simp
  ultimately show ?thesis using str_conv_spec [of m p] assms by (simp add: hex_word_numeral)
qed

theorem hex_parse_roundtrip_witness:
  "str_conv_ahex_int ((\<lambda>_. 0)(0x1000 := 0x62, 0x1001 := 0x38)) 0x1000 = Some 0xb8"
proof -
  have "hex_numeral 184 = [0x62, 0x38]"
    by (simp add: hex_numeral_large hex_numeral_small hex_digits_def numeral_2_eq_2)
  then have "butlast (itox 0xb8) = [0x62, 0x38]" by (simp add: itox_eq)
  then have "cstr ((\<lambda>_. 0)(0x1000 := 0x62, 0x1001 := 0x38)) 0x1000 (butlast (itox 0xb8))"
    by (simp add: cstr_simps)
  then show ?thesis by (rule hex_parse_roundtrip)
qed

end
