(* ===== verification/System.thy ===== *)
theory System
  imports Kernel_Props
begin

text \<open>
  The kernel as one transition system. From the state \<^verbatim>\<open>kern_init\<close> enables the interrupts in, timer and
  keyboard interrupts, system calls, reads of keys and the programs themselves follow each other in any
  order. The invariant ties the components together: the scheduler's queues, the pages of the
  allocator, the descriptor table, the key buffer and the interrupt gates.
\<close>

section \<open>Steps\<close>

text \<open>
  A system call runs to its end or to the point where the caller sleeps; \<^verbatim>\<open>get_line\<close> goes on from there
  when its caller is current again, to its end or to the next read that blocks. A read of a key may
  also be a step of its own. Programs may write any byte of memory; the kernel's own objects are
  fields of their own. The kernel task allocates (nodes of the PCI list) and prints while no
  program is current.
\<close>

inductive kern_step :: "device \<Rightarrow> (fptr \<Rightarrow> u32) \<Rightarrow> 'a kernel_state_scheme \<Rightarrow> 'a kernel_state_scheme \<Rightarrow> bool"
  for dev addr where
  timer: "do_ir_timer s = Some s' \<Longrightarrow> kern_step dev addr s s'"
| keyboard: "do_ir_keyboard dev s = Some s' \<Longrightarrow> kern_step dev addr s s'"
| syscall: "current_task s \<noteq> TNull \<Longrightarrow> do_syscall addr n arg1 arg2 arg3 s = Some (r, s') \<Longrightarrow>
    kern_step dev addr s s'"
| resume_line: "current_task s \<noteq> TNull \<Longrightarrow> get_line_resume buf n if_bit i s = Some (l, s') \<Longrightarrow>
    kern_step dev addr s s'"
| read_key: "current_task s \<noteq> TNull \<Longrightarrow> get_keydata_step s = Some (r, s') \<Longrightarrow> kern_step dev addr s s'"
| resume: "kern_step dev addr s (wakeup_resume i s)"
| print_char: "kern_step dev addr s (put_char c s)"
| write_memory: "kern_step dev addr s (s\<lparr>mem := m\<rparr>)"
| boot_alloc: "current_task s = TNull \<Longrightarrow> kmalloc n s = Done p s' \<Longrightarrow> kern_step dev addr s s'"

inductive kern_reach :: "device \<Rightarrow> image \<Rightarrow> (fptr \<Rightarrow> u32) \<Rightarrow> 'a kernel_state_scheme \<Rightarrow> bool"
  for dev im addr where
  boot: "before_init s \<Longrightarrow> kern_init_setup dev im s = Some s' \<Longrightarrow> kern_reach dev im addr s'"
| step: "kern_reach dev im addr s \<Longrightarrow> kern_step dev addr s s' \<Longrightarrow> kern_reach dev im addr s'"

section \<open>The invariant\<close>

text \<open>The four pages of a task: its directory, its page table, its \<^verbatim>\<open>struct task\<close>, its stack.\<close>

record task_pages =
  directory_page :: nat
  table_page :: nat
  struct_page :: nat
  stack_page :: nat

definition pages_of :: "task_pages \<Rightarrow> nat list" where
  "pages_of p = [directory_page p, table_page p, struct_page p, stack_page p]"

definition task_at :: "task_pages \<Rightarrow> tptr" where
  "task_at p = THeap (page_addr (struct_page p))"

text \<open>Task number \<open>n\<close> jumps to descriptor \<open>n + 3\<close>, its own state segment, with its own directory.\<close>

definition task_linked :: "'a task_state_scheme \<Rightarrow> nat \<Rightarrow> task_pages \<Rightarrow> bool" where
  "task_linked s n p \<longleftrightarrow> own_selector (tasks s (task_at p)) = 8 * (of_nat n + 3)
     \<and> descriptor_base (gdt s ! (n + 3)) = tss_addr (page_addr (struct_page p))
     \<and> tss_cr3 (tss_of (tasks s (task_at p))) = page_addr (directory_page p) OR 0x18"

text \<open>
  The types of the descriptors once \<open>n\<close> tasks have been started: entry 3 and the \<open>n\<close> entries behind it
  are of type 9 with the S bit of the initial table, the others are those of the initial table.
\<close>

definition descriptors_typed :: "nat \<Rightarrow> segment_descriptor list \<Rightarrow> bool" where
  "descriptors_typed n g \<longleftrightarrow> (\<forall>i. if 3 \<le> i \<and> i \<le> n + 3
     then sd_type (g ! i) = 9 \<and> sd_p (g ! i) = 1 \<and> sd_s (g ! i) = sd_s (gdt_initial ! i)
     else g ! i = gdt_initial ! i)"

definition tasks_ok :: "'a task_state_scheme \<Rightarrow> task_pages list \<Rightarrow> bool" where
  "tasks_ok s ps \<longleftrightarrow> length (gdt s) = GDT_SIZE \<and> length ps \<le> 4
     \<and> task_id_counter s = of_nat (length ps + 1)
     \<and> distinct (concat (map pages_of ps)) \<and> set (concat (map pages_of ps)) \<subseteq> used_pages s
     \<and> (\<forall>n < length ps. task_linked s (n + 1) (ps ! n)) \<and> descriptors_typed (length ps) (gdt s)"

definition core_ok :: "image \<Rightarrow> 'a kernel_state_scheme \<Rightarrow> task_pages list
    \<Rightarrow> tptr list \<Rightarrow> tptr list \<Rightarrow> tptr list \<Rightarrow> bool" where
  "core_ok im s ps rs ws es \<longleftrightarrow> sched_inv s rs ws es \<and> tasks_ok s ps
     \<and> set (rs @ ws @ es) = task_at ` set ps \<and> descriptor_base (gdt s ! 3) = tss_loc im
     \<and> (\<exists>xs. kq_holds s xs)"

definition gates_ok :: "image \<Rightarrow> 'a kernel_state_scheme \<Rightarrow> bool" where
  "gates_ok im s \<longleftrightarrow> bit (cr0 s) 31
     \<and> (\<forall>v e. handler_for v = Some e \<longrightarrow> gate_of (idt s) v = gate_to v (entries im e))"

definition kernel_ok :: "image \<Rightarrow> 'a kernel_state_scheme \<Rightarrow> task_pages list
    \<Rightarrow> tptr list \<Rightarrow> tptr list \<Rightarrow> tptr list \<Rightarrow> bool" where
  "kernel_ok im s ps rs ws es \<longleftrightarrow> core_ok im s ps rs ws es \<and> gates_ok im s"

lemmas kernel_ok_defs = kernel_ok_def core_ok_def

section \<open>What scheduling leaves alone\<close>

text \<open>The part of a task that is written when it is started, and never again.\<close>

definition statics :: "'a sched_state_scheme \<Rightarrow> tptr \<Rightarrow> u8 list \<times> tss" where
  "statics s p = (context_switch_func (tasks s p), tss_of (tasks s p))"

definition tables :: "'a kernel_state_scheme \<Rightarrow> (nat \<Rightarrow> u8) \<times> segment_descriptor list \<times> u16 \<times> (nat \<Rightarrow> u32) \<times> u32" where
  "tables s = (heap_alloc_table s, gdt s, task_id_counter s, idt s, cr0 s)"

lemma statics_payloads: "statics s = (\<lambda>p. (context_switch_func (payloads s p), tss_of (payloads s p)))"
  by (simp add: statics_def payloads_def fun_eq_iff)

lemma statics_wake:
  assumes "payloads s' = update_view upd V (payloads s)"
    and "\<And>k. context_switch_func (upd k) = context_switch_func k \<and> tss_of (upd k) = tss_of k"
  shows "statics s' = statics s"
  using assms by (simp add: statics_payloads update_view_def fun_eq_iff)

lemma upd_statics:
  "context_switch_func (msec_upd k) = context_switch_func k \<and> tss_of (msec_upd k) = tss_of k"
  "context_switch_func (event_upd e k) = context_switch_func k \<and> tss_of (event_upd e k) = tss_of k"
  by (simp_all add: msec_upd_def event_upd_def)

lemma statics_tasks: "tasks s' = tasks s \<Longrightarrow> statics s' = statics s"
  by (simp add: statics_def fun_eq_iff)

lemma statics_schedule [simp]: "statics (schedule c s) = statics s"
  by (auto simp: statics_def schedule_def Let_def set_switched_def)

lemma statics_block:
  assumes "\<And>T p. context_switch_func (u T p) = context_switch_func (T p) \<and> tss_of (u T p) = tss_of (T p)"
  shows "statics (block_state c u s) = statics s"
proof -
  have "statics (snd (sched_runq_del c t)) = statics t" for t :: "'a sched_state_scheme"
    by (simp add: statics_payloads runq_del_payloads)
  then show ?thesis
    using assms by (simp add: block_state_def Let_def) (simp add: statics_def fun_eq_iff set_t_next_def)
qed

lemma statics_enq [simp]:
  "statics (snd (sched_wakeupq_enq t s)) = statics s" "statics (snd (sched_wakeupevq_enq t s)) = statics s"
  by (simp_all add: statics_payloads payloads_frame)

lemma tables_more: "sched_state.more s' = sched_state.more s \<Longrightarrow> tables s' = tables s"
  by (cases s; cases s') (simp add: tables_def)

section \<open>Every step keeps the invariant\<close>

lemma used_pages_tables: "tables s' = tables s \<Longrightarrow> used_pages s' = used_pages s"
  by (simp add: tables_def used_pages_def)

text \<open>Steps that move tasks between the queues.\<close>

lemma kernel_ok_sched:
  assumes ok: "kernel_ok im s ps rs ws es" and inv: "sched_inv s' rs' ws' es'"
    and "set (rs' @ ws' @ es') = set (rs @ ws @ es)" and st: "statics s' = statics s" and tb: "tables s' = tables s"
    and "kq_holds s' xs"
  shows "kernel_ok im s' ps rs' ws' es'"
proof -
  have "own_selector (tasks s' t) = own_selector (tasks s t)" "tss_of (tasks s' t) = tss_of (tasks s t)" for t
    using fun_cong [OF st, of t] by (simp_all add: statics_def own_selector_def)
  then have "tasks_ok s' ps"
    using ok tb used_pages_tables [OF tb]
    by (simp add: kernel_ok_defs tasks_ok_def task_linked_def tables_def)
  with assms show ?thesis unfolding kernel_ok_defs gates_ok_def tables_def by simp blast
qed

lemma timer_step:
  assumes "do_ir_timer s = Some s'" and ok: "kernel_ok im s ps rs ws es"
  shows "\<exists>rs' ws' es'. kernel_ok im s' ps rs' ws' es'"
proof -
  let ?s = "s\<lparr>global_counter := global_counter s + TIMER_TICK_MS\<rparr>"
  have inv: "sched_inv s rs ws es" using ok by (simp add: kernel_ok_defs)
  then have "sched_wf ?s rs ws es" by (simp add: sched_inv_def sched_wf_def)
  from update_wakeupq_spec [OF this] obtain r u where u: "sched_update_wakeupq ?s = Some (r, u)"
    and fr: "sched_frame u = sched_frame ?s"
    and pay: "payloads u = update_view msec_upd (visited msec_due (payloads ?s) ws) (payloads ?s)" by blast
  have s': "s' = schedule SCHED_CAUSE_TIMER u" using assms(1) u by (simp add: do_ir_timer_def)
  have m: "sched_state.more s' = sched_state.more ?s" using sched_frameD [OF fr] by (simp add: s')
  have "statics s' = statics ?s" using statics_wake [OF pay upd_statics(1)] by (simp add: s')
  moreover have "statics ?s = statics s" by (rule statics_tasks) simp
  moreover have "tables s' = tables ?s" by (rule tables_more [OF m])
  moreover have "tables ?s = tables s" by (simp add: tables_def)
  moreover have "keycode_queue s' = keycode_queue s" using more_queue [OF m] by simp
  then have "kq_holds s' xs \<longleftrightarrow> kq_holds s xs" for xs by (rule kq_holds_cong)
  moreover obtain ts where "sched_inv s' (rs @ woken msec_due (payloads s) ws) (still_waiting msec_due (payloads s) ws) es"
    using do_ir_timer_inv [OF inv] assms(1) by auto
  moreover have "set ((rs @ woken msec_due (payloads s) ws) @ still_waiting msec_due (payloads s) ws @ es) = set (rs @ ws @ es)"
    using set_woken_waiting [of msec_due "payloads s" ws] by auto
  ultimately show ?thesis using ok kernel_ok_sched [OF ok] unfolding kernel_ok_defs by metis
qed

lemma fetched_more: "con_state.more (fetched dev s) = con_state.more s"
proof -
  have "con_state.more (enqueue x s) = con_state.more s" for x and s :: "'a con_state_scheme"
  proof -
    have l: "con_state.more (snd (kern_lock s)) = con_state.more s" "con_state.more (kern_unlock b s) = con_state.more s"
      for b and s :: "'a con_state_scheme"
      by (simp_all add: kern_lock_def kern_unlock_def cli_def sti_def Let_def)
    show ?thesis by (simp add: enqueue_def Let_def split_beta l)
  qed
  then show ?thesis by (simp add: fetched_def Let_def split_beta) (simp add: inb_p_def Let_def)
qed

lemma tables_con: "con_state.more s' = con_state.more s \<Longrightarrow> tables s' = tables s"
  by (cases s; cases s') (simp add: tables_def)

lemma keyboard_step:
  assumes "do_ir_keyboard dev s = Some s'" and ok: "kernel_ok im s ps rs ws es"
  shows "\<exists>rs' ws' es'. kernel_ok im s' ps rs' ws' es'"
proof -
  let ?t = "fetched dev s" and ?woken = "woken (event_due EVENT_TYPE_KBD) (payloads s) es"
  have inv: "sched_inv s rs ws es" using ok by (simp add: kernel_ok_defs)
  then have "sched_inv ?t rs ws es" using sched_inv_cong [of ?t s] fetched_view by blast
  then have "sched_wf ?t rs ws es" by (simp add: sched_inv_def)
  from update_wakeupevq_spec [OF this, of EVENT_TYPE_KBD] obtain r u
    where u: "sched_update_wakeupevq EVENT_TYPE_KBD ?t = Some (r, u)" and fr: "sched_frame u = sched_frame ?t"
      and pay: "payloads u = update_view (event_upd EVENT_TYPE_KBD)
        (visited (event_due EVENT_TYPE_KBD) (payloads ?t) es) (payloads ?t)" by blast
  have s': "s' = outb_p (IOADR_MPIC_OCW2_BIT_MANUAL_EOI OR INTR_IR_KB) IOADR_MPIC_OCW2 u"
    using assms(1) u by (simp add: do_ir_keyboard_eq)
  have "statics s' = statics u" by (rule statics_tasks) (simp add: s' outb_p_def)
  also have "\<dots> = statics ?t" by (rule statics_wake [OF pay upd_statics(2)])
  also have "\<dots> = statics s" by (rule statics_tasks) (use fetched_view(1) [of dev s] in \<open>simp add: sched_view_def\<close>)
  finally have st: "statics s' = statics s" .
  have "tables s' = tables u" by (simp add: s' tables_def outb_p_def)
  also have "\<dots> = tables ?t" by (rule tables_more) (use sched_frameD [OF fr] in simp)
  also have "\<dots> = tables s" by (rule tables_con [OF fetched_more])
  finally have tb: "tables s' = tables s" .
  obtain xs where "kq_holds s xs" using ok by (auto simp: kernel_ok_defs)
  from do_ir_keyboard_spec [OF inv this, of dev] assms(1)
  obtain ys where "sched_inv s' (rs @ ?woken) ws (still_waiting (event_due EVENT_TYPE_KBD) (payloads s) es)"
    and "kq_holds s' ys" by auto
  moreover have "set ((rs @ ?woken) @ ws @ still_waiting (event_due EVENT_TYPE_KBD) (payloads s) es) = set (rs @ ws @ es)"
    using set_woken_waiting [of "event_due EVENT_TYPE_KBD" "payloads s" es] by auto
  ultimately show ?thesis using kernel_ok_sched [OF ok _ _ st tb] by blast
qed

text \<open>Blocking calls.\<close>

lemma setter_statics:
  "context_switch_func (set_msec c m T p) = context_switch_func (T p) \<and> tss_of (set_msec c m T p) = tss_of (T p)"
  "context_switch_func (set_event c e T p) = context_switch_func (T p) \<and> tss_of (set_event c e T p) = tss_of (T p)"
  by (simp_all add: set_msec_def set_event_def)

lemma lock_same: "tasks (snd (kern_lock s)) = tasks s" "sched_state.more (snd (kern_lock s)) = sched_state.more s"
  by (simp_all add: kern_lock_def Let_def cli_def)

lemma block_more_state: "sched_state.more (block_state c u s) = sched_state.more s"
  by (simp add: block_state_def Let_def runq_del_more)

lemma sleep_kept:
  assumes "wakeup_after_msec m s = Some (i, s')"
  shows "statics s' = statics s" "sched_state.more s' = sched_state.more s"
proof -
  obtain b s1 where L: "kern_lock s = (b, s1)" by fastforce
  have l: "statics s1 = statics s" "sched_state.more s1 = sched_state.more s"
    using statics_tasks [of "snd (kern_lock s)" s] lock_same [of s] by (simp_all add: L)
  from assms have s': "s' = schedule SCHED_CAUSE_SYSCALL
      ((snd (sched_wakeupq_enq (current_task s) (block_state (current_task s) (set_msec (current_task s) m) s1)))
        \<lparr>current_task := TDummy\<rparr>)" (is "_ = schedule _ (?t\<lparr>current_task := _\<rparr>)")
    by (auto simp: wakeup_after_msec_eq [OF L] split: if_splits)
  have "statics s' = statics ?t" unfolding s' statics_schedule by (rule statics_tasks) simp
  then show "statics s' = statics s" by (simp add: statics_block setter_statics l)
  show "sched_state.more s' = sched_state.more s"
    by (simp add: s' sched_wakeupq_enq_eq block_more_state l)
qed

lemma wait_kept:
  assumes "wakeup_after_event e s = Some (i, s')"
  shows "statics s' = statics s"
proof -
  obtain b s1 where L: "kern_lock s = (b, s1)" by fastforce
  have l: "statics s1 = statics s"
    using statics_tasks [of "snd (kern_lock s)" s] lock_same [of s] by (simp add: L)
  from assms have s': "s' = schedule SCHED_CAUSE_SYSCALL
      ((snd (sched_wakeupevq_enq (current_task s) (block_state (current_task s) (set_event (current_task s) e) s1)))
        \<lparr>current_task := TDummy\<rparr>)" (is "_ = schedule _ (?t\<lparr>current_task := _\<rparr>)")
    by (auto simp: wakeup_after_event_eq [OF L] split: if_splits)
  have "statics s' = statics ?t" unfolding s' statics_schedule by (rule statics_tasks) simp
  then show "statics s' = statics s" by (simp add: statics_block setter_statics l)
qed

lemma sleep_step:
  assumes w: "wakeup_after_msec m s = Some (i, s')" and ok: "kernel_ok im s ps rs ws es"
  shows "\<exists>rs' ws' es'. kernel_ok im s' ps rs' ws' es'"
proof -
  have inv: "sched_inv s rs ws es" using ok by (simp add: kernel_ok_defs)
  obtain a b where rs: "rs = a @ current_task s # b" by (rule block_member [OF inv blocked_current(1) [OF w]])
  have i: "sched_inv s' (a @ b) (ws @ [current_task s]) es"
    using wakeup_after_msec_spec [of s a "current_task s" b ws es m] inv w by (auto simp: rs)
  obtain xs where "kq_holds s xs" using ok by (auto simp: kernel_ok_defs)
  then have "kq_holds s' xs" using kq_holds_cong more_queue [OF sleep_kept(2) [OF w]] by blast
  from kernel_ok_sched [OF ok i _ sleep_kept(1) [OF w] tables_more [OF sleep_kept(2) [OF w]] this]
  show ?thesis by (auto simp: rs)
qed

lemma wait_step:
  assumes w: "wakeup_after_event e s = Some (i, s')" and ok: "kernel_ok im s ps rs ws es"
  shows "\<exists>rs' ws' es'. kernel_ok im s' ps rs' ws' es'"
proof -
  have inv: "sched_inv s rs ws es" using ok by (simp add: kernel_ok_defs)
  obtain a b where rs: "rs = a @ current_task s # b" by (rule block_member [OF inv blocked_current(2) [OF w]])
  have i: "sched_inv s' (a @ b) ws (es @ [current_task s])"
    using wakeup_after_event_spec [of s a "current_task s" b ws es e] inv w by (auto simp: rs)
  obtain xs where "kq_holds s xs" using ok by (auto simp: kernel_ok_defs)
  then have "kq_holds s' xs" using kq_holds_cong more_queue [OF block_more [OF w]] by blast
  from kernel_ok_sched [OF ok i _ wait_kept [OF w] tables_more [OF block_more [OF w]] this]
  show ?thesis by (auto simp: rs)
qed

text \<open>Steps that leave the scheduler alone.\<close>

lemma kernel_ok_same:
  assumes ok: "kernel_ok im s ps rs ws es" and "sched_view s' = sched_view s" and tb: "tables s' = tables s" and q: "kq_holds s' xs"
  shows "kernel_ok im s' ps rs ws es"
proof (rule kernel_ok_sched [OF ok _ refl _ tb q])
  show "sched_inv s' rs ws es" using assms(1) sched_inv_cong [OF assms(2)] by (simp add: kernel_ok_defs)
  show "statics s' = statics s" by (rule statics_tasks) (use assms(2) in \<open>simp add: sched_view_def\<close>)
qed

lemma kernel_ok_call:
  assumes ok: "kernel_ok im s ps rs ws es" and v: "call_view s' = call_view s"
  shows "kernel_ok im s' ps rs ws es"
proof -
  obtain xs where "kq_holds s xs" using ok by (auto simp: kernel_ok_defs)
  then have "kq_holds s' xs" using v by (simp add: call_view_def kq_holds_def)
  with kernel_ok_same [OF ok, of s' xs] v show ?thesis
    by (auto simp: call_view_def task_view_def tables_def)
qed

lemma unlock_call_view [simp]: "call_view (wakeup_resume i s) = call_view s"
  by (simp add: wakeup_resume_def)

text \<open>Starting a task.\<close>

lemma tasks_ok_in_pages:
  assumes "tasks_ok s ps" and "A = task_at ` set ps"
  shows "tasks_in_pages s A"
  unfolding tasks_in_pages_def assms(2)
proof (clarify)
  fix p assume "p \<in> set ps"
  then have "struct_page p \<in> set (concat (map pages_of ps))" by (auto simp: pages_of_def intro!: bexI [of _ p])
  then show "\<exists>i \<in> used_pages s. task_at p = THeap (page_addr i)" using assms(1) by (auto simp: tasks_ok_def task_at_def)
qed

lemma task_number:
  assumes "length ps \<le> 4" and "c = of_nat (length ps + 1)" and "c \<in> {0, 1, 2, 3, 4 :: u16}"
  shows "length ps < 4" "unat c = length ps + 1"
proof -
  show "unat c = length ps + 1" using assms(1,2) by (simp only: unat_of_nat) simp
  moreover have "unat c \<le> 4" using assms(3) by auto
  ultimately show "length ps < 4" by simp
qed

lemma typed_next:
  assumes "descriptors_typed n g" and "\<forall>i. i \<noteq> n + 4 \<longrightarrow> g' ! i = g ! i"
    and "sd_type (g' ! (n + 4)) = 9 \<and> sd_p (g' ! (n + 4)) = 1 \<and> sd_s (g' ! (n + 4)) = sd_s (g ! (n + 4))"
  shows "descriptors_typed (Suc n) g'"
  unfolding descriptors_typed_def
proof
  fix i
  show "if 3 \<le> i \<and> i \<le> Suc n + 3
     then sd_type (g' ! i) = 9 \<and> sd_p (g' ! i) = 1 \<and> sd_s (g' ! i) = sd_s (gdt_initial ! i)
     else g' ! i = gdt_initial ! i"
    using assms(1) [unfolded descriptors_typed_def, rule_format, of i] assms(2,3)
    by (cases "i = n + 4") (auto split: if_splits)
qed

lemma typed_start:
  assumes "is_tss (g ! 3)" and "\<forall>i. i \<noteq> 3 \<longrightarrow> g ! i = gdt_initial ! i"
  shows "descriptors_typed 0 g"
proof -
  have "sd_s (gdt_initial ! 3) = 0" by (simp add: gdt_initial_def descriptor_of_def)
  with assms show ?thesis by (auto simp: descriptors_typed_def is_tss_def dest: le_antisym)
qed

lemma tasks_ok_added:
  assumes ok: "tasks_ok s ps"
    and pages: "{i, j, k, l} \<subseteq> {..<MAX_HEAP_PAGES}" "distinct [i, j, k, l]"
      "{i, j, k, l} \<inter> used_pages s = {}" "used_pages s' = used_pages s \<union> {i, j, k, l}"
    and id: "task_id_counter s \<in> {0, 1, 2, 3, 4}" and inst: "task_installed s s' i k"
  shows "tasks_ok s' (ps @ [\<lparr>directory_page = i, table_page = j, struct_page = k, stack_page = l\<rparr>])"
    and "gdt s' ! 3 = gdt s ! 3"
proof -
  have T: "length ps \<le> 4" "task_id_counter s = of_nat (length ps + 1)"
    "distinct (concat (map pages_of ps))" "set (concat (map pages_of ps)) \<subseteq> used_pages s"
    "\<forall>n < length ps. task_linked s (n + 1) (ps ! n)" "descriptors_typed (length ps) (gdt s)"
    using ok by (simp_all add: tasks_ok_def)
  note n = task_number [OF T(1,2) id]
  note I = inst [unfolded task_installed_def Let_def n(2)]
  then show "gdt s' ! 3 = gdt s ! 3" by simp
  define p where "p = \<lparr>directory_page = i, table_page = j, struct_page = k, stack_page = l\<rparr>"
  have p: "task_at p = THeap (page_addr k)" "set (pages_of p) = {i, j, k, l}" "distinct (pages_of p)"
    using pages(2) by (auto simp: p_def task_at_def pages_of_def)
  have apart: "set (concat (map pages_of ps)) \<inter> set (pages_of p) = {}" using T(4) pages(3) p(2) by blast
  have "task_linked s' (length ps + 1) p"
    using I n T(2) by (simp add: task_linked_def p(1)) (simp add: p_def)
  moreover have "task_linked s' (m + 1) (ps ! m)" if m: "m < length ps" for m
  proof -
    have "struct_page (ps ! m) \<in> used_pages s" using T(4) nth_mem [OF m] by (fastforce simp: pages_of_def)
    then have "task_at (ps ! m) \<noteq> THeap (page_addr k)"
      using pages(1,3) page_addr_inj used_pages_bound by (auto simp: task_at_def)
    with I m T(5) show ?thesis by (simp add: task_linked_def)
  qed
  ultimately have "\<forall>m < length (ps @ [p]). task_linked s' (m + 1) ((ps @ [p]) ! m)"
    by (auto simp: nth_append less_Suc_eq)
  moreover have "distinct (concat (map pages_of (ps @ [p])))" using T(3) p(3) apart by simp
  moreover have "set (concat (map pages_of (ps @ [p]))) \<subseteq> used_pages s'" using T(4) pages(4) p(2) by auto
  moreover have "descriptors_typed (length (ps @ [p])) (gdt s')"
    using typed_next [of "length ps" "gdt s" "gdt s'"] T(6) I by (simp add: add.commute)
  ultimately show "tasks_ok s' (ps @ [\<lparr>directory_page = i, table_page = j, struct_page = k, stack_page = l\<rparr>])"
    using I n(1) T(2) by (simp add: tasks_ok_def flip: p_def)
qed

lemma exec_core:
  assumes init: "task_init d s = Some s'" and ok: "core_ok im s ps rs ws es"
  shows "\<exists>p. core_ok im s' (ps @ [p]) (rs @ [task_at p]) ws es \<and> idt s' = idt s \<and> cr0 s' = cr0 s"
proof -
  have T: "tasks_ok s ps" "length (gdt s) = GDT_SIZE" and inv: "sched_inv s rs ws es"
    and A: "set (rs @ ws @ es) = task_at ` set ps"
    using ok by (simp_all add: core_ok_def tasks_ok_def)
  have own: "tasks_in_pages s (set (rs @ ws @ es))"
    using ok by (intro tasks_ok_in_pages) (auto simp: core_ok_def)
  show ?thesis
  proof (rule task_init_pages [OF init T(2) inv own], goal_cases)
    case (1 i j k l)
    define p where "p = \<lparr>directory_page = i, table_page = j, struct_page = k, stack_page = l\<rparr>"
    have p: "task_at p = THeap (page_addr k)" by (simp add: p_def task_at_def)
    note new = tasks_ok_added [OF T(1) 1(1-4,6,7), folded p_def]
    obtain q h m g K where "s' = snd (sched_runq_enq q (s\<lparr>heap_alloc_table := h, mem := m,
        task_id_counter := task_id_counter s + 1, gdt := g, tasks := K\<rparr>))"
      using task_init_shape [OF init T(2)] by blast
    then have "keycode_queue s' = keycode_queue s" "idt s' = idt s" "cr0 s' = cr0 s"
      by (simp_all add: sched_runq_enq_eq)
    moreover have "set ((rs @ [task_at p]) @ ws @ es) = task_at ` set (ps @ [p])" using A by auto
    ultimately show ?case
      using ok 1(5) new by (intro exI [of _ p]) (simp add: core_ok_def p kq_holds_def)
  qed
qed

lemma exec_step:
  assumes "task_init d s = Some s'" and "kernel_ok im s ps rs ws es"
  shows "\<exists>p. kernel_ok im s' (ps @ [p]) (rs @ [task_at p]) ws es"
  using exec_core [OF assms(1), of im ps rs ws es] assms(2) by (auto simp: kernel_ok_def gates_ok_def)

text \<open>Reading a key.\<close>

lemma dequeued:
  assumes ok: "kernel_ok im s ps rs ws es"
  shows "kernel_ok im (snd (dequeue s)) ps rs ws es"
proof -
  obtain xs where "kq_holds s xs" using ok by (auto simp: kernel_ok_defs)
  from kq_get_ok [OF this] have "kq_holds (snd (dequeue s)) (snd (list_get xs))"
    by (simp add: kq_get_def split_beta Let_def)
  moreover have "con_state.more (snd (dequeue s)) = con_state.more s"
    by (simp add: dequeue_def Let_def split_beta) (simp add: kern_lock_def kern_unlock_def cli_def sti_def Let_def)
  ultimately show ?thesis by (intro kernel_ok_same [OF ok _ tables_con]) simp_all
qed

lemma read_step:
  assumes c: "get_keydata_step s = Some (r, s')" and ok: "kernel_ok im s ps rs ws es"
  shows "\<exists>rs' ws' es'. kernel_ok im s' ps rs' ws' es'"
proof -
  obtain b s1 where L: "kern_lock s = (b, s1)" by fastforce
  have "call_view s1 = call_view s" using call_view_lock(1) [of s] by (simp add: L)
  then have "kernel_ok im s1 ps rs ws es" by (rule kernel_ok_call [OF ok])
  from dequeued [OF this] have u: "kernel_ok im (kern_unlock b (snd (dequeue s1))) ps rs ws es"
    by (rule kernel_ok_call) simp
  with c wait_step [OF _ u, of EVENT_TYPE_KBD] show ?thesis
    by (auto simp: get_keydata_step_def L Let_def split_beta split: if_splits)
qed

text \<open>A line, up to its end or to the next read that blocks.\<close>

lemma queue_kept_ok:
  assumes "queue_kept s u" and ok: "kernel_ok im s ps rs ws es"
  shows "kernel_ok im u ps rs ws es"
proof -
  obtain xs where "kq_holds s xs" using ok by (auto simp: kernel_ok_defs)
  then obtain ys where q: "kq_holds u ys" using assms(1) by (auto simp: queue_kept_def)
  from assms(1) have v: "sched_view u = sched_view s" and m: "con_state.more u = con_state.more s"
    by (simp_all add: queue_kept_def line_frame_def)
  show ?thesis by (rule kernel_ok_same [OF ok v tables_con [OF m] q])
qed

lemma line_step:
  assumes "get_line_run buf n i s = Some (l, s')" and ok: "kernel_ok im s ps rs ws es"
  shows "\<exists>rs' ws' es'. kernel_ok im s' ps rs' ws' es'"
proof (cases l)
  case (Line v)
  with line.run_kept [OF assms(1)] have "queue_kept s s'" by (simp add: line.line_kept_def)
  from queue_kept_ok [OF this ok] show ?thesis by blast
next
  case (Waiting b j)
  with line.run_kept [OF assms(1)] obtain u where "queue_kept s u" and u: "get_keydata_step u = Some (Blocked b, s')"
    by (auto simp: line.line_kept_def)
  from read_step [OF u queue_kept_ok [OF this(1) ok]] show ?thesis .
qed

lemma syscall_step:
  assumes c: "do_syscall addr n arg1 arg2 arg3 s = Some (r, s')" and ok: "kernel_ok im s ps rs ws es"
  shows "\<exists>ps' rs' ws' es'. kernel_ok im s' ps' rs' ws' es'"
  using c
proof (cases rule: do_syscall_cases)
  case (sleep i)
  with sleep_step [OF _ ok] show ?thesis by blast
next
  case (exec d)
  with exec_step [OF _ ok] show ?thesis by blast
next
  case (line l)
  with line_step [OF _ ok] show ?thesis by blast
next
  case (plain v)
  with kernel_ok_call [OF ok] show ?thesis by blast
qed

text \<open>Allocations.\<close>

lemma alloc_step:
  assumes c: "kmalloc n s = Done p s'" and ok: "kernel_ok im s ps rs ws es"
  shows "kernel_ok im s' ps rs ws es"
proof -
  have "\<exists>h a b. s' = s\<lparr>heap_alloc_table := h, sTopAddr := a, sTotalSize := b\<rparr>
      \<and> (\<forall>i. heap_alloc_table s i \<noteq> 0 \<longrightarrow> h i \<noteq> 0)"
  proof (cases s rule: mem_alloc_cases)
    case full
    then have "s' = s\<lparr>heap_alloc_table := heap_alloc_table s, sTopAddr := sTopAddr s, sTotalSize := sTotalSize s + n\<rparr>"
      using c by (simp add: kmalloc_def Let_def split: if_splits)
    then show ?thesis by blast
  next
    case (page i)
    let ?h = "if sTopAddr s = 0 then (heap_alloc_table s)(i := 1) else heap_alloc_table s"
    have "s' = s\<lparr>heap_alloc_table := ?h, sTopAddr := (if sTopAddr s = 0 then page_addr i else sTopAddr s),
        sTotalSize := sTotalSize s + n\<rparr>"
      using c page by (cases "sTopAddr s = 0") (simp_all add: kmalloc_def Let_def split: if_splits)
    moreover have "\<forall>j. heap_alloc_table s j \<noteq> 0 \<longrightarrow> ?h j \<noteq> 0" by simp
    ultimately show ?thesis by blast
  qed
  then obtain h a b where s': "s' = s\<lparr>heap_alloc_table := h, sTopAddr := a, sTotalSize := b\<rparr>"
    and h: "\<forall>i. heap_alloc_table s i \<noteq> 0 \<longrightarrow> h i \<noteq> 0" by blast
  have "used_pages s \<subseteq> used_pages s'" using h by (auto simp: used_pages_def s')
  then have "tasks_ok s' ps" using ok by (auto simp: kernel_ok_defs tasks_ok_def task_linked_def s')
  moreover have "sched_inv s' rs ws es \<longleftrightarrow> sched_inv s rs ws es"
    by (rule sched_inv_cong) (simp_all add: s' sched_view_def)
  ultimately show ?thesis using ok by (simp add: kernel_ok_defs gates_ok_def kq_holds_def s')
qed

lemma step_ok:
  assumes "kern_step dev addr s s'" and ok: "kernel_ok im s ps rs ws es"
  shows "\<exists>ps' rs' ws' es'. kernel_ok im s' ps' rs' ws' es'"
  using assms(1)
proof cases
  case timer
  with timer_step [OF _ ok] show ?thesis by blast
next
  case keyboard
  with keyboard_step [OF _ ok] show ?thesis by blast
next
  case syscall
  with syscall_step [OF _ ok] show ?thesis by blast
next
  case (resume_line buf n if_bit i l)
  have "kernel_ok im (wakeup_resume if_bit s) ps rs ws es" by (rule kernel_ok_call [OF ok]) simp
  with line_step [OF resume_line(2) [unfolded get_line_resume_def]] show ?thesis by blast
next
  case read_key
  with read_step [OF _ ok] show ?thesis by blast
next
  case (boot_alloc n p)
  with alloc_step [OF _ ok] show ?thesis by blast
qed (use kernel_ok_call [OF ok, of s'] in auto)

section \<open>Booting\<close>

lemma core_ok_view:
  assumes "core_ok im s ps rs ws es" and v: "task_view s' = task_view s" and "keycode_queue s' = keycode_queue s"
  shows "core_ok im s' ps rs ws es"
proof -
  have "sched_inv s' rs ws es" using assms sched_inv_cong [of s' s] by (simp add: core_ok_def task_view_def)
  moreover have "tasks_ok s' ps"
    using assms by (simp add: core_ok_def task_view_def sched_view_def tasks_ok_def task_linked_def used_pages_def)
  ultimately show ?thesis using assms by (simp add: core_ok_def task_view_def kq_holds_def)
qed

lemma task_view_interrupts: "task_view (setup_interrupts dev im s) = task_view s"
proof -
  have "task_view (sti u) = task_view u" "task_view (snd (inb_p d p u)) = task_view u" "task_view (s\<lparr>cr0 := c\<rparr>) = task_view s"
    for u :: "'a kernel_state_scheme" and d p c
    by (simp_all add: sti_def inb_p_def task_view_def sched_view_def Let_def)
  then show ?thesis
    by (simp add: setup_interrupts_def intr_init_def intr_get_mask_master_def intr_set_mask_master_def Let_def split_beta)
qed

lemma handled_gates:
  assumes "idt u = idt (setup_tables im s)" and "handler_for v = Some e"
  shows "gate_of (idt (setup_interrupts dev im u)) v = gate_to v (entries im e)"
  using assms by (auto simp: interrupts_facts(10) gates_after_tables handler_for_def split: if_splits)

lemma boot_ok:
  assumes s: "before_init s" and run: "kern_init_setup dev im s = Some s'"
  shows "\<exists>p. kernel_ok im s' [p] [task_at p] [] []"
proof (rule kern_task_started [OF s, of im], goal_cases)
  case (1 t)
  have "descriptors_typed 0 (gdt t)" using 1(15,16) by (rule typed_start)
  with 1 have "core_ok im t [] [] [] []" by (auto simp: core_ok_def tasks_ok_def)
  obtain u where u: "task_init (data_base_addr (files t) FShell) t = Some u" "s' = setup_interrupts dev im u"
    using run 1(1) by (auto simp: kern_init_setup_eq)
  from exec_core [OF u(1) \<open>core_ok im t [] [] [] []\<close>] obtain p
    where p: "core_ok im u [p] [task_at p] [] []" and i: "idt u = idt t" "cr0 u = cr0 t" by auto
  have "core_ok im s' [p] [task_at p] [] []"
    using core_ok_view [OF p task_view_interrupts] by (simp add: u(2) interrupts_facts(4))
  moreover have "gates_ok im s'"
    using handled_gates [of u im s] i 1(14)
    by (simp add: gates_ok_def u(2) interrupts_facts(7) bit_simps)
  ultimately show ?case by (auto simp: kernel_ok_def)
qed

lemma reach_ok: "kern_reach dev im addr s \<Longrightarrow> \<exists>ps rs ws es. kernel_ok im s ps rs ws es"
proof (induction rule: kern_reach.induct)
  case (boot s s')
  with boot_ok show ?case by blast
next
  case (step s s')
  with step_ok show ?case by blast
qed

section \<open>The descriptor table\<close>

lemma initial_bits:
  "is_tss (gdt_initial ! i) \<longleftrightarrow> False" "sd_s (gdt_initial ! i) = (if i \<in> {1, 2, 6, 7} then 1 else 0)"
  "sd_type (gdt_initial ! i) \<noteq> 9" if "i < 8"
proof -
  have "i = 0 \<or> i = 1 \<or> i = 2 \<or> i = 3 \<or> i = 4 \<or> i = 5 \<or> i = 6 \<or> i = 7" using that by arith
  then show "sd_type (gdt_initial ! i) \<noteq> 9" by (elim disjE) (simp_all add: gdt_initial_def descriptor_of_def)
  then show "is_tss (gdt_initial ! i) \<longleftrightarrow> False" by (simp add: is_tss_def)
  from \<open>i = 0 \<or> _\<close> show "sd_s (gdt_initial ! i) = (if i \<in> {1, 2, 6, 7} then 1 else 0)"
    by (elim disjE) (simp_all add: gdt_initial_def descriptor_of_def)
qed

lemma typed_tss:
  assumes "descriptors_typed n g" and "i < 8"
  shows "is_tss (g ! i) \<longleftrightarrow> 3 \<le> i \<and> i \<le> n + 3 \<and> i < 6"
proof (cases "3 \<le> i \<and> i \<le> n + 3")
  case True
  with assms(1) have "is_tss (g ! i) \<longleftrightarrow> sd_s (gdt_initial ! i) = 0" by (simp add: descriptors_typed_def is_tss_def)
  also have "\<dots> \<longleftrightarrow> i < 6" using True assms(2) by (simp add: initial_bits(2))
  finally show ?thesis using True by simp
next
  case False
  with assms(1) have "g ! i = gdt_initial ! i" by (auto simp: descriptors_typed_def)
  with False initial_bits(1) [OF assms(2)] show ?thesis by auto
qed

lemma typed_user_segments:
  assumes "descriptors_typed n g"
  shows "g ! 6 = gdt_initial ! 6 \<and> g ! 7 = gdt_initial ! 7 \<longleftrightarrow> n \<le> 2"
proof (cases "n \<le> 2")
  case False
  then have "sd_type (g ! 6) = 9" using assms [unfolded descriptors_typed_def, rule_format, of 6] by simp
  with False initial_bits(3) [of 6] show ?thesis by auto
next
  case True
  then show ?thesis
    using assms [unfolded descriptors_typed_def, rule_format, of 6] assms [unfolded descriptors_typed_def, rule_format, of 7]
    by simp
qed

section \<open>The running task\<close>

text \<open>The state segment the processor runs on: the base of the descriptor its task register selects.\<close>

definition running_segment :: "'a task_state_scheme \<Rightarrow> u32" where
  "running_segment s = descriptor_base (gdt s ! (unat (tr s) div 8))"

lemma selector_index: "n < 8 \<Longrightarrow> unat (8 * (of_nat n + 3 :: u16)) div 8 = n + 3"
proof -
  assume "n < 8"
  have "8 * (of_nat n + 3 :: u16) = of_nat (8 * (n + 3))" by simp
  then have "unat (8 * (of_nat n + 3 :: u16)) = 8 * (n + 3)" using \<open>n < 8\<close> by (simp only: unat_of_nat) simp
  then show ?thesis by simp
qed

lemma running_task:
  assumes ok: "kernel_ok im s ps rs ws es"
  shows "if current_task s = TNull then tr s = 0x18 \<and> running_segment s = tss_loc im
    else \<exists>p \<in> set ps. 4 \<le> unat (tr s) div 8 \<and> unat (tr s) div 8 \<le> length ps + 3 \<and> current_task s = task_at p \<and> running_segment s = tss_addr (page_addr (struct_page p))
      \<and> tss_cr3 (tss_of (tasks s (current_task s))) = page_addr (directory_page p) OR 0x18"
proof (cases "current_task s = TNull")
  case True
  then have "tr s = 0x18" using ok by (simp add: kernel_ok_defs sched_inv_def running_ok_def current_selector_def)
  with True ok show ?thesis by (simp add: running_segment_def kernel_ok_defs)
next
  case False
  with ok have c: "current_task s \<in> set rs" "tr s = own_selector (tasks s (current_task s))"
    by (auto simp: kernel_ok_defs sched_inv_def running_ok_def current_selector_def)
  then obtain p where p: "p \<in> set ps" "current_task s = task_at p" using ok by (force simp: kernel_ok_defs)
  then obtain n where n: "n < length ps" "p = ps ! n" by (metis in_set_conv_nth)
  then have l: "task_linked s (n + 1) p" "n + 1 < 8" using ok by (auto simp: kernel_ok_defs tasks_ok_def)
  then have "unat (tr s) div 8 = n + 4"
    using selector_index [of "n + 1"] by (simp add: c(2) p(2) task_linked_def)
  with False l p n(1) show ?thesis
    by (intro iffD2 [OF if_not_P] bexI [of _ p]) (auto simp: running_segment_def task_linked_def add.commute)
qed

text \<open>
  At most one jump per step. The jump a step makes, if any, is to what the task register holds after
  it; a call through a null pointer is the third possibility, which the invariant excludes.
\<close>

definition one_jump :: "'a machine_scheme \<Rightarrow> 'a machine_scheme \<Rightarrow> bool" where
  "one_jump s s' \<longleftrightarrow> switches (trace s') \<in>
     {switches (trace s), Ljmp (tr s') # switches (trace s), NullCall # switches (trace s)}"

lemma one_jump_none: "switches (trace s') = switches (trace s) \<Longrightarrow> one_jump s s'"
  by (simp add: one_jump_def)

lemma one_jump_after: "switches (trace u) = switches (trace s) \<Longrightarrow> one_jump u s' \<Longrightarrow> one_jump s s'"
  by (simp add: one_jump_def)

lemma run_context_switch_jump: "one_jump s (run_context_switch t s)"
  by (simp add: one_jump_def run_context_switch_def ljmp_tss_def split: ctx_fn.split)

lemma schedule_jump: "one_jump s (schedule c s)"
proof -
  have e: "one_jump u (enter c t u)" for t and u :: "'a sched_state_scheme"
    unfolding enter_def Let_def
    by (rule one_jump_after [OF _ run_context_switch_jump]) simp
  have k: "one_jump u (run_context_switch t (timer_eoi (u\<lparr>current_task := p\<rparr>)))" for t p and u :: "'a sched_state_scheme"
    by (rule one_jump_after [OF _ run_context_switch_jump]) simp
  have l: "switches (trace (leave s)) = switches (trace s)" by simp
  show ?thesis
    by (auto simp: schedule_eq intro: one_jump_after [OF l e] one_jump_after [OF l k] one_jump_none)
qed

lemma block_trace: "trace (block_state c u s) = trace s"
proof -
  have "trace (snd (sched_runq_del c t)) = trace t" for c and t :: "'a sched_state_scheme"
  proof (cases "q_head (run_queue t) = TNull")
    case True
    then show ?thesis by (simp add: sched_runq_del_def)
  qed (use sched_frameD [OF sched_frame_del(1)] in blast)
  then show ?thesis by (simp add: block_state_def Let_def)
qed

lemma blocking_jump:
  "wakeup_after_msec m s = Some (i, s') \<Longrightarrow> one_jump s s'"
  "wakeup_after_event e s = Some (i, s') \<Longrightarrow> one_jump s s'"
proof -
  obtain b s1 where L: "kern_lock s = (b, s1)" by fastforce
  have s1: "trace s1 = trace s" using kern_lock_frame(3) [of s] by (simp add: L)
  have j: "one_jump s (schedule SCHED_CAUSE_SYSCALL (t\<lparr>current_task := TDummy\<rparr>))" if "trace t = trace s1"
    for t :: "'a sched_state_scheme"
    by (rule one_jump_after [OF _ schedule_jump]) (simp add: that s1)
  have e: "trace (snd (sched_wakeupq_enq t u)) = trace u" "trace (snd (sched_wakeupevq_enq t u)) = trace u"
    for t and u :: "'a sched_state_scheme"
    using sched_frameD [OF sched_frame_enq(2)] sched_frameD [OF sched_frame_enq(3)] by blast+
  show "wakeup_after_msec m s = Some (i, s') \<Longrightarrow> one_jump s s'"
    by (auto simp: wakeup_after_msec_eq [OF L] e block_trace intro!: j split: if_splits)
  show "wakeup_after_event e s = Some (i, s') \<Longrightarrow> one_jump s s'"
    by (auto simp: wakeup_after_event_eq [OF L] e block_trace intro!: j split: if_splits)
qed

lemma read_jump:
  assumes "get_keydata_step s = Some (r, s')"
  shows "one_jump s s'"
proof -
  obtain b s1 where L: "kern_lock s = (b, s1)" by fastforce
  let ?u = "kern_unlock b (snd (dequeue s1))"
  have u: "switches (trace ?u) = switches (trace s)" using kern_lock_frame(3) [of s] by (simp add: L)
  from assms have "s' = ?u \<or> (\<exists>i. wakeup_after_event EVENT_TYPE_KBD ?u = Some (i, s'))"
    by (auto simp: get_keydata_step_def L Let_def split_beta split: if_splits)
  with u show ?thesis using one_jump_none one_jump_after [OF u blocking_jump(2)] by blast
qed

lemma line_jump:
  assumes "get_line_run buf n i s = Some (l, s')"
  shows "one_jump s s'"
proof -
  have k: "queue_kept s u \<Longrightarrow> switches (trace u) = switches (trace s)" for u
    by (simp add: queue_kept_def line_frame_def sched_view_def)
  show ?thesis
  proof (cases l)
    case (Line v)
    with line.run_kept [OF assms] k show ?thesis by (simp add: line.line_kept_def one_jump_none)
  next
    case (Waiting b j)
    with line.run_kept [OF assms] obtain u where "queue_kept s u" "get_keydata_step u = Some (Blocked b, s')"
      by (auto simp: line.line_kept_def)
    with k read_jump show ?thesis using one_jump_after by blast
  qed
qed

lemma call_view_jump: "call_view s' = call_view s \<Longrightarrow> one_jump s s'"
  by (rule one_jump_none) (simp add: call_view_def task_view_def sched_view_def)

lemma syscall_jump:
  assumes "do_syscall addr n arg1 arg2 arg3 s = Some (r, s')" and "length (gdt s) = GDT_SIZE"
  shows "one_jump s s'"
  using assms(1)
proof (cases rule: do_syscall_cases)
  case (sleep i)
  then show ?thesis by (blast intro: blocking_jump)
next
  case (exec d)
  obtain p h m g T where "s' = snd (sched_runq_enq p (s\<lparr>heap_alloc_table := h, mem := m,
      task_id_counter := task_id_counter s + 1, gdt := g, tasks := T\<rparr>))"
    using task_init_shape [OF exec(2) assms(2)] by blast
  then show ?thesis by (intro one_jump_none) (simp add: sched_runq_enq_eq)
next
  case (line l)
  then show ?thesis by (blast intro: line_jump)
next
  case (plain v)
  then show ?thesis by (blast intro: call_view_jump)
qed

lemma step_jump:
  assumes "kern_step dev addr s s'" and ok: "kernel_ok im s ps rs ws es"
  shows "one_jump s s'"
  using assms(1)
proof cases
  case timer
  let ?s = "s\<lparr>global_counter := global_counter s + TIMER_TICK_MS\<rparr>"
  have "sched_wf ?s rs ws es" using ok by (simp add: kernel_ok_defs sched_inv_def sched_wf_def)
  from update_wakeupq_spec [OF this] obtain r u where u: "sched_update_wakeupq ?s = Some (r, u)"
    and fr: "sched_frame u = sched_frame ?s" by blast
  then have "s' = schedule SCHED_CAUSE_TIMER u" using timer by (simp add: do_ir_timer_def)
  moreover have "trace u = trace s" using sched_frameD [OF fr] by simp
  then have "one_jump s (schedule SCHED_CAUSE_TIMER u)" by (intro one_jump_after [OF _ schedule_jump]) simp
  ultimately show ?thesis by simp
next
  case keyboard
  have "sched_inv (fetched dev s) rs ws es"
    using ok sched_inv_cong [of "fetched dev s" s] fetched_view [of dev s] by (simp add: kernel_ok_defs)
  then have "sched_wf (fetched dev s) rs ws es" by (simp add: sched_inv_def)
  from update_wakeupevq_spec [OF this, of EVENT_TYPE_KBD] obtain r u
    where u: "sched_update_wakeupevq EVENT_TYPE_KBD (fetched dev s) = Some (r, u)"
      and fr: "sched_frame u = sched_frame (fetched dev s)" by blast
  have "switches (trace s') = switches (trace u)"
    using keyboard u by (auto simp: do_ir_keyboard_eq outb_p_def)
  also have "\<dots> = switches (trace s)"
    using sched_frameD [OF fr] fetched_view [of dev s] by (simp add: sched_view_def)
  finally show ?thesis by (rule one_jump_none)
next
  case (syscall n arg1 arg2 arg3 r)
  with ok show ?thesis by (intro syscall_jump) (auto simp: kernel_ok_defs tasks_ok_def)
next
  case (resume_line buf n if_bit i l)
  from line_jump [OF resume_line(2) [unfolded get_line_resume_def]] show ?thesis
    by (rule one_jump_after [rotated]) (simp add: wakeup_resume_def)
next
  case read_key
  then show ?thesis by (blast intro: read_jump)
next
  case (boot_alloc n p)
  then have "trace s' = trace s" by (blast intro: kmalloc_trace)
  then show ?thesis by (intro one_jump_none) simp
qed (rule call_view_jump; simp)+

lemma small_count: "n \<le> 4 \<Longrightarrow> (of_nat (n + 1) :: u16) \<le> 3 \<longleftrightarrow> n \<le> 2"
proof -
  assume "n \<le> 4"
  then have "n = 0 \<or> n = 1 \<or> n = 2 \<or> n = 3 \<or> n = 4" by arith
  then show ?thesis by (elim disjE) simp_all
qed

lemma few_programs:
  assumes "kernel_ok im s ps rs ws es"
  shows "task_id_counter s \<le> 3 \<longleftrightarrow> length ps \<le> 2"
  using assms small_count [of "length ps"] by (simp add: kernel_ok_defs tasks_ok_def)

lemma two_programs_tss:
  assumes ok: "kernel_ok im s ps rs ws es" and few: "task_id_counter s \<le> 3"
  shows "is_tss (gdt s ! (unat (tr s) div 8))"
proof -
  have n: "length ps \<le> 2" using few_programs [OF ok] few by simp
  have "3 \<le> unat (tr s) div 8 \<and> unat (tr s) div 8 \<le> length ps + 3"
    using running_task [OF ok] by (auto split: if_splits)
  moreover have "descriptors_typed (length ps) (gdt s)" using ok by (simp add: kernel_ok_defs tasks_ok_def)
  ultimately show ?thesis using typed_tss [of "length ps" "gdt s" "unat (tr s) div 8"] n by simp
qed

lemma interrupts_return:
  assumes ok: "kernel_ok im s ps rs ws es"
  shows "\<exists>s'. do_ir_timer s = Some s'" "\<exists>s'. do_ir_keyboard dev s = Some s'"
proof -
  have inv: "sched_inv s rs ws es" using ok by (simp add: kernel_ok_defs)
  obtain xs where "kq_holds s xs" using ok by (auto simp: kernel_ok_defs)
  with do_ir_timer_inv [OF inv] do_ir_keyboard_spec [OF inv, of xs dev]
  show "\<exists>s'. do_ir_timer s = Some s'" "\<exists>s'. do_ir_keyboard dev s = Some s'" by blast+
qed

section \<open>Properties\<close>

text \<open>
  C1. The kernel's invariant. Whatever happens after the boot (timer and keyboard interrupts, system
  calls with any arguments, reads of keys, tasks that come back from sleeping, programs writing any
  memory of theirs, allocations of the kernel task, in any order), every started task is in exactly one
  queue; there are at most four, each with four pages of its own that are marked as used; their switch
  codes and state segments are linked through the descriptor table; the key buffer is well-formed; the
  gates lead to the handlers; paging is on. Both interrupt handlers return from every such state.
\<close>

theorem kernel_invariant:
  assumes "kern_reach dev im addr s"
  shows "(\<exists>ps rs ws es. kernel_ok im s ps rs ws es)
    \<and> (\<exists>s'. do_ir_timer s = Some s') \<and> (\<exists>s'. do_ir_keyboard dev s = Some s')"
  using reach_ok [OF assms] interrupts_return by blast

text \<open>
  C2. Whose code runs. In every state reachable from the boot the current task, if there is one, is a
  started one whose state segment loads its own page directory, and the pages of two tasks are never
  the same, so that no task runs on the stack or the tables of another. While at most two programs have
  been started, the task register selects a task state segment, that of \<^verbatim>\<open>current_task\<close> (of the kernel
  task, when there is none); and whatever the kernel does next makes at most one jump, to what the task
  register then selects, which is a task state segment again: every jump is a task switch of the
  processor. (The third and the fourth program have no such segment, see the property on the descriptor types.)
\<close>

theorem running_task_is_current:
  assumes "kern_reach dev im addr s"
  shows "\<exists>ps. task_id_counter s = of_nat (length ps + 1) \<and> length ps \<le> 4
    \<and> distinct (concat (map pages_of ps)) \<and> set (concat (map pages_of ps)) \<subseteq> used_pages s
    \<and> (current_task s = TNull \<or> (\<exists>p \<in> set ps. current_task s = task_at p
        \<and> tss_cr3 (tss_of (tasks s (current_task s))) = page_addr (directory_page p) OR 0x18))
    \<and> (length ps \<le> 2 \<longrightarrow> is_tss (gdt s ! (unat (tr s) div 8))
        \<and> (if current_task s = TNull then running_segment s = tss_loc im
           else \<exists>p \<in> set ps. current_task s = task_at p \<and> running_segment s = tss_addr (page_addr (struct_page p))))
    \<and> (\<forall>s'. kern_step dev addr s s' \<longrightarrow> switches (trace s') = switches (trace s)
        \<or> switches (trace s') = Ljmp (tr s') # switches (trace s)
          \<and> (task_id_counter s' \<le> 3 \<longrightarrow> is_tss (gdt s' ! (unat (tr s') div 8))))"
proof -
  obtain ps rs ws es where ok: "kernel_ok im s ps rs ws es" using reach_ok [OF assms] by blast
  note r = running_task [OF ok]
  have jump: "switches (trace s') = switches (trace s) \<or> switches (trace s') = Ljmp (tr s') # switches (trace s)
      \<and> (task_id_counter s' \<le> 3 \<longrightarrow> is_tss (gdt s' ! (unat (tr s') div 8)))"
    if st: "kern_step dev addr s s'" for s'
  proof -
    obtain ps' rs' ws' es' where ok': "kernel_ok im s' ps' rs' ws' es'" using step_ok [OF st ok] by blast
    then have "NullCall \<notin> set (switches (trace s'))"
      by (simp add: NullCall_switches kernel_ok_defs sched_inv_def ctx_ok_def)
    with step_jump [OF st ok] two_programs_tss [OF ok'] show ?thesis by (auto simp: one_jump_def)
  qed
  have "length ps \<le> 2 \<Longrightarrow> is_tss (gdt s ! (unat (tr s) div 8))"
    using two_programs_tss [OF ok] few_programs [OF ok] by simp
  with ok r jump show ?thesis
    by (intro exI [of _ ps]) (auto simp: kernel_ok_defs tasks_ok_def split: if_splits)
qed

text \<open>
  C16. The types of the descriptors. In every reachable state the kernel's segments are those of the
  initial table, entry 3 and the entries 4 and 5 of the first two tasks are available task state
  segments, present from the moment the task is started, and nothing else is. A third and a fourth task
  get the entries 6 and 7: they overwrite the code and data segment of all user programs, and their
  entries keep the S bit, so that the processor does not take them for state segments.
\<close>

theorem descriptor_table_typed:
  assumes "kern_reach dev im addr s"
  shows "\<exists>n \<le> 4. task_id_counter s = of_nat n + 1 \<and> length (gdt s) = GDT_SIZE
    \<and> (\<forall>i < 3. gdt s ! i = gdt_initial ! i)
    \<and> (\<forall>i < GDT_SIZE. is_tss (gdt s ! i) \<longleftrightarrow> 3 \<le> i \<and> i \<le> n + 3 \<and> i < 6)
    \<and> (gdt s ! 6 = gdt_initial ! 6 \<and> gdt s ! 7 = gdt_initial ! 7 \<longleftrightarrow> n \<le> 2)"
proof -
  obtain ps rs ws es where "kernel_ok im s ps rs ws es" using reach_ok [OF assms] by blast
  then have t: "descriptors_typed (length ps) (gdt s)" "length ps \<le> 4" "length (gdt s) = GDT_SIZE"
    "task_id_counter s = of_nat (length ps + 1)" by (simp_all add: kernel_ok_defs tasks_ok_def)
  have "\<forall>i < 3. gdt s ! i = gdt_initial ! i" using t(1) by (auto simp: descriptors_typed_def)
  moreover have "\<forall>i < GDT_SIZE. is_tss (gdt s ! i) \<longleftrightarrow> 3 \<le> i \<and> i \<le> length ps + 3 \<and> i < 6"
    using typed_tss [OF t(1)] by (simp add: GDT_SIZE_def)
  ultimately show ?thesis
    using t(2-4) typed_user_segments [OF t(1)] by (intro exI [of _ "length ps"]) (simp add: add.commute)
qed

text \<open>The boot, and the first tick after it.\<close>

lemma setup_ends:
  assumes "before_init s"
  shows "\<exists>s'. kern_init_setup dev im s = Some s'"
proof (rule kern_task_started [OF assms, of im], goal_cases)
  case (1 t)
  then have "task_init 0x00012020 t \<noteq> None"
    using task_init_fails [of t "0x00012020"] by (simp add: MAX_HEAP_PAGES_def)
  with 1 show ?case by (auto simp: kern_init_setup_eq)
qed

lemma first_task_runs:
  assumes ok: "kernel_ok im s ps rs [] es" and "rs \<noteq> []" "current_task s = TNull" and t: "do_ir_timer s = Some s'"
  shows "current_task s' \<noteq> TNull"
proof -
  let ?s = "s\<lparr>global_counter := global_counter s + TIMER_TICK_MS\<rparr>"
  have wf: "sched_wf ?s rs [] es" using ok by (simp add: kernel_ok_defs sched_inv_def sched_wf_def)
  from update_wakeupq_spec [OF this] obtain r u where u: "sched_update_wakeupq ?s = Some (r, u)"
    "sched_wf u (rs @ woken msec_due (payloads ?s) []) (still_waiting msec_due (payloads ?s) []) es"
    "sched_frame u = sched_frame ?s" by blast
  have s': "s' = schedule SCHED_CAUSE_TIMER u" using t u(1) by (simp add: do_ir_timer_def)
  have c: "current_task u = TNull" using sched_frameD [OF u(3)] assms(3) by simp
  have "current_task s' = next_task SCHED_CAUSE_TIMER u (rs @ woken msec_due (payloads ?s) [])"
    unfolding s' by (rule schedule_current [OF u(2)])
  also have "\<dots> = hd rs" using assms(2) by (simp add: next_task_def c)
  finally show ?thesis using sched_wf_run_head [OF wf] assms(2) by (cases rs) auto
qed

lemma program_reached: "\<exists>s. kern_reach demo_drive demo_entries (\<lambda>_. 0) (s :: kernel_state)
  \<and> current_task s \<noteq> TNull \<and> task_id_counter s \<le> 3"
proof -
  obtain s :: kernel_state where "kern_init_setup demo_drive demo_entries boot_kernel = Some s"
    using setup_ends [OF boot_kernel_ready] by blast
  then have s: "kern_reach demo_drive demo_entries (\<lambda>_. 0) s"
    and "\<exists>p. kernel_ok demo_entries s [p] [task_at p] [] []"
    using kern_reach.boot [OF boot_kernel_ready] boot_ok [OF boot_kernel_ready] by blast+
  then obtain p where p: "kernel_ok demo_entries s [p] [task_at p] [] []" by blast
  show ?thesis
  proof (cases "current_task s = TNull")
    case True
    obtain s' where t: "do_ir_timer s = Some s'" using interrupts_return(1) [OF p] by blast
    with s have "kern_reach demo_drive demo_entries (\<lambda>_. 0) s'" by (blast intro: kern_reach.step kern_step.timer)
    moreover have "task_id_counter s' \<le> 3" using timer_step [OF t p] few_programs [of demo_entries s'] by force
    ultimately show ?thesis using first_task_runs [OF p _ True t] by blast
  qed (use s few_programs [OF p] in auto)
qed

theorem kernel_invariant_witness:
  "\<exists>s s' :: kernel_state. current_task s \<noteq> TNull \<and> do_ir_keyboard demo_drive s = Some s'
    \<and> (\<exists>ps rs ws es. kernel_ok demo_entries s ps rs ws es)"
  using program_reached kernel_invariant [where dev = demo_drive and im = demo_entries and addr = "\<lambda>_. 0"] by blast

theorem running_task_is_current_witness:
  "\<exists>s :: kernel_state. \<exists>p. current_task s = task_at p \<and> is_tss (gdt s ! (unat (tr s) div 8))
    \<and> running_segment s = tss_addr (page_addr (struct_page p))"
proof -
  obtain s :: kernel_state where s: "kern_reach demo_drive demo_entries (\<lambda>_. 0) s" "current_task s \<noteq> TNull"
    "task_id_counter s \<le> 3" using program_reached by blast
  from running_task_is_current [OF s(1)] obtain ps where
    ps: "task_id_counter s = of_nat (length ps + 1)" "length ps \<le> 4"
    and run: "length ps \<le> 2 \<longrightarrow> is_tss (gdt s ! (unat (tr s) div 8)) \<and> (if current_task s = TNull
      then running_segment s = tss_loc demo_entries
      else \<exists>p \<in> set ps. current_task s = task_at p \<and> running_segment s = tss_addr (page_addr (struct_page p)))"
    by blast
  have "length ps \<le> 2" using s(3) small_count [OF ps(2)] by (simp add: ps(1))
  with run s(2) show ?thesis by auto
qed

theorem descriptor_table_typed_witness:
  "\<exists>s :: kernel_state. current_task s \<noteq> TNull \<and> is_tss (gdt s ! 3) \<and> \<not> is_tss (gdt s ! 6)"
proof -
  obtain s :: kernel_state where s: "kern_reach demo_drive demo_entries (\<lambda>_. 0) s" "current_task s \<noteq> TNull"
    using program_reached by blast
  from descriptor_table_typed [OF s(1)] obtain n where
    "\<forall>i < GDT_SIZE. is_tss (gdt s ! i) \<longleftrightarrow> 3 \<le> i \<and> i \<le> n + 3 \<and> i < 6" by blast
  then have "is_tss (gdt s ! 3)" "\<not> is_tss (gdt s ! 6)" by (simp_all add: GDT_SIZE_def)
  with s(2) show ?thesis by blast
qed

end
