(* ===== verification/Drivers.thy ===== *)
theory Drivers
  imports System
begin

text \<open>
  The second half of the boot (\<^verbatim>\<open>kern_init\<close> from the bus scan on): the drivers leave the invariant
  of the kernel alone, so that it holds when the initialisation has come to its end.
\<close>

section \<open>Steps that keep the invariant\<close>

definition keeps :: "'a kernel_state_scheme \<Rightarrow> 'a kernel_state_scheme \<Rightarrow> bool" where
  "keeps s s' \<longleftrightarrow> (\<forall>im ps rs ws es. kernel_ok im s ps rs ws es \<longrightarrow> kernel_ok im s' ps rs ws es)"

lemma keeps_refl [simp]: "keeps s s"
  by (simp add: keeps_def)

lemma keeps_trans [trans]: "keeps s t \<Longrightarrow> keeps t u \<Longrightarrow> keeps s u"
  by (simp add: keeps_def)

lemma keeps_view: "call_view s' = call_view s \<Longrightarrow> keeps s s'"
  using kernel_ok_call by (auto simp: keeps_def)

lemma keeps_view_left: "call_view t = call_view s \<Longrightarrow> keeps t u \<Longrightarrow> keeps s u"
  using keeps_view [of t s] keeps_trans by blast

lemma keeps_kmalloc: "kmalloc n s = Done p s' \<Longrightarrow> keeps s s'"
  using alloc_step by (auto simp: keeps_def)

section \<open>What drivers leave alone\<close>

text \<open>
  A view of the kernel's state that output to the screen, accesses to the configuration space and notes
  about devices do not change. What holds of every view of this kind is shown once.
\<close>

lemma put_str_output:
  assumes "put_str p s = Some s'"
  shows "\<exists>bs. s' = put_bytes bs s"
proof (rule put_str.raw_induct [where P = "\<lambda>p s s'. \<exists>bs. s' = put_bytes bs s", OF _ assms], goal_cases)
  case (1 f p s s')
  then show ?case
  proof (cases "mem s p = 0")
    case False
    with 1(2) have "f (p + 1) (put_char (mem s p) s) = Some s'" by (simp add: Let_def)
    from 1(1) [OF this] obtain bs where "s' = put_bytes bs (put_char (mem s p) s)" by blast
    then show ?thesis by (intro exI [of _ "mem s p # bs"]) simp
  qed (auto intro: exI [of _ "[]"])
qed

locale quiet_frame =
  fixes view :: "'a kernel_state_scheme \<Rightarrow> 'v"
  assumes columns: "view (s\<lparr>cursor_x := x\<rparr>) = view s" and rows: "view (s\<lparr>cursor_y := y\<rparr>) = view s"
    and cells: "view (put_char_pos c a b s) = view s" and outb: "view (outb_p v p s) = view s"
    and lock: "view (snd (kern_lock s)) = view s" and unlock: "view (kern_unlock i s) = view s"
    and inl: "view (snd (inl_p dev p s)) = view s"
    and outl: "view (outl_p l p s) = view s"
    and pci_data: "view (s\<lparr>pci_data := d\<rparr>) = view s"
    and this_device: "view (s\<lparr>this_device := t\<rparr>) = view s"
begin

lemmas frames [simp] = columns rows cells outb lock unlock inl outl pci_data this_device

lemma cursor [simp]: "view (update_cursor s) = view s"
  by (simp add: update_cursor_def Let_def split_beta)

lemma put_char [simp]: "view (put_char c s) = view s"
  by (simp add: put_char_def Let_def)

lemma put_bytes [simp]: "view (put_bytes bs s) = view s"
  by (induction bs arbitrary: s) simp_all

lemma put_str: "put_str p s = Some s' \<Longrightarrow> view s' = view s"
  using put_str_output by fastforce

lemma printk_line:
  assumes "printk (fmt @ [CHR 0x0a]) ap s \<noteq> None"
  shows "view (printk_line fmt ap s) = view s"
proof -
  obtain t where t: "printk (fmt @ [CHR 0x0a]) ap s = Some t" using assms by blast
  then obtain bs where "t = put_bytes bs s" using printk_output unfolding printk_def by blast
  with t show ?thesis by (simp add: printk_line_def)
qed

lemma messages:
  "view (printk_line ''error is 0x%x'' [PInt a] s) = view s"
  "view (printk_line ''error occured:0x%x'' [PInt a] s) = view s"
  "view (printk_line (''DRQ didn'' @ [CHR 0x27] @ ''t be active'') [] s) = view s"
  "view (printk_line ''Invalid Sector number 0x%lx'' [PInt a] s) = view s"
  "view (printk_line (''Device wasn'' @ [CHR 0x27] @ ''t ready.'') [] s) = view s"
  "view (printk_line ''wait failed'' [] s) = view s"
  "view (printk_line ''some error occured'' [] s) = view s"
  "view (printk_line ''ATAPI device is not supported yet.'' [] s) = view s"
  "view (printk_line ''Unknown device'' [] s) = view s"
  "view (printk_line ''identify device failed'' [] s) = view s"
  "view (printk_line (''Don'' @ [CHR 0x27] @ ''t setup slave'') [] s) = view s"
  "view (printk_line ''Found ATA device %x:%x:%d'' [PInt a, PInt b, PInt c] s) = view s"
  "view (printk_line ''ATA Base Address is 0x%lx(0x%x)'' [PInt a, PInt b] s) = view s"
  "view (printk_line ''Found Device: Bus %d:Devfn %d:Vender 0x%x:Device 0x%x:func %d:header 0x%x:Class 0x%lx-0x%lx:Multi %d''
     [PInt a, PInt b, PInt c, PInt d, PInt e, PInt f, PInt g, PInt h, PInt i] s) = view s"
  by (rule printk_line; simp add: printk_def printk_loop.simps)+

lemmas [simp] = messages messages [unfolded append_Cons append_Nil]

lemma config [simp]:
  "view (write_pci_config_address reg s) = view s"
  "view (snd (finish_access_to_config_data reg s)) = view s"
  "view (snd (snd (read_pci_data dev reg s))) = view s"
  "view (snd (write_pci_data reg w s)) = view s"
  "view (snd (pci_data_read dev p r s)) = view s" "view (pci_data_write p r w s) = view s"
  by (simp_all add: write_pci_config_address_def finish_access_to_config_data_def read_pci_data_def write_pci_data_def
      pci_data_read_def pci_data_write_def Let_def split_beta)

lemma registers [simp]:
  "view (snd (snd (read_pci_reg00 dev reg s))) = view s"
  "view (snd (snd (read_pci_class dev reg s))) = view s"
  "view (snd (snd (read_pci_header_type dev reg s))) = view s"
  "view (snd (snd (read_pci_sub_system dev reg s))) = view s"
  "view (snd (snd (read_pci_command_register dev reg s))) = view s"
  by (simp_all add: read_pci_reg00_def read_pci_class_def read_pci_header_type_def read_pci_sub_system_def
      read_pci_command_register_def)

lemma show_pci:
  assumes "show_all_pci_device s = Some s'"
  shows "view s' = view s"
  unfolding show_all_pci_device_def
proof (rule show_pci_loop.raw_induct [where P = "\<lambda>p s s'. view s' = view s", OF _ assms [unfolded show_all_pci_device_def]])
qed (auto simp: Let_def split: pptr.splits)

lemma show_drivers:
  assumes "show_all_registered_driver s = Some s'"
  shows "view s' = view s"
proof (rule show_blk_loop.raw_induct [where P = "\<lambda>p s s'. view s' = view s", OF _ assms [unfolded show_all_registered_driver_def]])
qed (auto simp: Let_def split: if_splits option.splits dest: put_str)

lemma find_ata: "find_ata_device s = Some (b, s') \<Longrightarrow> view s' = view s"
proof -
  have "find_ata_loop is s = Some (b, s') \<Longrightarrow> view s' = view s" for "is"
    by (induction "is" arbitrary: s) (auto simp: Let_def split: option.splits if_splits)
  then show "find_ata_device s = Some (b, s') \<Longrightarrow> view s' = view s" by (simp add: find_ata_device_def)
qed

lemma setup_ata [simp]:
  "view (set_bus_master_bit dev s) = view s" "view (get_base_address dev s) = view s"
proof -
  show "view (set_bus_master_bit dev s) = view s" by (simp add: set_bus_master_bit_def Let_def split_beta)
  have "view (base_address_loop dev is s) = view s" for "is"
    by (induction "is" arbitrary: s) (simp_all add: Let_def split_beta)
  then show "view (get_base_address dev s) = view s" by (simp add: get_base_address_def del: base_address_loop.simps)
qed

end

text \<open>
  The scan also allocates nodes and links them: it keeps what \<open>rel\<close> says of two states, where the
  allocator keeps it.
\<close>

locale bus_frame = quiet_frame view for view :: "'a kernel_state_scheme \<Rightarrow> 'v" +
  fixes rel :: "'a kernel_state_scheme \<Rightarrow> 'a kernel_state_scheme \<Rightarrow> bool"
  assumes view_rel: "view s' = view s \<Longrightarrow> rel s s'"
    and rel_trans: "rel s t \<Longrightarrow> rel t u \<Longrightarrow> rel s u"
    and kmalloc: "kmalloc n s = Done p s' \<Longrightarrow> rel s s'"
    and pci_next: "view (s\<lparr>pci_next := f\<rparr>) = view s"
begin

lemma view_left: "view t = view s \<Longrightarrow> rel t u \<Longrightarrow> rel s u"
  using view_rel [of t s] rel_trans by blast

lemma rel_refl [simp]: "rel s s"
  by (rule view_rel) (rule refl)

lemma store: "store_pci_device_to_list bus d w f c h sub s = Done b s' \<Longrightarrow> rel s s'"
  by (auto simp: store_pci_device_to_list_def Let_def pci_next split: run.splits if_splits
      intro: kmalloc rel_trans [OF kmalloc view_rel])

lemma all_functions: "find_pci_functions dev bus d i reg s = Done r s' \<Longrightarrow> rel s s'"
proof (induction "PCI_FUNCTION_MAX - i" arbitrary: i reg s)
  case 0
  then show ?case by (subst (asm) find_pci_functions.simps) simp
next
  case (Suc n)
  have IH: "find_pci_functions dev bus d (Suc i) q t = Done r s' \<Longrightarrow> rel t s'" for q t
    by (rule Suc(1) [of "Suc i" q t]) (use Suc(2) in simp_all)
  have skip: "find_pci_functions dev bus d (Suc i) q t = Done r s' \<Longrightarrow> view t = view s \<Longrightarrow> rel s s'" for q t
    using view_left [OF _ IH] .
  have st: "store_pci_device_to_list bus d w f c h sub t = Done b u \<Longrightarrow> view t = view s \<Longrightarrow> rel s u"
    for t u w f c h sub b using view_left [OF _ store] .
  have go: "store_pci_device_to_list bus d w f c h sub t = Done b u \<Longrightarrow> find_pci_functions dev bus d (Suc i) q u = Done r s'
      \<Longrightarrow> view t = view s \<Longrightarrow> rel s s'" for q t u w f c h sub b
    using rel_trans [OF st IH] .
  show ?case
    using Suc(2,3) by (subst (asm) find_pci_functions.simps)
      (auto simp: Let_def split_beta split: run.splits if_splits elim: go skip st)
qed

lemma devices: "find_pci_devices dev ds s = Done r s' \<Longrightarrow> rel s s'"
proof (induction dev ds s rule: find_pci_devices.induct)
  case (2 dev bus d ds s)
  then obtain v u where u: "find_pci_data dev bus d s = Done v u" "find_pci_devices dev ds u = Done r s'"
    by (auto split: run.splits)
  have "rel s u" using u(1) by (auto simp: find_pci_data_def Let_def intro: all_functions)
  moreover have "rel u s'" using 2(1) u by blast
  ultimately show ?case by (rule rel_trans)
qed simp

lemma scan: "find_pci_device dev s = Done r s' \<Longrightarrow> rel s s'"
  unfolding find_pci_device_def Let_def
  by (rule view_left [OF _ devices]) simp_all

end

text \<open>Registering a driver allocates and links a node of the other list.\<close>

locale driver_frame = bus_frame view rel
  for view :: "'a kernel_state_scheme \<Rightarrow> 'v" and rel +
  assumes blk_op: "view (s\<lparr>blk_op := f\<rparr>) = view s"
    and blk_next: "view (s\<lparr>blk_next := g\<rparr>) = view s"
begin

lemma register: "register_blk_driver op s = Done r s' \<Longrightarrow> rel s s'"
  by (auto simp: register_blk_driver_def Let_def blk_op blk_next split: run.splits if_splits
      intro: rel_trans [OF kmalloc view_rel])

lemma ata_driver:
  assumes "init_ata_disk_driver dev a s = Some (Done r s')"
  shows "rel s s'"
proof (cases "find_ata_device s")
  case (Some bt)
  obtain b t where "bt = (b, t)" by (cases bt)
  with Some have f: "find_ata_device s = Some (b, t)" by simp
  then have v: "view t = view s" by (rule find_ata)
  show ?thesis
  proof (cases b)
    case True
    with assms f have "\<exists>r. register_blk_driver a (get_base_address dev (set_bus_master_bit dev t)) = Done r s'"
      by (auto simp: init_ata_disk_driver_def Let_def split: run.splits)
    then obtain q where "register_blk_driver a (get_base_address dev (set_bus_master_bit dev t)) = Done q s'" by blast
    from view_left [OF _ register [OF this]] v show ?thesis by simp
  next
    case False
    with assms f v show ?thesis by (auto simp: init_ata_disk_driver_def intro: view_rel)
  qed
qed (use assms in \<open>simp add: init_ata_disk_driver_def\<close>)

end

section \<open>The disk\<close>

text \<open>The operations of the disk driver use ports, write a buffer and set the limit.\<close>

locale drive_frame = quiet_frame view for view :: "'a kernel_state_scheme \<Rightarrow> 'v" +
  assumes inb: "view (snd (inb_p dev p s)) = view s" and inw: "view (snd (inw_p dev p s)) = view s"
    and outw: "view (outw_p w p s) = view s" and busy: "view (busy_wait t s) = view s"
    and memory: "view (s\<lparr>mem := m\<rparr>) = view s" and limit: "view (s\<lparr>max_logical_sector_num := l\<rparr>) = view s"
begin

lemmas ports [simp] = inb inw outw busy memory limit

lemma drive_waits [simp]:
  "view (snd (bsy_drq_loop dev p i s)) = view s" "view (snd (bsy_loop dev p i s)) = view s"
proof -
  show "view (snd (bsy_drq_loop dev p i s)) = view s"
    by (induction "1000 - i" arbitrary: i s) (subst bsy_drq_loop.simps; simp add: Let_def split_beta)+
  show "view (snd (bsy_loop dev p i s)) = view s"
    by (induction "1000 - i" arbitrary: i s) (subst bsy_loop.simps; simp add: Let_def split_beta)+
qed

lemma drive_select [simp]:
  "view (set_device_number dev n s) = view s"
  "view (snd (do_device_selection_protocol dev n s)) = view s"
  "view (snd (wait_until_device_is_ready dev n s)) = view s"
proof -
  show "view (set_device_number dev n s) = view s" for s :: "'a kernel_state_scheme"
    by (simp add: set_device_number_def Let_def split_beta)
  then show sel: "view (snd (do_device_selection_protocol dev n s)) = view s" for s :: "'a kernel_state_scheme"
    by (simp add: do_device_selection_protocol_def wait_until_BSY_and_DRQ_are_zero_def Let_def split_beta)
  have "view (snd (wait_ready_loop dev n k s)) = view s" for k
    by (induction k arbitrary: s) (simp_all add: Let_def split_beta sel)
  then show "view (snd (wait_until_device_is_ready dev n s)) = view s"
    by (simp add: wait_until_device_is_ready_def)
qed

lemma drive_status [simp]:
  "view (print_error_register dev n s) = view s" "view (snd (rw_status_loop dev n k s)) = view s"
  "view (finish_sector_rw dev s) = view s"
proof -
  show e: "view (print_error_register dev n s) = view s" for s :: "'a kernel_state_scheme"
    by (simp add: print_error_register_def Let_def split_beta)
  show "view (snd (rw_status_loop dev n k s)) = view s"
    by (induction "7 - k" arbitrary: k s) (subst rw_status_loop.simps; simp add: Let_def split_beta e)+
  show "view (finish_sector_rw dev s) = view s" by (simp add: finish_sector_rw_def Let_def split_beta)
qed

lemma drive_sector_start [simp]: "view (snd (sector_rw_common dev c n sector s)) = view s"
  by (simp add: sector_rw_common_def Let_def split_beta)

lemma drive_words [simp]:
  "view (fold (write_word buf) is s) = view s" "view (fold (read_word dev buf) is s) = view s"
proof -
  show "view (fold (write_word buf) is s) = view s"
    by (induction "is" arbitrary: s) (simp_all add: write_word_def)
  show "view (fold (read_word dev buf) is s) = view s"
    by (induction "is" arbitrary: s) (simp_all add: read_word_def Let_def split_beta)
qed

lemma drive_write_sector [simp]: "view (snd (write_sector dev n sector buf k s)) = view s"
  by (simp add: write_sector_def Let_def split_beta del: upt.simps upt_rec_numeral)

lemma drive_read_sector: "read_sector dev n sector buf k s = Done r s' \<Longrightarrow> view s' = view s"
  by (auto simp: read_sector_def Let_def split_beta split: if_splits simp del: upt.simps upt_rec_numeral)

lemma drive_identify_status:
  assumes "identify_status_loop dev n s = Some (b, s')"
  shows "view s' = view s"
proof -
  have "\<forall>b s'. r = (b, s') \<longrightarrow> view s' = view s" if "identify_status_loop dev n s = Some r" for r
  proof (rule identify_status_loop.raw_induct [where P = "\<lambda>dev n s r. \<forall>b s'. r = (b, s') \<longrightarrow> view s' = view s", OF _ that])
  qed (auto simp: Let_def split_beta split: if_splits)
  with assms show ?thesis by blast
qed

lemma drive_identify:
  assumes "do_identify_device dev n buf s = Some (b, buf', s')"
  shows "view s' = view s"
proof -
  have "view (snd (fold (identify_word dev) is (f, t))) = view t" for "is" f and t :: "'a kernel_state_scheme"
    by (induction "is" arbitrary: f t) (simp_all add: identify_word_def Let_def split_beta)
  then have w: "fold (identify_word dev) is (f, t) = (g, u) \<Longrightarrow> view u = view t" for "is" f g and t u :: "'a kernel_state_scheme"
    by (metis snd_conv)
  show ?thesis
    using assms
    by (auto simp: do_identify_device_def write_command_def get_DRDY_def wait_until_BSY_is_zero_def is_device_fault_def Let_def split_beta
        split: if_splits option.splits prod.splits simp del: upt.simps upt_rec_numeral
        dest!: drive_identify_status w)
qed

lemma drive_initialize:
  "initialize_common dev n s = Some (b, s') \<Longrightarrow> view s' = view s"
  by (auto simp: initialize_common_def do_soft_reset_def write_command_def get_cylinder_regster_def Let_def split_beta
      split: device_type.splits option.splits if_splits dest!: drive_identify)

lemma drive_open: "open_ATA_disk dev s = Some (r, s') \<Longrightarrow> view s' = view s"
  by (auto simp: open_ATA_disk_def initialize_ata_def split: option.splits prod.splits if_splits dest!: drive_initialize)

end

section \<open>The invariant of the kernel\<close>

lemma view_ports [simp]:
  "call_view (snd (inb_p dev p s)) = call_view s" "call_view (snd (inw_p dev p s)) = call_view s"
  "call_view (snd (inl_p dev p s)) = call_view s" "call_view (outw_p w p s) = call_view s"
  "call_view (outl_p l p s) = call_view s" "call_view (busy_wait t s) = call_view s"
  by (simp_all add: call_view_def task_view_def sched_view_def inb_p_def inw_p_def inl_p_def outw_p_def outl_p_def
      busy_wait_def Let_def)

lemma view_fields [simp]:
  "call_view (s\<lparr>pci_data := a\<rparr>) = call_view s" "call_view (s\<lparr>pci_next := b\<rparr>) = call_view s"
  "call_view (s\<lparr>blk_op := c\<rparr>) = call_view s" "call_view (s\<lparr>blk_next := d\<rparr>) = call_view s"
  "call_view (s\<lparr>max_logical_sector_num := m\<rparr>) = call_view s" "call_view (s\<lparr>this_device := t\<rparr>) = call_view s"
  by (simp_all add: call_view_def task_view_def sched_view_def)

interpretation kernel: driver_frame call_view keeps
  by unfold_locales (auto intro: keeps_view keeps_trans keeps_kmalloc)

interpretation kernel_drive: drive_frame call_view
  by unfold_locales simp_all

section \<open>The whole of it\<close>

lemma keeps_init_devices:
  assumes "kern_init_devices dev im s = Some s'"
  shows "keeps s s'"
proof -
  from assms obtain a b c d e f g m j k where
    st: "find_pci_device dev s = Done () a" "show_all_pci_device a = Some b"
    "init_ata_disk_driver dev (ata_dev im) b = Some (Done c d)" "show_all_registered_driver d = Some e"
    "open_ATA_disk dev e = Some (f, g)"
    "read_sector dev 0 100 (buf1 im) SECTOR_SIZE
       (snd (write_sector dev 0 100 (buf0 im) SECTOR_SIZE (g\<lparr>mem := m\<rparr>))) = Done j k"
    "put_str (buf1 im) k = Some s'"
    by (auto simp: kern_init_devices_def driver_ops_def ata_dev_ops_def returned_def with_mem_def Let_def split_beta
        split: bind_splits option.splits run.splits if_splits)
  have "keeps s a" by (rule kernel.scan [OF st(1)])
  also have "keeps a b" by (rule keeps_view [OF kernel.show_pci [OF st(2)]])
  also have "keeps b d" by (rule kernel.ata_driver [OF st(3)])
  also have "keeps d s'"
    using kernel_drive.drive_read_sector [OF st(6)] put_str_call_view [OF st(7)] kernel_drive.drive_open [OF st(5)] kernel.show_drivers [OF st(4)]
    by (intro keeps_view) simp
  finally show ?thesis .
qed

end
