(* ===== verification/Blk_Props.thy ===== *)
theory Blk_Props
  imports Ata_Props
begin

text \<open>
  The registry of block drivers: what is found after a driver has been registered, and what removing one
  does.
\<close>

section \<open>Allocation leaves memory alone\<close>

lemma kmalloc_mem: "kmalloc n s = Done p t \<Longrightarrow> mem t = mem s"
  by (cases s rule: mem_alloc_cases) (auto simp: kmalloc_def Let_def split: if_splits)

section \<open>Properties\<close>

text \<open>
  C35. The registry. A driver that is registered is put in front of the others; a lookup returns the
  driver registered last under the name, or null if there is none. \<^verbatim>\<open>remove_blk_driver\<close> takes nothing out of
  the list: it never returns if a driver other than the given one is registered, and otherwise
  leaves the list as it is.
\<close>

theorem blk_driver_registry:
  assumes "blk_list s ps" and "\<forall>q \<in> set ps. cstr (mem s) (blk_op s (BNode q)) (name_of q)"
    and "cstr (mem s) op nm" and "cstr (mem s) key k"
    and "kmalloc sizeof_blk_device_drivers s = Done p t" and "p \<noteq> 0" and "p \<notin> set ps"
  shows "\<exists>u. register_blk_driver op s = Done () u \<and> blk_list u (p # ps)
    \<and> get_blk_driver key u = Some (map_option BNode (if nm = k then Some p else find (\<lambda>q. name_of q = k) ps))
    \<and> remove_blk_driver op' u = (if op = op' \<and> (\<forall>q \<in> set ps. blk_op s (BNode q) = op') then Some u else None)"
proof -
  obtain u where u: "register_blk_driver op s = Done () u" "blk_list u (p # ps)" "blk_op u (BNode p) = op"
    "\<forall>q \<in> set ps. blk_op u (BNode q) = blk_op s (BNode q)"
    using register_blk_driver_spec [OF assms(1,5-7)] by blast
  have "mem u = mem t" using u(1) assms(5,6) by (auto simp: register_blk_driver_def Let_def)
  then have m: "mem u = mem s" using kmalloc_mem [OF assms(5)] by simp
  let ?nm = "name_of(p := nm)"
  have "\<forall>q \<in> set (p # ps). cstr (mem u) (blk_op u (BNode q)) (?nm q)"
    using assms(2,3,7) u(3,4) by (auto simp: m)
  from get_blk_driver_finds [OF u(2) this, of key k] assms(4)
  have "get_blk_driver key u = Some (map_option BNode (find (\<lambda>q. ?nm q = k) (p # ps)))" by (simp add: m)
  moreover have "find (\<lambda>q. ?nm q = k) ps = find (\<lambda>q. name_of q = k) ps"
    using assms(7) by (intro find_cong) auto
  moreover have "remove_blk_driver op' u =
      (if op = op' \<and> (\<forall>q \<in> set ps. blk_op s (BNode q) = op') then Some u else None)"
    using remove_blk_driver_spec [OF u(2), of op'] u(3,4) by simp
  ultimately show ?thesis using u(1,2) by (intro exI [of _ u]) simp
qed

theorem blk_driver_registry_witness:
  "\<exists>u. register_blk_driver 0x2000 (boot_ata\<lparr>mem := demo_memory\<rparr>) = Done () u
    \<and> get_blk_driver 0x2000 u = Some (Some (BNode 0x100000)) \<and> remove_blk_driver 0x2000 u = Some u
    \<and> get_blk_driver 0x1000 u = Some None"
proof -
  let ?s = "boot_ata\<lparr>mem := demo_memory\<rparr>"
  have f: "sTopAddr ?s = 0" "sTotalSize ?s = 0" "heap_alloc_table ?s = (\<lambda>_. 0)" "blk_next ?s = (\<lambda>_. BHead)"
    by (simp_all add: boot_ata_def boot_pci_def boot_task_def boot_heap_def
        ata_state.defs blk_state.defs pci_state.defs task_state.defs heap_state.defs con_state.defs)
  have "fst (mem_alloc ?s) = 0x100000"
    using alloc_scan.simps [of "\<lambda>_. 0" 0]
    by (simp add: mem_alloc_def f MAX_HEAP_PAGES_def HEAP_START_ADDR_def)
  then obtain t where k: "kmalloc sizeof_blk_device_drivers ?s = Done 0x100000 t"
    by (cases "mem_alloc ?s") (auto simp: kmalloc_def f Let_def sizeof_blk_device_drivers_def PAGE_SIZE_def
        dest: arg_cong [where f = "\<lambda>x. sTotalSize (snd x)"])
  have l: "blk_list ?s []" by (simp add: blk_list_def f)
  have n: "cstr (mem ?s) 0x2000 [0x62]" "cstr (mem ?s) 0x1000 [0x61, 0x62]" using demo_strings by simp_all
  from blk_driver_registry [OF l _ n(1,1) k, of "\<lambda>_. []" "0x2000"]
    blk_driver_registry [OF l _ n(1,2) k, of "\<lambda>_. []" "0x2000"] show ?thesis by auto
qed

end
