(* ===== verification/Ata_Open.thy ===== *)
theory Ata_Open
  imports Ata_Props
begin

text \<open>
  Opening the disk: the reset and the identification of the master and then of the slave, against a
  specification of a bus with up to two drives.
\<close>

section \<open>The protocol of the identification\<close>

definition slave_selected :: "event list \<Rightarrow> bool" where
  "slave_selected es \<longleftrightarrow> bit (last_out DEVICE_HEAD_REGISTER es) 4"

text \<open>
  \<open>present b\<close>: there is a drive, the slave if \<open>b\<close>, and \<open>ident b\<close> are the words it identifies itself with.
  After a reset the cylinder registers hold the signature of an ATA drive, and the ready bit of the status
  tells if the selected drive is there. After the identification command the selected drive reports no
  fault, is no longer busy at the latest when its status is read the \<open>n + 1\<close>-st time, and delivers its words.
\<close>

definition ata_identify :: "device \<Rightarrow> (bool \<Rightarrow> bool) \<Rightarrow> (bool \<Rightarrow> nat \<Rightarrow> u16) \<Rightarrow> nat \<Rightarrow> bool" where
  "ata_identify dev present ident n \<longleftrightarrow> (\<forall>es.
     (command es = 0x08 \<longrightarrow>
        ucast (dev es CYLINDER_LOW_REGISTER) = (0 :: u8) \<and> ucast (dev es CYLINDER_HIGH_REGISTER) = (0 :: u8)
        \<and> bit (ucast (dev es STATUS_REGISTER) :: u8) 6 = present (slave_selected es))
     \<and> (command es = 0xec \<longrightarrow> transferred es < 256 \<longrightarrow>
        (let st = ucast (dev es STATUS_REGISTER) :: u8 in \<not> bit st 5 \<and> (n \<le> status_reads es \<longrightarrow> \<not> bit st 7))
        \<and> ucast (dev es DATA_REGISTER) = ident (slave_selected es) (transferred es)))"

lemma ata_identifyD:
  assumes "ata_identify dev present ident n"
  shows "command es = 0x08 \<Longrightarrow> ucast (dev es CYLINDER_LOW_REGISTER) = (0 :: u8)"
    "command es = 0x08 \<Longrightarrow> ucast (dev es CYLINDER_HIGH_REGISTER) = (0 :: u8)"
    "command es = 0x08 \<Longrightarrow> bit (ucast (dev es STATUS_REGISTER) :: u8) 6 = present (slave_selected es)"
    "command es = 0xec \<Longrightarrow> transferred es < 256 \<Longrightarrow> \<not> bit (ucast (dev es STATUS_REGISTER) :: u8) 5"
    "command es = 0xec \<Longrightarrow> transferred es < 256 \<Longrightarrow> n \<le> status_reads es \<Longrightarrow> \<not> bit (ucast (dev es STATUS_REGISTER) :: u8) 7"
    "command es = 0xec \<Longrightarrow> transferred es < 256 \<Longrightarrow> ucast (dev es DATA_REGISTER) = ident (slave_selected es) (transferred es)"
  using assms by (simp_all add: ata_identify_def Let_def)

lemma slave_selected_harmless: "list_all harmless T \<Longrightarrow> slave_selected (T @ es) = slave_selected es"
  by (simp add: slave_selected_def last_out_passive)

lemma harmless_append:
  assumes "list_all harmless T"
  shows "command (T @ es) = command es" "transferred (T @ es) = transferred es" "disk c (T @ es) = disk c es"
    "slave_selected (T @ es) = slave_selected es"
  using quiet_append [OF all_quiet [OF assms]] slave_selected_harmless [OF assms] by simp_all

lemma identifying_transfers: "command es = 0xec \<Longrightarrow> transferring es \<longleftrightarrow> transferred es < 256"
  by (simp add: transferring_def)

lemma reset_idle: "command es = 0x08 \<Longrightarrow> \<not> transferring es"
  by (simp add: transferring_def PIO_SECTOR_READ_CMD_def PIO_SECTOR_WRITE_CMD_def)

section \<open>Waiting for the selected drive\<close>

lemma status_read_more:
  assumes "is_status_read e" and "\<not> is_command e"
  shows "status_reads (e # es) = Suc (status_reads es)"
  using assms by (simp add: status_reads_Cons)

lemma bsy_clears:
  assumes d: "ata_identify dev present ident n"
  shows "command (trace s) = 0xec \<Longrightarrow> transferred (trace s) < 256 \<Longrightarrow> n - status_reads (trace s) + i < 1000 \<Longrightarrow>
    \<exists>T. list_all harmless T \<and> bsy_loop dev STATUS_REGISTER i s = (True, s\<lparr>trace := T @ trace s\<rparr>)"
proof (induction "n - status_reads (trace s)" arbitrary: i s rule: less_induct)
  case less
  define st where "st = (ucast (dev (trace s) STATUS_REGISTER) :: u8)"
  let ?e = "InB STATUS_REGISTER st"
  let ?s = "s\<lparr>trace := ?e # trace s\<rparr>"
  have e: "list_all harmless [?e]" "is_status_read ?e" "\<not> is_command ?e" by simp_all
  show ?case
  proof (cases "bit st 7")
    case False
    then have "bsy_loop dev STATUS_REGISTER i s = (True, ?s)"
      by (subst bsy_loop.simps) (simp only: inb_p_eq st_def [symmetric] Let_def prod.case bit_and_1 if_False simp_thms)
    with e show ?thesis by (intro exI [of _ "[?e]"]) simp
  next
    case True
    have n: "status_reads (trace s) < n"
      using d less.prems(1,2) True by (auto simp: ata_identify_def Let_def st_def not_le [symmetric])
    have r: "status_reads (trace ?s) = Suc (status_reads (trace s))" using e status_read_more by simp
    have "command (trace ?s) = 0xec" "transferred (trace ?s) < 256"
      using harmless_append [OF e(1), where es = "trace s"] less.prems by simp_all
    moreover have "n - status_reads (trace ?s) < n - status_reads (trace s)" using n r by simp
    moreover have "n - status_reads (trace ?s) + (i + 1) < 1000" using n r less.prems(3) by simp
    ultimately obtain T where T: "list_all harmless T"
      "bsy_loop dev STATUS_REGISTER (i + 1) ?s = (True, ?s\<lparr>trace := T @ trace ?s\<rparr>)"
      using less.hyps [of ?s "i + 1"] by blast
    have "i + 1 < 1000" using n less.prems(3) by simp
    then have "bsy_loop dev STATUS_REGISTER i s = bsy_loop dev STATUS_REGISTER (i + 1) ?s"
      using True by (subst bsy_loop.simps) (simp only: inb_p_eq st_def [symmetric] Let_def prod.case bit_and_1 if_True simp_thms)
    with T show ?thesis by (intro exI [of _ "T @ [?e]"]) simp
  qed
qed

lemma identify_status_ready:
  assumes d: "ata_disk dev c n"
  shows "transferring (trace s) \<Longrightarrow>
    \<exists>T. list_all harmless T \<and> identify_status_loop dev device s = Some (True, s\<lparr>trace := T @ trace s\<rparr>)"
proof (induction "n - status_reads (trace s)" arbitrary: s rule: less_induct)
  case less
  define st where "st = (ucast (dev (trace s) STATUS_REGISTER) :: u8)"
  let ?e = "InB STATUS_REGISTER st"
  let ?s = "s\<lparr>trace := ?e # trace s\<rparr>"
  have e: "list_all harmless [?e]" "is_status_read ?e" "\<not> is_command ?e" "quiet ?e" by (simp_all add: quiet_def)
  have "\<not> bit st 0" using d less.prems by (simp add: ata_disk_def Let_def st_def)
  then have err: "\<not> is_error st" by (simp only: status_bits not_False_eq_True)
  show ?case
  proof (cases "is_drq_active st")
    case True
    with err have "identify_status_loop dev device s = Some (True, ?s)"
      by (subst identify_status_loop.simps) (simp add: inb_p_eq flip: st_def)
    with e show ?thesis by (intro exI [of _ "[?e]"]) simp
  next
    case False
    then have "\<not> bit st 3" by (simp only: status_bits not_False_eq_True)
    then have n: "status_reads (trace s) < n"
      using d less.prems by (auto simp: ata_disk_def Let_def st_def not_le [symmetric])
    have r: "status_reads (trace ?s) = Suc (status_reads (trace s))" using e status_read_more by simp
    have "transferring (trace ?s)" using less.prems quiet_Cons(4) [OF e(4)] by simp
    moreover have "n - status_reads (trace ?s) < n - status_reads (trace s)" using n r by simp
    ultimately obtain T where T: "list_all harmless T"
      "identify_status_loop dev device ?s = Some (True, ?s\<lparr>trace := T @ trace ?s\<rparr>)"
      using less.hyps [of ?s] by blast
    have "identify_status_loop dev device s = identify_status_loop dev device ?s"
      using err False by (subst identify_status_loop.simps) (simp add: inb_p_eq flip: st_def)
    with T show ?thesis by (intro exI [of _ "T @ [?e]"]) simp
  qed
qed

lemma identify_words:
  assumes d: "ata_identify dev present ident n" and r: "command (trace s) = 0xec" "transferred (trace s) = 0"
  shows "k \<le> 256 \<Longrightarrow> \<exists>es. fold (identify_word dev) [0..<k] (b, s) =
      (\<lambda>i. if i < k then ident (slave_selected (trace s)) i else b i, s\<lparr>trace := es\<rparr>)
    \<and> command es = 0xec \<and> transferred es = k \<and> slave_selected es = slave_selected (trace s) \<and> disk c es = disk c (trace s)"
proof (induction k)
  case 0
  show ?case using r by (intro exI [of _ "trace s"]) simp
next
  case (Suc k)
  then obtain es where IH: "fold (identify_word dev) [0..<k] (b, s) =
      (\<lambda>i. if i < k then ident (slave_selected (trace s)) i else b i, s\<lparr>trace := es\<rparr>)"
    "command es = 0xec" "transferred es = k" "slave_selected es = slave_selected (trace s)" "disk c es = disk c (trace s)"
    by auto
  define w where "w = (ucast (dev es DATA_REGISTER) :: u16)"
  have w: "w = ident (slave_selected (trace s)) k"
    using d IH Suc.prems by (simp add: ata_identify_def w_def)
  let ?e = "InW DATA_REGISTER w"
  have "fold (identify_word dev) [0..<Suc k] (b, s) =
      (\<lambda>i. if i < Suc k then ident (slave_selected (trace s)) i else b i, s\<lparr>trace := ?e # es\<rparr>)"
    using IH(1) w by (auto simp: identify_word_def inw_p_def Let_def fun_eq_iff less_Suc_eq simp flip: w_def)
  moreover have "slave_selected (?e # es) = slave_selected es" by (simp add: slave_selected_def)
  ultimately show ?case
    using IH(2-5) transfer_Cons [of ?e es] by (intro exI [of _ "?e # es"]) simp
qed

section \<open>Selecting and resetting\<close>

lemma set_device_selects:
  "\<exists>T. list_all quiet T \<and> set_device_number dev device s = s\<lparr>trace := T @ trace s\<rparr>
    \<and> slave_selected (T @ trace s) = (device \<noteq> 0)"
proof -
  define h where "h = (ucast (dev (trace s) DEVICE_HEAD_REGISTER) :: u8)"
  define w where "w = (if device = 0 then h AND 0xf else h OR 0x10)"
  have m: "(0xf :: u8) = mask 4" "(0x10 :: u8) = push_bit 4 1" by (simp_all add: mask_eq_exp_minus_1 push_bit_eq_mult)
  have "bit w 4 = (device \<noteq> 0)" unfolding w_def m by (simp add: bit_simps)
  moreover have "set_device_number dev device s = s\<lparr>trace := [Wait 5, OutB w DEVICE_HEAD_REGISTER, InB DEVICE_HEAD_REGISTER h] @ trace s\<rparr>"
    by (simp add: set_device_number_def inb_p_eq outb_p_def busy_wait_def Let_def h_def w_def)
  moreover have "list_all quiet [Wait 5, OutB w DEVICE_HEAD_REGISTER, InB DEVICE_HEAD_REGISTER h]"
    by (simp add: quiet_def ata_ports)
  ultimately show ?thesis
    by (intro exI [of _ "[Wait 5, OutB w DEVICE_HEAD_REGISTER, InB DEVICE_HEAD_REGISTER h]"]) (simp add: slave_selected_def)
qed

lemma select_device:
  assumes d: "ata_disk dev c n" and i: "\<not> transferring (trace s)"
  shows "\<exists>T. list_all quiet T \<and> do_device_selection_protocol dev device s = (True, s\<lparr>trace := T @ trace s\<rparr>)
    \<and> slave_selected (T @ trace s) = (device \<noteq> 0)"
proof -
  obtain P where P: "list_all quiet P" "wait_until_BSY_and_DRQ_are_zero dev ALTERNATE_STATUS_REGISTER s =
      (True, s\<lparr>trace := P @ trace s\<rparr>)" using not_busy [OF d i] all_quiet by blast
  let ?s = "s\<lparr>trace := P @ trace s\<rparr>"
  obtain T where T: "list_all quiet T" "set_device_number dev device ?s = ?s\<lparr>trace := T @ trace ?s\<rparr>"
    "slave_selected (T @ trace ?s) = (device \<noteq> 0)" using set_device_selects by blast
  let ?es = "Wait 2 # T @ P @ trace s"
  have q: "list_all quiet (Wait 2 # T @ P)" using T(1) P(1) by (simp add: quiet_def)
  have "\<not> transferring ?es" using quiet_append(4) [OF q, where es = "trace s"] i by simp
  with not_busy [OF d, of "s\<lparr>trace := ?es\<rparr>"] obtain R where R: "list_all harmless R"
    "wait_until_BSY_and_DRQ_are_zero dev ALTERNATE_STATUS_REGISTER (s\<lparr>trace := ?es\<rparr>) = (True, s\<lparr>trace := R @ ?es\<rparr>)"
    by auto
  with P(2) T(2) have "do_device_selection_protocol dev device s = (True, s\<lparr>trace := R @ ?es\<rparr>)"
    by (simp add: do_device_selection_protocol_def busy_wait_def)
  moreover have "slave_selected (R @ ?es) = (device \<noteq> 0)"
    using T(3) slave_selected_harmless [OF R(1)] by (simp add: slave_selected_def)
  ultimately show ?thesis using q all_quiet [OF R(1)] by (intro exI [of _ "R @ Wait 2 # T @ P"]) simp
qed

text \<open>After the reset the drive is idle and shows its signature.\<close>

lemma soft_reset:
  "\<exists>es. do_soft_reset dev device s = s\<lparr>trace := es\<rparr> \<and> command es = 0x08
    \<and> slave_selected es = (device \<noteq> 0) \<and> disk c es = disk c (trace s)"
proof -
  obtain T where T: "list_all quiet T" "set_device_number dev device s = s\<lparr>trace := T @ trace s\<rparr>"
    "slave_selected (T @ trace s) = (device \<noteq> 0)" using set_device_selects by blast
  then show ?thesis
    using quiet_append(3) [OF T(1), where es = "trace s" and c = c]
    by (intro exI [of _ "Wait 5 # OutB 0x08 COMMAND_REGISTER # T @ trace s"])
      (simp add: do_soft_reset_def write_command_def outb_p_def busy_wait_def Let_def command_def slave_selected_def ata_ports)
qed

section \<open>Identifying a drive\<close>

text \<open>The words that \<^verbatim>\<open>do_identify_device\<close> leaves in the buffer, and the limit computed from them.\<close>

definition drive_words :: "(bool \<Rightarrow> bool) \<Rightarrow> (bool \<Rightarrow> nat \<Rightarrow> u16) \<Rightarrow> bool \<Rightarrow> (nat \<Rightarrow> u16) \<Rightarrow> nat \<Rightarrow> u16" where
  "drive_words present ident b buf = (\<lambda>i. if present b \<and> i < 256 then ident b i else buf i)"

definition sector_limit :: "(bool \<Rightarrow> bool) \<Rightarrow> (bool \<Rightarrow> nat \<Rightarrow> u16) \<Rightarrow> bool \<Rightarrow> u32" where
  "sector_limit present ident b =
     (if present b then push_bit 16 (ucast (ident b 61)) OR ucast (ident b 60) else 0)"

text \<open>From the command on: the drive that is present delivers its 256 words.\<close>

lemma identify_transfer:
  fixes s :: "'a con_state_scheme"
  assumes d: "ata_disk dev c n" "ata_identify dev present ident n" "n < 1000" and b: "present b"
    and r: "command r = 0x08" "slave_selected r = b"
  defines "s1 \<equiv> s\<lparr>trace := Wait 5 # OutB 0xec COMMAND_REGISTER # r\<rparr>"
  shows "\<exists>es2 es3 es4 es5. bsy_loop dev STATUS_REGISTER 0 s1 = (True, s1\<lparr>trace := es2\<rparr>)
    \<and> identify_status_loop dev device (snd (inb_p dev ALTERNATE_STATUS_REGISTER (s\<lparr>trace := es2\<rparr>))) =
        Some (True, s\<lparr>trace := es3\<rparr>)
    \<and> is_device_fault dev (s\<lparr>trace := es3\<rparr>) = (False, s\<lparr>trace := es4\<rparr>)
    \<and> fold (identify_word dev) [0..<256] (buf, s\<lparr>trace := es4\<rparr>) =
        (\<lambda>i. if i < 256 then ident b i else buf i, s\<lparr>trace := es5\<rparr>)
    \<and> \<not> transferring es5 \<and> disk c es5 = disk c r"
proof -
  let ?c = "Wait 5 # OutB 0xec COMMAND_REGISTER # r"
  have c: "command ?c = 0xec" "transferred ?c = 0" "slave_selected ?c = b" "disk c ?c = disk c r"
    using r by (simp_all add: command_def transferred_def since_command_def slave_selected_def ata_ports)
  have "status_reads ?c = 0" by (simp add: status_reads_def since_command_def)
  then obtain A where A: "list_all harmless A"
    "bsy_loop dev STATUS_REGISTER 0 s1 = (True, s1\<lparr>trace := A @ ?c\<rparr>)"
    using bsy_clears [OF d(2), of s1 0] c d(3) by (auto simp: s1_def)
  define a where "a = InB ALTERNATE_STATUS_REGISTER (ucast (dev (A @ ?c) ALTERNATE_STATUS_REGISTER))"
  have ha: "list_all harmless (a # A)" using A(1) by (simp add: a_def)
  have "transferring (trace (s\<lparr>trace := a # A @ ?c\<rparr>))"
    using harmless_append [OF ha, where es = ?c] c by (simp add: identifying_transfers)
  from identify_status_ready [OF d(1) this, of device] obtain B where B: "list_all harmless B"
    "identify_status_loop dev device (s\<lparr>trace := a # A @ ?c\<rparr>) = Some (True, s\<lparr>trace := B @ a # A @ ?c\<rparr>)" by auto
  define u where "u = (ucast (dev (B @ a # A @ ?c) STATUS_REGISTER) :: u8)"
  define es where "es = InB STATUS_REGISTER u # B @ a # A @ ?c"
  have hu: "list_all harmless (B @ a # A)" "list_all harmless (InB STATUS_REGISTER u # B @ a # A)" using ha B(1) by simp_all
  have "\<not> bit u 5"
    using ata_identifyD(4) [OF d(2), of "B @ a # A @ ?c"] harmless_append [OF hu(1), where es = ?c] c b by (simp add: u_def)
  then have f: "is_device_fault dev (s\<lparr>trace := B @ a # A @ ?c\<rparr>) = (False, s\<lparr>trace := es\<rparr>)"
    unfolding es_def by (simp only: is_device_fault_def inb_p_eq Let_def prod.case bit_and_1) (simp add: u_def)
  have "command es = 0xec" "transferred es = 0" "slave_selected es = b" "disk c es = disk c r"
    using harmless_append [OF hu(2), where es = ?c] c by (simp_all add: es_def)
  with identify_words [OF d(2), of "s\<lparr>trace := es\<rparr>" 256 buf c] b obtain es' where
    "fold (identify_word dev) [0..<256] (buf, s\<lparr>trace := es\<rparr>) = (\<lambda>i. if i < 256 then ident b i else buf i, s\<lparr>trace := es'\<rparr>)"
    "command es' = 0xec" "transferred es' = 256" "disk c es' = disk c r" by (auto cong: if_cong)
  with A(2) B(2) f show ?thesis
    by (intro exI [of _ "A @ ?c"] exI [of _ "B @ a # A @ ?c"] exI [of _ es] exI [of _ es'])
      (simp add: a_def inb_p_eq identifying_transfers del: upt_rec_numeral)
qed

lemma identify_device_spec:
  assumes d: "ata_disk dev c n" "ata_identify dev present ident n" "n < 1000"
    and es: "command (trace s) = 0x08"
  shows "\<exists>es. do_identify_device dev device buf s =
      Some (True, drive_words present ident (device \<noteq> 0) buf, s\<lparr>trace := es\<rparr>)
    \<and> \<not> transferring es \<and> disk c es = disk c (trace s)"
proof -
  obtain T where T: "list_all quiet T" "do_device_selection_protocol dev device s = (True, s\<lparr>trace := T @ trace s\<rparr>)"
    "slave_selected (T @ trace s) = (device \<noteq> 0)"
    using select_device [OF d(1) reset_idle [OF es]] by blast
  note Q = quiet_append [OF T(1), where es = "trace s"]
  let ?t = "T @ trace s"
  define st where "st = (ucast (dev ?t STATUS_REGISTER) :: u8)"
  have c8: "command ?t = 0x08" using Q es by simp
  have p: "bit st 6 = present (device \<noteq> 0)" using ata_identifyD(3) [OF d(2) c8] T(3) by (simp add: st_def)
  define r where "r = InB STATUS_REGISTER st # ?t"
  have r: "command r = 0x08" "slave_selected r = (device \<noteq> 0)" "disk c r = disk c (trace s)"
    using c8 Q T(3) by (simp_all add: r_def command_Cons slave_selected_def)
  have g: "get_DRDY dev (s\<lparr>trace := ?t\<rparr>) = (drop_bit 6 st AND 1, s\<lparr>trace := r\<rparr>)"
    by (simp add: get_DRDY_def inb_p_eq st_def r_def)
  have rdy: "drop_bit 6 st AND 1 = 0 \<longleftrightarrow> \<not> present (device \<noteq> 0)" using p bit_and_1(1) [of 6 st] by simp
  show ?thesis
  proof (cases "present (device \<noteq> 0)")
    case False
    then have "do_identify_device dev device buf s = Some (True, buf, s\<lparr>trace := r\<rparr>)"
      using T(2) g rdy by (simp add: do_identify_device_def)
    with False r reset_idle [OF r(1)] show ?thesis by (intro exI [of _ r]) (simp add: drive_words_def)
  next
    case True
    from identify_transfer [OF d True r(1,2), of s device buf] obtain es2 es3 es4 es5 where
      I: "bsy_loop dev STATUS_REGISTER 0 (s\<lparr>trace := Wait 5 # OutB 0xec COMMAND_REGISTER # r\<rparr>) = (True, s\<lparr>trace := es2\<rparr>)"
      "identify_status_loop dev device (snd (inb_p dev ALTERNATE_STATUS_REGISTER (s\<lparr>trace := es2\<rparr>))) = Some (True, s\<lparr>trace := es3\<rparr>)"
      "is_device_fault dev (s\<lparr>trace := es3\<rparr>) = (False, s\<lparr>trace := es4\<rparr>)"
      "fold (identify_word dev) [0..<256] (buf, s\<lparr>trace := es4\<rparr>) = (\<lambda>i. if i < 256 then ident (device \<noteq> 0) i else buf i, s\<lparr>trace := es5\<rparr>)"
      "\<not> transferring es5" "disk c es5 = disk c r" by (auto simp del: upt_rec_numeral)
    have "do_identify_device dev device buf s = Some (True, \<lambda>i. if i < 256 then ident (device \<noteq> 0) i else buf i, s\<lparr>trace := es5\<rparr>)"
      using T(2) g rdy True I(1-4)
      by (simp add: do_identify_device_def write_command_def outb_p_def busy_wait_def wait_until_BSY_is_zero_def inb_p_eq Let_def
          del: upt_rec_numeral)
    with True I(5,6) r(3) show ?thesis by (intro exI [of _ es5]) (simp add: drive_words_def)
  qed
qed

section \<open>Opening the disk\<close>

lemma initialize_common_spec:
  assumes d: "ata_disk dev c n" "ata_identify dev present ident n" "n < 1000"
  shows "\<exists>es. initialize_common dev device s =
      Some (True, s\<lparr>trace := es, max_logical_sector_num := sector_limit present ident (device \<noteq> 0)\<rparr>)
    \<and> \<not> transferring es \<and> disk c es = disk c (trace s)"
proof -
  obtain r where r: "do_soft_reset dev device s = s\<lparr>trace := r\<rparr>" "command r = 0x08"
    "slave_selected r = (device \<noteq> 0)" "disk c r = disk c (trace s)"
    using soft_reset by blast
  let ?l = "InB CYLINDER_LOW_REGISTER 0"
  have l: "list_all harmless [?l]" by simp
  have low: "get_cylinder_regster dev CYLINDER_LOW_REGISTER (s\<lparr>trace := r\<rparr>) = (0, s\<lparr>trace := ?l # r\<rparr>)"
    using ata_identifyD(1) [OF d(2) r(2)] by (simp add: get_cylinder_regster_def inb_p_eq)
  have "command (?l # r) = 0x08" using r(2) by (simp add: command_Cons)
  then have high: "get_cylinder_regster dev CYLINDER_HIGH_REGISTER (s\<lparr>trace := ?l # r\<rparr>) =
      (0, s\<lparr>trace := InB CYLINDER_HIGH_REGISTER 0 # ?l # r\<rparr>)"
    using ata_identifyD(2) [OF d(2)] by (simp add: get_cylinder_regster_def inb_p_eq)
  define es where "es = InB CYLINDER_HIGH_REGISTER 0 # ?l # r"
  have h: "list_all harmless [InB CYLINDER_HIGH_REGISTER 0, ?l]" by simp
  have "command (trace (s\<lparr>trace := es\<rparr>)) = 0x08" "disk c es = disk c (trace s)"
    using harmless_append [OF h, where es = r] r by (simp_all add: es_def)
  from identify_device_spec [OF d this(1), of device "\<lambda>_. 0"] this(2) obtain es' where
    i: "do_identify_device dev device (\<lambda>_. 0) (s\<lparr>trace := es\<rparr>) =
      Some (True, drive_words present ident (device \<noteq> 0) (\<lambda>_. 0), s\<lparr>trace := es'\<rparr>)"
    "\<not> transferring es'" "disk c es' = disk c (trace s)" by auto
  have "get_device_type 0 0 = DEV_TYPE_ATA" by (simp add: get_device_type_def)
  then have "initialize_common dev device s = (case do_identify_device dev device (\<lambda>_. 0) (s\<lparr>trace := es\<rparr>) of
      None \<Rightarrow> None
    | Some (ret, buf, s) \<Rightarrow>
        if \<not> ret then Some (False, printk_line ''identify device failed'' [] s)
        else Some (True, s\<lparr>max_logical_sector_num := push_bit 16 (ucast (buf 61)) OR ucast (buf 60)\<rparr>))"
    using r(1) low high by (simp add: initialize_common_def es_def)
  with i show ?thesis by (intro exI [of _ es']) (simp add: drive_words_def sector_limit_def)
qed

lemma open_ATA_disk_spec:
  assumes d: "ata_disk dev c n" "ata_identify dev present ident n" "n < 1000"
  shows "\<exists>es. open_ATA_disk dev s =
      Some (0, s\<lparr>trace := es, max_logical_sector_num := sector_limit present ident True\<rparr>)
    \<and> \<not> transferring es \<and> disk c es = disk c (trace s)"
proof -
  obtain es where es: "initialize_common dev 0 s =
      Some (True, s\<lparr>trace := es, max_logical_sector_num := sector_limit present ident False\<rparr>)"
    "disk c es = disk c (trace s)"
    using initialize_common_spec [OF d, of 0 s] by auto
  let ?t = "s\<lparr>trace := es, max_logical_sector_num := sector_limit present ident False\<rparr>"
  obtain es' where "initialize_common dev 1 ?t =
      Some (True, ?t\<lparr>trace := es', max_logical_sector_num := sector_limit present ident True\<rparr>)"
    "\<not> transferring es'" "disk c es' = disk c (trace ?t)"
    using initialize_common_spec [OF d, of 1 ?t] by auto
  with es show ?thesis by (intro exI [of _ es']) (simp add: open_ATA_disk_def initialize_ata_def)
qed

section \<open>Properties\<close>

text \<open>
  C21. Opening the disk. On a bus with a master and possibly a slave that follow the reset and the
  identification protocol, \<^verbatim>\<open>open_ATA_disk\<close> returns with success and the drives idle, has changed no
  sector, and has set the limit of the sector numbers to words 60 and 61 of the slave, or to
  0 if there is none: what the master has identified itself with is overwritten. So with a master alone
  every write and every read of a sector but number 0 is rejected.
\<close>

theorem open_disk_limit:
  assumes "ata_disk dev c n" and "ata_identify dev present ident n" and "n < 1000"
  shows "\<exists>s'. open_ATA_disk dev s = Some (0, s') \<and> disk_idle s' \<and> mem s' = mem s
    \<and> disk c (trace s') = disk c (trace s)
    \<and> max_logical_sector_num s' =
        (if present True then push_bit 16 (ucast (ident True 61)) OR ucast (ident True 60) else 0)
    \<and> (\<not> present True \<longrightarrow> 0 < sector \<longrightarrow> fst (write_sector dev device sector buf words s') = - 1
        \<and> (\<exists>t. read_sector dev device sector buf 256 s' = Done (- 1) t))"
proof -
  obtain es where "open_ATA_disk dev s =
      Some (0, s\<lparr>trace := es, max_logical_sector_num := sector_limit present ident True\<rparr>)"
    "\<not> transferring es" "disk c es = disk c (trace s)"
    using open_ATA_disk_spec [OF assms] by blast
  then show ?thesis
    by (auto simp: disk_idle_def sector_limit_def write_sector_def read_sector_def sector_rw_rejects)
qed

text \<open>A bus whose drives answer at once.\<close>

definition demo_drives :: "(bool \<Rightarrow> bool) \<Rightarrow> (bool \<Rightarrow> nat \<Rightarrow> u16) \<Rightarrow> device" where
  "demo_drives present ident es p =
     (if p = STATUS_REGISTER then (if transferring es then 8 else if present (slave_selected es) then 0x40 else 0)
      else if p = DATA_REGISTER then
        (if command es = 0xec then ucast (ident (slave_selected es) (transferred es))
         else ucast (disk (\<lambda>_ _. 0) es (lba es) (transferred es)))
      else 0)"

lemma demo_drives_ok:
  "ata_disk (demo_drives present ident) (\<lambda>_ _. 0) 0" "ata_identify (demo_drives present ident) present ident 0"
proof -
  have b8: "bit (8 :: int) k \<longleftrightarrow> k = 3" for k by (rule bit_pow2) simp
  have b64: "bit (64 :: int) k \<longleftrightarrow> k = 6" for k by (rule bit_pow2) simp
  have s: "bit (8 :: u8) 3" "\<not> bit (8 :: u8) 0" "\<not> bit (8 :: u8) 5" "\<not> bit (8 :: u8) 7" "bit (0x40 :: u8) 6"
    by (simp_all add: bit_simps b8 b64)
  have u: "ucast (ucast w :: u32) = w" for w :: u16
    by (rule bit_word_eqI) (simp add: bit_simps)
  show "ata_disk (demo_drives present ident) (\<lambda>_ _. 0) 0"
    using s u by (auto simp: ata_disk_def demo_drives_def ata_ports PIO_SECTOR_READ_CMD_def)
  show "ata_identify (demo_drives present ident) present ident 0"
    using s u by (auto simp: ata_identify_def demo_drives_def ata_ports identifying_transfers reset_idle)
qed

theorem open_disk_limit_witness:
  "(\<exists>s'. open_ATA_disk (demo_drives (\<lambda>_. True) (\<lambda>b i. if b then 200 else 1000)) boot_ata = Some (0, s')
      \<and> disk_idle s' \<and> max_logical_sector_num s' = 200 * 0x10001)
   \<and> (\<exists>s'. open_ATA_disk (demo_drives Not (\<lambda>b i. 1000)) boot_ata = Some (0, s')
      \<and> max_logical_sector_num s' = 0 \<and> fst (write_sector (demo_drives Not (\<lambda>b i. 1000)) 0 100 0x5000 256 s') = - 1)"
proof -
  have "push_bit 16 (ucast (200 :: u16)) OR ucast (200 :: u16) = (200 * 0x10001 :: u32)"
    by (simp add: push_bit_eq_mult)
  with open_disk_limit [OF demo_drives_ok(1,2), where s = boot_ata and present = "\<lambda>_. True"
      and ident = "\<lambda>b i. if b then 200 else 1000" and sector = 100 and device = 0 and buf = "0x5000" and words = 256]
    open_disk_limit [OF demo_drives_ok(1,2), where s = boot_ata and present = Not
      and ident = "\<lambda>b i. 1000" and sector = 100 and device = 0 and buf = "0x5000" and words = 256]
  show ?thesis by fastforce
qed

end
