(* ===== verification/Boot_Disk.thy ===== *)
theory Boot_Disk
  imports Drivers Blk_Props Ata_Open
begin

text \<open>
  The second half of the boot from end to end: the bus is scanned, the controller found, its driver
  registered and looked up, the disk opened, a text written to sector 100, read back and printed.
\<close>

section \<open>What the scan and the registration leave alone\<close>

definition off_screen :: "memory \<Rightarrow> memory" where
  "off_screen m = (\<lambda>q. if q \<in> screen_area then 0 else m q)"

definition boot_view :: "(u32 \<Rightarrow> nat \<Rightarrow> u16) \<Rightarrow> 'a kernel_state_scheme
    \<Rightarrow> (u32 \<Rightarrow> nat \<Rightarrow> u16) \<times> (bptr \<Rightarrow> bptr) \<times> (bptr \<Rightarrow> u32) \<times> memory" where
  "boot_view c s = (disk c (trace s), blk_next s, blk_op s, off_screen (mem s))"

definition heap_view :: "'a kernel_state_scheme \<Rightarrow> (nat \<Rightarrow> u8) \<times> u32 \<times> u32 \<times> (pptr \<Rightarrow> pptr)" where
  "heap_view s = (heap_alloc_table s, sTopAddr s, sTotalSize s, pci_next s)"

lemma boot_viewD:
  assumes "boot_view c s' = boot_view c s"
  shows "disk c (trace s') = disk c (trace s)" "blk_next s' = blk_next s" "blk_op s' = blk_op s"
    "q \<notin> screen_area \<Longrightarrow> mem s' q = mem s q"
proof -
  show "disk c (trace s') = disk c (trace s)" "blk_next s' = blk_next s" "blk_op s' = blk_op s"
    using assms by (simp_all add: boot_view_def)
  have "off_screen (mem s') q = off_screen (mem s) q" using assms by (simp add: boot_view_def)
  then show "q \<notin> screen_area \<Longrightarrow> mem s' q = mem s q" by (simp add: off_screen_def)
qed

lemma boot_view_kmalloc: "kmalloc n s = Done p t \<Longrightarrow> boot_view c t = boot_view c s"
  by (simp add: boot_view_def kmalloc_trace kmalloc_mem)

lemma off_screen_cells: "off_screen (mem (put_char_pos c a b s)) = off_screen (mem s)"
  by (simp add: off_screen_def put_char_pos_outside fun_eq_iff)

interpretation disk_bus: bus_frame "boot_view c" "\<lambda>s s'. boot_view c s' = boot_view c s" for c
proof (unfold_locales, goal_cases)
  case (3 x a b s) then show ?case by (simp add: boot_view_def off_screen_cells) (simp add: put_char_pos_def)
next
  case (13 n s p s') then show ?case by (rule boot_view_kmalloc)
qed (simp_all add: boot_view_def inl_p_def outl_p_def outb_p_def kern_lock_def kern_unlock_def cli_def sti_def Let_def)

interpretation heap_output: quiet_frame heap_view
  by unfold_locales (simp_all add: heap_view_def put_char_pos_def inl_p_def outl_p_def outb_p_def
      kern_lock_def kern_unlock_def cli_def sti_def Let_def)

interpretation limit_output: quiet_frame max_logical_sector_num
  by unfold_locales (simp_all add: put_char_pos_def inl_p_def outl_p_def outb_p_def
      kern_lock_def kern_unlock_def cli_def sti_def Let_def)

interpretation ops_kept: drive_frame blk_op
  by unfold_locales (simp_all add: put_char_pos_def inl_p_def outl_p_def outb_p_def inb_p_def inw_p_def outw_p_def
      busy_wait_def kern_lock_def kern_unlock_def cli_def sti_def Let_def)

section \<open>Strings of the kernel\<close>

text \<open>A string that the screen does not overlap stays what it is while the kernel prints.\<close>

definition literal :: "memory \<Rightarrow> u32 \<Rightarrow> u8 list \<Rightarrow> bool" where
  "literal m p xs \<longleftrightarrow> cstr m p xs \<and> region p (Suc (length xs)) \<inter> screen_area = {}"

lemma literal_frame:
  "literal m p xs \<Longrightarrow> (\<And>q. q \<in> region p (Suc (length xs)) \<Longrightarrow> q \<notin> screen_area \<Longrightarrow> m' q = m q) \<Longrightarrow> literal m' p xs"
  using cstr_frame [of m p xs m'] by (auto simp: literal_def)

lemma literal_view: "literal (mem s) p xs \<Longrightarrow> boot_view c s' = boot_view c s \<Longrightarrow> literal (mem s') p xs"
  by (erule literal_frame) (rule boot_viewD(4))

lemma put_str_literal: "literal (mem s) p xs \<Longrightarrow> put_str p s = Some (put_bytes xs s)"
proof (rule put_str_bytes)
  assume l: "literal (mem s) p xs"
  then show "cstr (mem s) p xs" by (simp add: literal_def)
  show "\<forall>i \<le> length xs. p + of_nat i \<notin> screen_area"
    using l region_mem [of _ "Suc (length xs)" p] by (auto simp: literal_def less_Suc_eq_le disjoint_iff)
qed

lemma literal_put_bytes: "literal (mem s) p xs \<Longrightarrow> literal (mem (put_bytes bs s)) p xs"
  by (erule literal_frame) (rule put_bytes_outside)

lemma printk_line_output: "printk (fmt @ [CHR 0x0a]) ap s \<noteq> None \<Longrightarrow> \<exists>bs. printk_line fmt ap s = put_bytes bs s"
  using printk_output unfolding printk_def printk_line_def by fastforce

section \<open>The lists are printed\<close>

lemma put_bytes_lists [simp]:
  "pci_next (put_bytes bs s) = pci_next s" "blk_next (put_bytes bs s) = blk_next s" "blk_op (put_bytes bs s) = blk_op s"
  for s :: "'a kernel_state_scheme"
  using heap_output.put_bytes [of bs s] boot_viewD(2,3) [OF disk_bus.put_bytes] by (auto simp: heap_view_def)

lemma show_pci_prints:
  "path (pci_next s) a (map PNode ps) PHead \<Longrightarrow> \<exists>bs. show_pci_loop a s = Some (put_bytes bs s)"
  for s :: "'a kernel_state_scheme"
proof (induction ps arbitrary: a s)
  case Nil
  then show ?case by (subst show_pci_loop.simps) (auto intro: exI [of _ "[]"])
next
  case (Cons p ps)
  let ?d = "pci_data s p"
  let ?t = "printk_line ''Found Device: Bus %d:Devfn %d:Vender 0x%x:Device 0x%x:func %d:header 0x%x:Class 0x%lx-0x%lx:Multi %d''
    [PInt (ucast (pd_bus ?d)), PInt (ucast (pd_devfn ?d)), PInt (ucast (pd_vender ?d)),
     PInt (ucast (pd_devid ?d)), PInt (ucast (pd_func ?d)), PInt (ucast (pd_header_type ?d)),
     PInt (pd_base_class ?d), PInt (pd_sub_class ?d), PInt (ucast (pd_multi ?d))] s"
  have "\<exists>bs. ?t = put_bytes bs s" by (rule printk_line_output) (simp add: printk_def printk_loop.simps)
  then obtain bs where bs: "?t = put_bytes bs s" by blast
  have "path (pci_next ?t) (pci_next s (PNode p)) (map PNode ps) PHead" using Cons.prems by (simp add: bs)
  from Cons.IH [OF this] obtain cs where cs: "show_pci_loop (pci_next s (PNode p)) ?t = Some (put_bytes cs ?t)" by blast
  have "show_pci_loop a s = show_pci_loop (pci_next ?t (PNode p)) ?t"
    using Cons.prems by (subst show_pci_loop.simps) (simp add: Let_def)
  also have "\<dots> = Some (put_bytes cs (put_bytes bs s))" using cs by (simp add: bs)
  finally show ?case by (intro exI [of _ "bs @ cs"]) (simp add: put_bytes_append)
qed

lemma show_blk_prints:
  "path (blk_next s) a (map BNode ps) BHead \<Longrightarrow> \<forall>p \<in> set ps. literal (mem s) (blk_op s (BNode p)) (name_of p) \<Longrightarrow>
   \<exists>bs. show_blk_loop a s = Some (put_bytes bs s)" for s :: "'a kernel_state_scheme"
proof (induction ps arbitrary: a s)
  case Nil
  then show ?case by (subst show_blk_loop.simps) (auto intro: exI [of _ "[]"])
next
  case (Cons p ps)
  define o1 where "o1 = bytes_of ''registered driver [''"
  define o2 where "o2 = bytes_of '']'' @ [0x0a]"
  let ?t = "put_bytes o2 (put_bytes (name_of p) (put_bytes o1 s))"
  have "literal (mem (put_bytes o1 s)) (blk_op s (BNode p)) (name_of p)"
    using Cons.prems(2) by (simp add: literal_put_bytes del: put_bytes_simps)
  from put_str_literal [OF this] have n: "put_str (blk_op s (BNode p)) (put_bytes o1 s) = Some (put_bytes (name_of p) (put_bytes o1 s))" .
  have "\<forall>p \<in> set ps. literal (mem ?t) (blk_op ?t (BNode p)) (name_of p)"
    using Cons.prems(2) by (simp add: literal_put_bytes del: put_bytes_simps)
  with Cons.IH [of ?t "blk_next s (BNode p)"] Cons.prems(1) obtain cs where
    "show_blk_loop (blk_next s (BNode p)) ?t = Some (put_bytes cs ?t)" by (auto simp del: put_bytes_simps)
  moreover have "show_blk_loop a s = show_blk_loop (blk_next ?t (BNode p)) ?t"
    using Cons.prems(1) n
    by (subst show_blk_loop.simps, fold o1_def o2_def) (simp add: Let_def del: put_bytes_simps)
  ultimately show ?case
    by (intro exI [of _ "o1 @ name_of p @ o2 @ cs"]) (simp add: put_bytes_append del: put_bytes_simps)
qed

section \<open>From the scan to the registered driver\<close>

lemma pci_ok_heap_view:
  assumes "pci_ok s ds n" and "heap_view t = heap_view s"
  shows "\<exists>ds'. pci_ok t ds' n"
proof -
  have h: "heap_alloc_table t = heap_alloc_table s" "sTopAddr t = sTopAddr s" "sTotalSize t = sTotalSize s" "pci_next t = pci_next s"
    using assms(2) by (simp_all add: heap_view_def)
  obtain ps where ps: "path (pci_next s) (pci_next s PHead) (map PNode ps) PHead" "distinct ps"
    "ps \<noteq> [] \<longrightarrow> sTopAddr s \<noteq> 0" "\<forall>p \<in> set ps. \<exists>k. k + 40 \<le> n \<and> p = sTopAddr s + of_nat k"
    and r: "kmalloc_ready s" "heap_page s" "unat (sTotalSize s) = n" "n \<le> 4096"
    using assms(1) unfolding pci_ok_def by blast
  have "kmalloc_ready t" "heap_page t" using r(1,2) by (simp_all add: kmalloc_ready_def heap_page_def h)
  with ps r(3,4) have "pci_ok t (map (pci_data t) ps) n" unfolding pci_ok_def h by blast
  then show ?thesis by blast
qed

definition controller_on :: "(u32 \<Rightarrow> u32) \<Rightarrow> bool" where
  "controller_on cfg \<longleftrightarrow> (\<exists>d \<in> set (bus_devices cfg). pci_matches 0x8086 0x7111 1 d)"

lemma find_ata_finds:
  assumes "pci_ok s ds n" and "\<exists>d \<in> set ds. pci_matches 0x8086 0x7111 1 d"
  shows "\<exists>a t. find_ata_device s = Some (True, t)"
proof -
  obtain r where r: "get_pci_device 0x8086 0x7111 1 s = Some r" "map_option (pci_data s) r = find (pci_matches 0x8086 0x7111 1) ds"
    using get_pci_device_finds [OF assms(1)] by blast
  have "find (pci_matches 0x8086 0x7111 1) ds \<noteq> None" using assms(2) by (auto simp: find_None_iff)
  with r(2) have "r \<noteq> None" by auto
  with r(1) show ?thesis by (simp add: find_ata_device_def ata_info_def)
qed

lemma register_result:
  assumes "register_blk_driver op s = Done r u" and "kmalloc sizeof_blk_device_drivers s = Done p t"
  shows "mem u = mem s" "trace u = trace s"
  using assms kmalloc_mem [OF assms(2)] kmalloc_trace [OF assms(2)]
  by (auto simp: register_blk_driver_def Let_def split: if_splits)

lemma driver_registered:
  fixes s :: "'a kernel_state_scheme"
  assumes cfg: "config_space dev cfg" "controller_on cfg" and ok: "pci_ok s [] n"
    and room: "n + 40 * length (bus_devices cfg) + 8 \<le> 4096" and none: "blk_list s []"
    and lit: "literal (mem s) op nm"
  shows "\<exists>t u v w p. find_pci_device dev s = Done () t \<and> show_all_pci_device t = Some u
    \<and> init_ata_disk_driver dev op u = Some (Done True v) \<and> show_all_registered_driver v = Some w
    \<and> blk_list w [p] \<and> blk_op w (BNode p) = op
    \<and> disk c (trace w) = disk c (trace s) \<and> (\<forall>q. q \<notin> screen_area \<longrightarrow> mem w q = mem s q)"
proof -
  let ?n = "n + 40 * length (bus_devices cfg)"
  obtain t where t: "find_pci_device dev s = Done () t" "pci_ok t (rev (bus_devices cfg)) ?n"
    using find_pci_scan [OF cfg(1) ok] room by (auto simp: scan_result_def)
  obtain ps where "path (pci_next t) (pci_next t PHead) (map PNode ps) PHead" using t(2) by (auto simp: pci_ok_def)
  from show_pci_prints [OF this] obtain bs where u: "show_all_pci_device t = Some (put_bytes bs t)"
    unfolding show_all_pci_device_def by blast
  let ?u = "put_bytes bs t"
  have pu: "pci_ok ?u (rev (bus_devices cfg)) ?n"
    using t(2) con_more_pci [OF put_bytes_more [of bs t]] by simp
  obtain x where f: "find_ata_device ?u = Some (True, x)"
    using find_ata_finds [OF pu] cfg(2) by (auto simp: controller_on_def)
  let ?x = "get_base_address dev (set_bus_master_bit dev x)"
  have "heap_view ?x = heap_view ?u" using heap_output.find_ata [OF f] by simp
  from pci_ok_heap_view [OF pu this] obtain ds where px: "pci_ok ?x ds ?n" by blast
  have 8: "unat sizeof_blk_device_drivers = 8" by (simp add: sizeof_blk_device_drivers_def)
  obtain p k where k: "kmalloc sizeof_blk_device_drivers ?x = Done p k" "p \<noteq> 0"
    by (rule kmalloc_block [OF px, of sizeof_blk_device_drivers]) (use room 8 in simp_all)
  have "boot_view c ?x = boot_view c x" by (simp only: disk_bus.setup_ata)
  also have "\<dots> = boot_view c ?u" by (rule disk_bus.find_ata [OF f])
  also have "\<dots> = boot_view c t" by (rule disk_bus.put_bytes)
  also have "\<dots> = boot_view c s" by (rule disk_bus.scan [OF t(1)])
  finally have vx: "boot_view c ?x = boot_view c s" .
  have bx: "blk_list ?x []" using none boot_viewD(2) [OF vx] by (simp add: blk_list_def)
  have "p \<notin> set []" by simp
  from register_blk_driver_spec [OF bx k this, of op]
  obtain v where v: "register_blk_driver op ?x = Done () v" "blk_list v [p]" "blk_op v (BNode p) = op" by blast
  note R = register_result [OF v(1) k(1)]
  have iv: "init_ata_disk_driver dev op ?u = Some (Done True v)"
    using f v(1) by (simp add: init_ata_disk_driver_def)
  have "literal (mem v) op nm" using literal_view [OF lit vx] by (simp add: R)
  with show_blk_prints [of v "blk_next v BHead" "[p]" "\<lambda>_. nm"] v(2,3) obtain cs where
    w: "show_all_registered_driver v = Some (put_bytes cs v)"
    by (auto simp: show_all_registered_driver_def blk_list_def)
  let ?w = "put_bytes cs v"
  have "disk c (trace ?w) = disk c (trace s)"
    using boot_viewD(1) [OF disk_bus.put_bytes, of c cs v] boot_viewD(1) [OF vx] by (simp add: R)
  moreover have "\<forall>q. q \<notin> screen_area \<longrightarrow> mem ?w q = mem s q"
    using boot_viewD(4) [OF vx] by (simp add: put_bytes_outside R)
  ultimately show ?thesis
    using t(1) u iv w v(2,3)
    by (intro exI [of _ t] exI [of _ ?u] exI [of _ v] exI [of _ ?w] exI [of _ p]) (simp add: blk_list_def)
qed

section \<open>The test of the disk\<close>

lemma same_outside_region: "same_outside p n m m' \<longleftrightarrow> (\<forall>q. q \<notin> region p n \<longrightarrow> m' q = m q)"
proof -
  have "q \<notin> region p n \<longleftrightarrow> (\<forall>i < n. q \<noteq> p + of_nat i)" for q by (auto simp: region_def)
  then show ?thesis by (simp add: same_outside_def)
qed

lemma strcpy_region:
  assumes "cstr m src xs" and "region dst (Suc (length xs)) \<inter> region src (Suc (length xs)) = {}" and "length xs < 2 ^ 32"
  shows "\<exists>r m'. strcpy dst src m = Some (r, m') \<and> cstr m' dst xs \<and> (\<forall>q. q \<notin> region dst (Suc (length xs)) \<longrightarrow> m' q = m q)"
proof -
  have "dst + of_nat i \<noteq> src + of_nat j" if "i < j" "j < Suc (length xs)" for i j
    using assms(2) that region_mem [of i "Suc (length xs)" dst] region_mem [of j "Suc (length xs)" src] by force
  then have "copy_safe dst src (Suc (length xs))" by (simp add: copy_safe_def)
  from strcpy_spec [OF assms(1) this assms(3)] show ?thesis unfolding same_outside_region by blast
qed

text \<open>Two buffers with the same words have the same bytes.\<close>

lemma word_bytes: "ucast (read16 m p) = m p" "ucast (drop_bit 8 (read16 m p)) = m (p + 1)"
  by (rule bit_word_eqI; auto simp: read16_def bit_simps dest: bit_imp_le_length)+

lemma buf_word_bytes:
  assumes "\<forall>i < 256. buf_word m a i = buf_word m' b i" and "k < 512"
  shows "m (a + of_nat k) = m' (b + of_nat k)"
proof -
  have i: "k div 2 < 256" using assms(2) by simp
  with assms(1) have w: "read16 m (a + of_nat (2 * (k div 2))) = read16 m' (b + of_nat (2 * (k div 2)))"
    by (simp add: buf_word_def)
  show ?thesis
  proof (cases "even k")
    case True
    then have "2 * (k div 2) = k" by simp
    with w word_bytes(1) show ?thesis by metis
  next
    case False
    then have k: "k = Suc (2 * (k div 2))" by simp
    have "a + of_nat k = a + of_nat (2 * (k div 2)) + 1" "b + of_nat k = b + of_nat (2 * (k div 2)) + 1"
      by (subst k, simp add: ac_simps)+
    with w word_bytes(2) show ?thesis by metis
  qed
qed

lemma buf_word_cstr:
  assumes "\<forall>i < 256. buf_word m a i = buf_word m' b i" and "cstr m b' xs" and "length xs < 512" and "b' = a"
  shows "cstr m' b xs"
proof -
  have "m' (b + of_nat k) = m (a + of_nat k)" if "k \<le> length xs" for k
    using buf_word_bytes [OF assms(1), of k] that assms(3) by simp
  with assms(2,4) show ?thesis by (auto simp: cstr_def block_at_def)
qed

text \<open>
  The image: its strings are off the screen and the two buffers off the screen, off each other
  and off the strings copied into them.
\<close>

definition image_texts :: "image \<Rightarrow> memory \<Rightarrow> u8 list \<Rightarrow> u8 list \<Rightarrow> u8 list \<Rightarrow> bool" where
  "image_texts im m nm nd td \<longleftrightarrow>
     literal m (ata_dev im) nm \<and> literal m (lit_ata_disk im) nm
     \<and> literal m (lit_no_disk im) nd \<and> literal m (lit_test_data im) td \<and> length nd < 512 \<and> length td < 512
     \<and> region (buf0 im) 512 \<inter> screen_area = {} \<and> region (buf1 im) 512 \<inter> screen_area = {}
     \<and> region (buf0 im) 512 \<inter> region (buf1 im) 512 = {}
     \<and> region (buf1 im) 512 \<inter> region (lit_no_disk im) (Suc (length nd)) = {}
     \<and> (region (buf0 im) 512 \<union> region (buf1 im) 512) \<inter> region (lit_test_data im) (Suc (length td)) = {}"

lemma image_texts_frame:
  assumes "image_texts im m nm nd td" and "\<And>q. q \<notin> screen_area \<Longrightarrow> m' q = m q"
  shows "image_texts im m' nm nd td"
proof -
  have "literal m' p xs" if "literal m p xs" for p xs using that by (rule literal_frame) (rule assms(2))
  with assms(1) show ?thesis by (simp add: image_texts_def)
qed

text \<open>The two copies into the buffers.\<close>

lemma buffers_filled:
  assumes im: "image_texts im m nm nd td"
  shows "\<exists>r m1 r' m2. strcpy (buf1 im) (lit_no_disk im) m = Some (r, m1)
    \<and> strcpy (buf0 im) (lit_test_data im) m1 = Some (r', m2)
    \<and> literal m2 (buf1 im) nd \<and> cstr m2 (buf0 im) td"
proof -
  let ?n = "Suc (length nd)" and ?t = "Suc (length td)"
  have le: "?n \<le> 512" "?t \<le> 512" using im by (simp_all add: image_texts_def)
  have nd: "cstr m (lit_no_disk im) nd" and td: "cstr m (lit_test_data im) td"
    using im by (simp_all add: image_texts_def literal_def)
  have D: "region (buf1 im) ?n \<inter> region (lit_no_disk im) ?n = {}" "region (buf0 im) ?t \<inter> region (lit_test_data im) ?t = {}"
    "region (buf1 im) ?n \<inter> region (lit_test_data im) ?t = {}" "region (buf1 im) ?n \<inter> region (buf0 im) ?t = {}"
    "region (buf1 im) ?n \<inter> screen_area = {}"
    using im region_mono [OF le(1), of "buf1 im"] region_mono [OF le(2), of "buf0 im"] unfolding image_texts_def by auto
  from strcpy_region [OF nd D(1)] le obtain r m1 where m1: "strcpy (buf1 im) (lit_no_disk im) m = Some (r, m1)"
    "cstr m1 (buf1 im) nd" "\<forall>q. q \<notin> region (buf1 im) ?n \<longrightarrow> m1 q = m q" by auto
  have "cstr m1 (lit_test_data im) td"
    by (rule cstr_frame [OF td], rule m1(3) [rule_format]) (use D(3) in auto)
  from strcpy_region [OF this D(2)] le obtain r' m2 where m2: "strcpy (buf0 im) (lit_test_data im) m1 = Some (r', m2)"
    "cstr m2 (buf0 im) td" "\<forall>q. q \<notin> region (buf0 im) ?t \<longrightarrow> m2 q = m1 q" by auto
  have "cstr m2 (buf1 im) nd"
    by (rule cstr_frame [OF m1(2)], rule m2(3) [rule_format]) (use D(4) in auto)
  then have "literal m2 (buf1 im) nd" using D(5) by (simp add: literal_def)
  with m1(1) m2(1,2) show ?thesis by blast
qed

text \<open>The driver is looked up by its name.\<close>

lemma driver_looked_up:
  assumes "blk_list s [p]" and "blk_op s (BNode p) = ata_dev im" and "image_texts im (mem s) nm nd td"
  shows "get_blk_driver (lit_ata_disk im) s = Some (Some (BNode p))"
proof -
  have c: "cstr (mem s) (ata_dev im) nm" "cstr (mem s) (lit_ata_disk im) nm"
    using assms(3) by (simp_all add: image_texts_def literal_def)
  have "\<forall>q \<in> set [p]. cstr (mem s) (blk_op s (BNode q)) ((\<lambda>_. nm) q)" using c(1) assms(2) by simp
  from get_blk_driver_finds [OF assms(1) this c(2)] show ?thesis by simp
qed

text \<open>Writing, reading back and printing, when the sector is within the limit and when it is not.\<close>

lemma disk_test_passed:
  assumes d: "ata_disk dev c k" "k \<le> 6" and i: "disk_idle s" and l: "100 \<le> max_logical_sector_num s"
    and td: "cstr (mem s) (buf0 im) td" "length td < 512" and b1: "region (buf1 im) 512 \<inter> screen_area = {}"
  shows "\<exists>u v. write_sector dev 0 100 (buf0 im) SECTOR_SIZE s = (0, u)
    \<and> read_sector dev 0 100 (buf1 im) SECTOR_SIZE u = Done 0 v \<and> literal (mem v) (buf1 im) td
    \<and> disk c (trace v) = (disk c (trace s))(100 :=
        \<lambda>i. if i < 256 then buf_word (mem v) (buf1 im) i else disk c (trace s) 100 i)"
proof -
  have z: "SECTOR_SIZE = 256" by (simp add: SECTOR_SIZE_def)
  have small: "(100 :: u32) < 2 ^ 28" by simp
  obtain u where u: "write_sector dev 0 100 (buf0 im) 256 s = (0, u)" "disk_idle u"
    "max_logical_sector_num u = max_logical_sector_num s"
    "disk c (trace u) = (disk c (trace s))(100 :=
        \<lambda>i. if i < 256 then buf_word (mem s) (buf0 im) i else disk c (trace s) 100 i)"
    using write_sector_spec [OF d i l small] by blast
  obtain v where v: "read_sector dev 0 100 (buf1 im) 256 u = Done 0 v"
    "\<forall>i < 256. buf_word (mem v) (buf1 im) i = disk c (trace u) 100 i" "disk c (trace v) = disk c (trace u)"
    using read_sector_spec [OF d u(2), of 100 0 "buf1 im"] l small u(3) by auto
  have w: "\<forall>i < 256. buf_word (mem s) (buf0 im) i = buf_word (mem v) (buf1 im) i" using v(2) u(4) by simp
  have "cstr (mem v) (buf1 im) td" by (rule buf_word_cstr [OF w td(1,2) refl])
  moreover have "Suc (length td) \<le> 512" using td(2) by simp
  then have "region (buf1 im) (Suc (length td)) \<inter> screen_area = {}"
    using region_mono [of "Suc (length td)" 512 "buf1 im"] b1 by blast
  moreover have "disk c (trace v) = (disk c (trace s))(100 :=
        \<lambda>i. if i < 256 then buf_word (mem v) (buf1 im) i else disk c (trace s) 100 i)"
    using u(4) v(3) w by (auto simp: fun_eq_iff)
  ultimately show ?thesis using u(1) v(1) z unfolding literal_def by auto
qed

lemma disk_test_rejected:
  fixes s :: "'a kernel_state_scheme"
  assumes l: "\<not> 100 \<le> max_logical_sector_num s" and nd: "literal (mem s) (buf1 im) nd"
  shows "\<exists>u v. write_sector dev 0 100 (buf0 im) SECTOR_SIZE s = (- 1, u)
    \<and> read_sector dev 0 100 (buf1 im) SECTOR_SIZE u = Done (- 1) v \<and> literal (mem v) (buf1 im) nd
    \<and> disk c (trace v) = disk c (trace s)"
proof -
  let ?p = "\<lambda>s :: 'a kernel_state_scheme. printk_line ''Invalid Sector number 0x%lx'' [PInt 100] s"
  have z: "SECTOR_SIZE = 256" by (simp add: SECTOR_SIZE_def)
  have out: "\<exists>bs. ?p s = put_bytes bs s" for s
    by (rule printk_line_output) (simp add: printk_def printk_loop.simps)
  obtain bs where bs: "?p s = put_bytes bs s" using out by blast
  obtain cs where cs: "?p (put_bytes bs s) = put_bytes cs (put_bytes bs s)" using out by blast
  have "\<not> 100 \<le> max_logical_sector_num (put_bytes bs s)" using l limit_output.put_bytes by metis
  with l have w: "write_sector dev 0 100 (buf0 im) 256 s = (- 1, put_bytes bs s)"
    and r: "read_sector dev 0 100 (buf1 im) 256 (put_bytes bs s) = Done (- 1) (put_bytes cs (put_bytes bs s))"
    by (simp_all add: write_sector_def read_sector_def sector_rw_rejects not_le bs cs del: put_bytes_simps)
  have "disk c (trace (put_bytes cs (put_bytes bs s))) = disk c (trace s)"
    using boot_viewD(1) [OF disk_bus.put_bytes] by metis
  with w r literal_put_bytes nd z show ?thesis by metis
qed

section \<open>The rest of the boot\<close>

text \<open>Up to the test: the disk is open, the texts are in the buffers, and what is printed is what the test leaves.\<close>

lemma boot_up_to_test:
  fixes s :: "'a kernel_state_scheme"
  assumes cfg: "config_space dev cfg" "controller_on cfg" and ok: "pci_ok s [] n"
    and room: "n + 40 * length (bus_devices cfg) + 8 \<le> 4096" and none: "blk_list s []"
    and im: "image_texts im (mem s) nm nd td"
    and d: "ata_disk dev c k" "ata_identify dev present ident k" "k \<le> 6"
  shows "\<exists>w. disk_idle w \<and> max_logical_sector_num w = sector_limit present ident True
    \<and> literal (mem w) (buf1 im) nd \<and> cstr (mem w) (buf0 im) td \<and> disk c (trace w) = disk c (trace s)
    \<and> (\<forall>q x z y. write_sector dev 0 100 (buf0 im) SECTOR_SIZE w = (q, x)
        \<longrightarrow> read_sector dev 0 100 (buf1 im) SECTOR_SIZE x = Done z y
        \<longrightarrow> kern_init_devices dev im s = put_str (buf1 im) y)"
proof -
  have lit: "literal (mem s) (ata_dev im) nm" using im by (simp add: image_texts_def)
  obtain a b v w p where D: "find_pci_device dev s = Done () a" "show_all_pci_device a = Some b"
    "init_ata_disk_driver dev (ata_dev im) b = Some (Done True v)" "show_all_registered_driver v = Some w"
    "blk_list w [p]" "blk_op w (BNode p) = ata_dev im"
    "disk c (trace w) = disk c (trace s)" "\<forall>q. q \<notin> screen_area \<longrightarrow> mem w q = mem s q"
    using driver_registered [OF cfg ok room none lit] by blast
  have imw: "image_texts im (mem w) nm nd td" by (rule image_texts_frame [OF im]) (use D(8) in simp)
  note G = driver_looked_up [OF D(5,6) imw]
  obtain es where O: "open_ATA_disk dev w =
      Some (0, w\<lparr>trace := es, max_logical_sector_num := sector_limit present ident True\<rparr>)"
    "\<not> transferring es" "disk c es = disk c (trace w)"
    using open_ATA_disk_spec [OF d(1,2)] d(3) by fastforce
  obtain r m1 r' m2 where B: "strcpy (buf1 im) (lit_no_disk im) (mem w) = Some (r, m1)"
    "strcpy (buf0 im) (lit_test_data im) m1 = Some (r', m2)" "literal m2 (buf1 im) nd" "cstr m2 (buf0 im) td"
    using buffers_filled [OF imw] by blast
  let ?o = "w\<lparr>trace := es, max_logical_sector_num := sector_limit present ident True, mem := m2\<rparr>"
  have "kern_init_devices dev im s = put_str (buf1 im) y"
    if "write_sector dev 0 100 (buf0 im) SECTOR_SIZE ?o = (q, x)" "read_sector dev 0 100 (buf1 im) SECTOR_SIZE x = Done z y" for q x z y
  proof -
    have "blk_op x (BNode p) = ata_dev im"
      using ops_kept.drive_write_sector [of dev 0 100 "buf0 im" SECTOR_SIZE ?o] that(1) D(6) by simp
    with that D(1-4,6) G O(1) B(1,2) show ?thesis
      by (simp add: kern_init_devices_def driver_ops_def ata_dev_ops_def returned_def with_mem_def)
  qed
  then show ?thesis using B(3,4) O(2,3) D(7) by (intro exI [of _ ?o]) (simp add: disk_idle_def)
qed

text \<open>
  With the controller on the bus, room for the nodes, and drives that follow their protocols, the rest
  of the boot gets to its end. \<open>passed\<close>: the test sector is within the limit.
\<close>

lemma kern_init_devices_tests_disk:
  fixes s :: "'a kernel_state_scheme"
  assumes cfg: "config_space dev cfg" "controller_on cfg" and ok: "pci_ok s [] n"
    and room: "n + 40 * length (bus_devices cfg) + 8 \<le> 4096" and none: "blk_list s []"
    and im: "image_texts im (mem s) nm nd td"
    and d: "ata_disk dev c k" "ata_identify dev present ident k" "k \<le> 6"
  shows "\<exists>t. let passed = 100 \<le> sector_limit present ident True; said = (if passed then td else nd); s' = put_bytes said t
    in kern_init_devices dev im s = Some s' \<and> cstr (mem t) (buf1 im) said \<and> keeps s s'
      \<and> disk c (trace s') = (if passed then (disk c (trace s))(100 :=
            \<lambda>i. if i < 256 then buf_word (mem t) (buf1 im) i else disk c (trace s) 100 i)
          else disk c (trace s))"
proof -
  obtain w where w: "disk_idle w" "max_logical_sector_num w = sector_limit present ident True"
    "literal (mem w) (buf1 im) nd" "cstr (mem w) (buf0 im) td" "disk c (trace w) = disk c (trace s)"
    and run: "\<And>q x z y. write_sector dev 0 100 (buf0 im) SECTOR_SIZE w = (q, x) \<Longrightarrow>
      read_sector dev 0 100 (buf1 im) SECTOR_SIZE x = Done z y \<Longrightarrow> kern_init_devices dev im s = put_str (buf1 im) y"
    using boot_up_to_test [OF assms] by blast
  have said: "kern_init_devices dev im s = Some (put_bytes bs y) \<and> cstr (mem y) (buf1 im) bs
      \<and> keeps s (put_bytes bs y) \<and> disk c (trace (put_bytes bs y)) = disk c (trace y)"
    if "write_sector dev 0 100 (buf0 im) SECTOR_SIZE w = (q, x)"
      "read_sector dev 0 100 (buf1 im) SECTOR_SIZE x = Done z y" "literal (mem y) (buf1 im) bs" for q x z y bs
  proof -
    have "kern_init_devices dev im s = Some (put_bytes bs y)" using run [OF that(1,2)] put_str_literal [OF that(3)] by simp
    with keeps_init_devices [OF this] that(3) boot_viewD(1) [OF disk_bus.put_bytes, of c bs y] show ?thesis
      by (simp add: literal_def del: put_bytes_simps)
  qed
  have small: "length td < 512" "region (buf1 im) 512 \<inter> screen_area = {}" using im by (simp_all add: image_texts_def)
  show ?thesis
  proof (cases "100 \<le> sector_limit present ident True")
    case True
    then have "100 \<le> max_logical_sector_num w" using w(2) by simp
    from disk_test_passed [OF d(1,3) w(1) this w(4) small] obtain x y where
      "write_sector dev 0 100 (buf0 im) SECTOR_SIZE w = (0, x)" "read_sector dev 0 100 (buf1 im) SECTOR_SIZE x = Done 0 y"
      "literal (mem y) (buf1 im) td" "disk c (trace y) = (disk c (trace w))(100 :=
        \<lambda>i. if i < 256 then buf_word (mem y) (buf1 im) i else disk c (trace w) 100 i)" by blast
    with said [OF this(1-3)] True w(5) show ?thesis by (intro exI [of _ y]) (simp del: put_bytes_simps cong: if_cong)
  next
    case False
    then have "\<not> 100 \<le> max_logical_sector_num w" using w(2) by simp
    from disk_test_rejected [OF this w(3)] obtain x y where
      "write_sector dev 0 100 (buf0 im) SECTOR_SIZE w = (- 1, x)" "read_sector dev 0 100 (buf1 im) SECTOR_SIZE x = Done (- 1) y"
      "literal (mem y) (buf1 im) nd" "disk c (trace y) = disk c (trace w)" by blast
    with said [OF this(1-3)] False w(5) show ?thesis by (intro exI [of _ y]) (simp del: put_bytes_simps)
  qed
qed

end
