(* ===== verification/Boot_Whole.thy ===== *)
theory Boot_Whole
  imports Boot_Disk
begin

text \<open>
  \<^verbatim>\<open>kern_init\<close> from its first statement to the halt: the setup (\<open>Kernel_Props\<close>) and the rest of the boot
  (\<open>Boot_Disk\<close>) composed.
\<close>

section \<open>What the setup leaves alone\<close>

text \<open>The memory below the page tables, where the kernel's image is.\<close>

definition low :: "memory \<Rightarrow> memory" where
  "low m = (\<lambda>q. if unat q < 0x8f000 then m q else 0)"

lemma write32_low:
  assumes "0x8f000 \<le> unat p" and "unat p + 4 \<le> 2 ^ 32"
  shows "low (write32 p v m) = low m"
proof -
  have "unat (p + of_nat k) = unat p + k" if "k < 4" for k
    using assms(2) that by (simp add: unat_word_ariths unsigned_of_nat take_bit_nat_eq_self)
  from this [of 1] this [of 2] this [of 3] have "unat (p + 1) = unat p + 1" "unat (p + 2) = unat p + 2" "unat (p + 3) = unat p + 3"
    by simp_all
  with assms(1) show ?thesis by (auto simp: low_def write32_def fun_eq_iff)
qed

lemma put_entries_low:
  assumes "0x8f000 \<le> unat t" and "\<forall>j \<in> set is. j < 0x40000" and "unat t + 0x100000 \<le> 2 ^ 32"
  shows "low (put_entries t f is m) = low m"
  using assms(2)
proof (induction "is" arbitrary: m)
  case (Cons j js)
  have "unat (t + of_nat (4 * j)) = unat t + 4 * j"
    using assms(3) Cons.prems by (simp add: unat_word_ariths unsigned_of_nat take_bit_nat_eq_self)
  then have "low (write32 (t + of_nat (4 * j)) (f j) m) = low m"
    using assms Cons.prems by (intro write32_low) simp_all
  with Cons show ?case by (simp add: put_entries_def)
qed (simp add: put_entries_def)

lemma mem_init_low: "low (snd (mem_init (c, m))) = low m"
  by (simp add: mem_init_def put_entries_low Let_def del: upt_rec_numeral)

lemma task_tables_low:
  assumes "i < MAX_HEAP_PAGES" and "j < MAX_HEAP_PAGES"
  shows "low (task_page_table (page_addr j) d stk (task_page_directory (page_addr i) pt m)) = low m"
proof -
  have p: "unat (page_addr i) = 0x100000 + 4096 * i" "unat (page_addr j) = 0x100000 + 4096 * j"
    using assms page_addr_index(1) by simp_all
  show ?thesis
    using assms by (simp add: task_page_table_def task_page_directory_def put_entries_low p MAX_HEAP_PAGES_def Let_def del: upt_rec_numeral)
qed

lemma screen_high: "q \<in> screen_area \<Longrightarrow> 0xb8000 \<le> unat q"
  using region_range [of q SCREEN_START 41312] by (simp add: screen_area_def region_def SCREEN_START_def)

definition setup_view :: "(u32 \<Rightarrow> nat \<Rightarrow> u16) \<Rightarrow> 'a kernel_state_scheme
    \<Rightarrow> (u32 \<Rightarrow> nat \<Rightarrow> u16) \<times> (bptr \<Rightarrow> bptr) \<times> (pptr \<Rightarrow> pptr) \<times> u32 \<times> u32 \<times> memory" where
  "setup_view c s = (disk c (trace s), blk_next s, pci_next s, sTopAddr s, sTotalSize s, low (mem s))"

lemma low_cells: "low (mem (put_char_pos x a b s)) = low (mem s)"
proof -
  have "q \<notin> screen_area" if "unat q < 0x8f000" for q using that screen_high [of q] by fastforce
  then show ?thesis by (simp add: low_def put_char_pos_outside fun_eq_iff)
qed

interpretation booting: quiet_frame "setup_view c" for c
proof (unfold_locales, goal_cases)
  case (3 x a b s) then show ?case by (simp add: setup_view_def low_cells) (simp add: put_char_pos_def)
qed (simp_all add: setup_view_def inl_p_def outl_p_def outb_p_def kern_lock_def kern_unlock_def cli_def sti_def Let_def)

lemma setup_view_steps [simp]:
  "setup_view c (set_handler es v e s) = setup_view c s" "setup_view c (sti s) = setup_view c s"
  "setup_view c (snd (inb_p dev p s)) = setup_view c s"
  "setup_view c (s\<lparr>cr0 := x\<rparr>) = setup_view c s" "setup_view c (s\<lparr>cr4 := x\<rparr>) = setup_view c s"
  "setup_view c (s\<lparr>files := f\<rparr>) = setup_view c s"
  by (simp_all add: setup_view_def set_handler_def sti_def inb_p_def Let_def)

lemma setup_view_low: "low m = low (mem s) \<Longrightarrow> setup_view c (s\<lparr>mem := m\<rparr>) = setup_view c s"
  by (simp add: setup_view_def)

lemma setup_view_con_init: "setup_view c (con_init s) = setup_view c s"
  by (simp add: con_init_def Let_def setup_view_def)

lemma setup_view_timer_init: "setup_view c (timer_init s) = setup_view c s"
  by (simp add: timer_init_def Let_def)

lemma setup_view_handlers: "setup_view c (fold (\<lambda>i. set_handler es (f i) (g i)) vs s) = setup_view c s"
  by (induction vs arbitrary: s) simp_all

lemma setup_view_tables: "setup_view c (setup_tables im s) = setup_view c s"
proof -
  define u where "u = timer_init (con_init
    (fold (\<lambda>v. set_handler (entries im) v (Excp v)) excp_numbers
      (fold (\<lambda>i. set_handler (entries im) (of_nat i) Exception_handler) [0..<EXCEPTION_MAX]
        (update_cursor (s\<lparr>cursor_y := cursor_y s + 2\<rparr>)))))"
  have u: "setup_view c u = setup_view c s"
    by (simp add: u_def setup_view_timer_init setup_view_con_init setup_view_handlers)
  have "setup_view c (setup_tables im s) =
      setup_view c (u\<lparr>cr4 := fst (mem_init (cr4 u, mem u)), mem := snd (mem_init (cr4 u, mem u))\<rparr>)"
    by (simp add: setup_tables_def u_def Let_def)
  also have "\<dots> = setup_view c (u\<lparr>cr4 := fst (mem_init (cr4 u, mem u))\<rparr>)"
    by (rule setup_view_low) (simp add: mem_init_low)
  also have "\<dots> = setup_view c s" by (simp add: u)
  finally show ?thesis .
qed

lemma setup_view_interrupts: "setup_view c (setup_interrupts dev im s) = setup_view c s"
  by (simp add: setup_interrupts_def intr_init_def intr_get_mask_master_def intr_set_mask_master_def Let_def split_beta)

lemma setup_view_kern_task:
  assumes "kern_task_init a s = Some t" and "length (gdt s) = GDT_SIZE"
  shows "setup_view c t = setup_view c s"
  using kern_task_init_spec [OF assms(2), of a] assms(1) by (auto simp: setup_view_def)

lemma setup_view_task_init:
  assumes "task_init d s = Some s'" and "length (gdt s) = GDT_SIZE"
  shows "setup_view c s' = setup_view c s"
proof (rule task_init_result [OF assms], goal_cases)
  case (1 i j k l s4 g)
  obtain h where h: "s4 = s\<lparr>heap_alloc_table := h\<rparr>" using alloc4_shape [OF 1(1)] by blast
  have "low (task_page_table (page_addr j) d (page_addr l) (task_page_directory (page_addr i) (page_addr j) (mem s))) = low (mem s)"
    using 1(2) by (intro task_tables_low) simp_all
  with 1(8) show ?case by (simp add: Let_def setup_view_def h sched_runq_enq_eq)
qed

lemma task_init_leaves_pages:
  assumes "task_init d s = Some s'" and "length (gdt s) = GDT_SIZE" and "used_pages s = {}"
  shows "\<exists>i < MAX_HEAP_PAGES. i \<notin> used_pages s'"
proof (rule task_init_result [OF assms(1,2)], goal_cases)
  case (1 i j k l s4 g)
  have "used_pages s' = used_pages s4" unfolding 1(8) Let_def by (simp add: used_pages_def sched_runq_enq_eq)
  then have u: "used_pages s' = {i, j, k, l}" using 1(5) assms(3) by simp
  have "card {i, j, k, l} < card {..<MAX_HEAP_PAGES}"
    by (rule order.strict_trans1 [of _ 4]) (auto simp: MAX_HEAP_PAGES_def card_insert_if)
  then have "\<not> {..<MAX_HEAP_PAGES} \<subseteq> {i, j, k, l}" by (metis card_mono finite.emptyI finite.insertI leD)
  then show ?case by (auto simp: u)
qed

text \<open>The variables of the drivers before \<^verbatim>\<open>kern_init\<close>, as the loader leaves them.\<close>

definition drivers_initial :: "'a kernel_state_scheme \<Rightarrow> bool" where
  "drivers_initial s \<longleftrightarrow> pci_next s PHead = PHead \<and> blk_next s BHead = BHead \<and> sTopAddr s = 0 \<and> sTotalSize s = 0"

lemma setup_hands_over:
  assumes s: "before_init s" "drivers_initial s" and run: "kern_init_setup dev im s = Some s'"
  shows "setup_view c s' = setup_view c s" "pci_ok s' [] 0" "blk_list s' []"
proof -
  obtain t u where t: "kern_task_init (tss_loc im) (setup_tables im s) = Some t"
    and u: "task_init (data_base_addr (files t) FShell) t = Some u" and s': "s' = setup_interrupts dev im u"
    using run by (auto simp: kern_init_setup_eq split: option.splits)
  have v: "task_view (setup_tables im s) = task_view s" by simp
  then have g: "length (gdt (setup_tables im s)) = GDT_SIZE" "heap_alloc_table (setup_tables im s) = (\<lambda>_. 0)"
    using s(1) by (simp_all add: task_view_def before_init_def gdt_initial_def GDT_SIZE_def del: task_view_tables)
  have tg: "length (gdt t) = GDT_SIZE" "heap_alloc_table t = (\<lambda>_. 0)"
    using kern_task_init_spec [OF g(1), of "tss_loc im"] t g by auto
  have "setup_view c t = setup_view c s"
    using setup_view_kern_task [OF t g(1)] setup_view_tables by metis
  then show view: "setup_view c s' = setup_view c s" for c
    using setup_view_task_init [OF u tg(1)] setup_view_interrupts s' setup_view_kern_task [OF t g(1)] setup_view_tables by metis
  then have f: "pci_next s' = pci_next s" "blk_next s' = blk_next s" "sTopAddr s' = 0" "sTotalSize s' = 0"
    using s(2) by (simp_all add: setup_view_def drivers_initial_def)
  have "used_pages t = {}" by (simp add: used_pages_def tg)
  from task_init_leaves_pages [OF u tg(1) this] obtain i where "i < MAX_HEAP_PAGES" "heap_alloc_table u i = 0"
    by (auto simp: used_pages_def)
  moreover have "heap_alloc_table s' = heap_alloc_table u"
    using task_view_interrupts [of dev im u] by (simp add: s' task_view_def)
  ultimately have "kmalloc_ready s'" by (auto simp: kmalloc_ready_def)
  then show "pci_ok s' [] 0" "blk_list s' []"
    using s(2) f by (auto simp: pci_ok_def heap_page_def drivers_initial_def blk_list_def)
qed

lemma image_texts_low:
  assumes "image_texts im m nm nd td" and "low m' = low m"
    and "region (ata_dev im) (Suc (length nm)) \<union> region (lit_ata_disk im) (Suc (length nm))
      \<union> region (lit_no_disk im) (Suc (length nd)) \<union> region (lit_test_data im) (Suc (length td)) \<subseteq> {q. unat q < 0x8f000}"
  shows "image_texts im m' nm nd td"
proof -
  have same: "m' q = m q" if "unat q < 0x8f000" for q
    using fun_cong [OF assms(2), of q] that by (simp add: low_def)
  have "literal m' p xs" if "literal m p xs" "region p (Suc (length xs)) \<subseteq> {q. unat q < 0x8f000}" for p xs
    using that(1) by (rule literal_frame) (use that(2) same in auto)
  then show ?thesis using assms(1,3) by (simp add: image_texts_def)
qed

section \<open>Properties\<close>

text \<open>
  C4. The boot from end to end. The kernel starts in the state the loader leaves, its strings lie below the
  page tables and its buffers apart from them; the configuration space has the IDE function
  the driver knows and few enough devices for the page of \<^verbatim>\<open>kmalloc\<close>; the drives follow the protocols of
  identification and of the transfer of sectors. Then \<^verbatim>\<open>kern_init\<close>, if no interrupt comes in between, gets to its end with the invariant of the kernel:
  the shell, in pages of its own, is in the run queue, and every gate leads to its handler. If the slave has
  identified itself with a limit of at least 100 sectors, the test text, read back from sector 100, is printed,
  that sector holds the words of the buffer and no other sector has changed; otherwise, even if the master
  is large enough, the text that asks for a drive is printed and the disk is unchanged.
\<close>

theorem kern_init_completes:
  assumes "before_init s" and "drivers_initial s" and "image_texts im (mem s) nm nd td"
    and "region (ata_dev im) (Suc (length nm)) \<union> region (lit_ata_disk im) (Suc (length nm))
      \<union> region (lit_no_disk im) (Suc (length nd)) \<union> region (lit_test_data im) (Suc (length td)) \<subseteq> {q. unat q < 0x8f000}"
    and "config_space dev cfg" and "controller_on cfg" and "40 * length (bus_devices cfg) + 8 \<le> 4096"
    and "ata_disk dev c k" and "ata_identify dev present ident k" and "k \<le> 6"
  shows "\<exists>t p. let passed = 100 \<le> sector_limit present ident True; said = (if passed then td else nd);
      s' = put_bytes said t
    in kern_init dev im s = Some s' \<and> cstr (mem t) (buf1 im) said
      \<and> kernel_ok im s' [p] [task_at p] [] []
      \<and> disk c (trace s') = (if passed then (disk c (trace s))(100 :=
            \<lambda>i. if i < 256 then buf_word (mem t) (buf1 im) i else disk c (trace s) 100 i)
          else disk c (trace s))"
proof -
  obtain u where u: "kern_init_setup dev im s = Some u" using setup_ends [OF assms(1)] by blast
  obtain p where p: "kernel_ok im u [p] [task_at p] [] []" using boot_ok [OF assms(1) u] by blast
  note H = setup_hands_over [OF assms(1,2) u]
  have "low (mem u) = low (mem s)" and d: "disk c (trace u) = disk c (trace s)"
    using H(1) [of c] by (simp_all add: setup_view_def)
  then have im: "image_texts im (mem u) nm nd td" using image_texts_low [OF assms(3) _ assms(4)] by simp
  have run: "kern_init dev im s = kern_init_devices dev im u" by (simp add: kern_init_def u)
  have room: "0 + 40 * length (bus_devices cfg) + 8 \<le> 4096" using assms(7) by simp
  define passed where "passed \<longleftrightarrow> 100 \<le> sector_limit present ident True"
  define said where "said = (if passed then td else nd)"
  from kern_init_devices_tests_disk [OF assms(5,6) H(2) room H(3) im assms(8-10), unfolded Let_def, folded passed_def, folded said_def]
  obtain t where t: "kern_init_devices dev im u = Some (put_bytes said t)" "cstr (mem t) (buf1 im) said"
    "keeps u (put_bytes said t)" "disk c (trace (put_bytes said t)) = (if passed then (disk c (trace u))(100 :=
            \<lambda>i. if i < 256 then buf_word (mem t) (buf1 im) i else disk c (trace u) 100 i)
          else disk c (trace u))" by blast
  have "kernel_ok im (put_bytes said t) [p] [task_at p] [] []" using t(3) p unfolding keeps_def by blast
  then show ?thesis
    unfolding Let_def passed_def [symmetric] said_def [symmetric] run d [symmetric] using t(1,2,4) by blast
qed

text \<open>A board with a bridge of two functions, the second the IDE controller, and up to two drives.\<close>

definition ide_cfg :: "u32 \<Rightarrow> u32" where
  "ide_cfg a =
     (if take_bit 8 (drop_bit 16 a) = 0 \<and> take_bit 5 (drop_bit 11 a) = 1 \<and> take_bit 3 (drop_bit 8 a) \<le> 1
      then (if take_bit 8 a = 0 then (if take_bit 3 (drop_bit 8 a) = 0 then 0x70008086 else 0x71118086)
            else if take_bit 8 a = 0xc then 0x00800000 else 0)
      else 0xffffffff)"

definition demo_board :: "(bool \<Rightarrow> bool) \<Rightarrow> (bool \<Rightarrow> nat \<Rightarrow> u16) \<Rightarrow> device" where
  "demo_board present ident es port =
     (if port = CONFIG_DATA_1 then (case es of OutL a p # _ \<Rightarrow> if p = PCI_CONFIG_ADDRESS then ide_cfg a else 0 | _ \<Rightarrow> 0)
      else demo_drives present ident es port)"

lemma demo_board_ok:
  "config_space (demo_board present ident) ide_cfg" "ata_disk (demo_board present ident) (\<lambda>_ _. 0) 0"
  "ata_identify (demo_board present ident) present ident 0"
proof -
  show "config_space (demo_board present ident) ide_cfg" by (simp add: config_space_def demo_board_def)
  have same: "demo_board present ident es p = demo_drives present ident es p"
    if "p \<in> {ALTERNATE_STATUS_REGISTER, STATUS_REGISTER, DATA_REGISTER, CYLINDER_LOW_REGISTER, CYLINDER_HIGH_REGISTER}" for es p
    using that by (auto simp: demo_board_def CONFIG_DATA_1_def ata_ports)
  show "ata_disk (demo_board present ident) (\<lambda>_ _. 0) 0"
    using demo_drives_ok(1) [of present ident] by (simp add: ata_disk_def same)
  show "ata_identify (demo_board present ident) present ident 0"
    using demo_drives_ok(2) [of present ident] by (simp add: ata_identify_def same)
qed

lemma ide_cfg_slot:
  assumes "d < 32" and "f < 8" and "r < 256"
  shows "ide_cfg (config_address bus d f r) = (if bus = 0 \<and> d = 1 \<and> f \<le> 1
    then (if r = 0 then (if f = 0 then 0x70008086 else 0x71118086) else if r = 0xc then 0x00800000 else 0) else 0xffffffff)"
proof -
  have "(ucast bus :: u32) = 0 \<longleftrightarrow> bus = 0" "(ucast d :: u32) = 1 \<longleftrightarrow> d = 1"
    using less_trans [OF unat_less_256, of 4294967296]
    by (simp_all add: word_unat_eq_iff unsigned_ucast_eq take_bit_nat_eq_self)
  moreover have "(of_nat f :: u32) = 0 \<longleftrightarrow> f = 0" "(of_nat f :: u32) \<le> 1 \<longleftrightarrow> f \<le> 1"
    using assms(2) by (simp_all add: word_unat_eq_iff word_le_nat_alt unsigned_of_nat take_bit_nat_eq_self)
  ultimately show ?thesis unfolding ide_cfg_def config_address_fields [OF assms] by simp
qed

definition ide_functions :: "pci_device list" where
  "ide_functions = [pci_device_of 0 1 0x70008086 0 0 0x00800000 0, pci_device_of 0 1 0x71118086 1 0 0x00800000 0]"

lemma ide_devices: "bus_devices ide_cfg = ide_functions"
proof (rule one_slot_devices)
  fix bus d :: u8 assume d: "d < 32"
  show "slot_devices ide_cfg (bus, d) = (if (bus, d) = (0, 1) then ide_functions else [])"
  proof (cases "(bus, d) = (0, 1)")
    case True
    have "filter (function_present ide_cfg bus d) [0..<7] = [0, 1]"
      using True d by (simp add: upt_rec function_present_def ide_cfg_slot)
    with True d show ?thesis
      by (simp add: slot_devices_def slot_functions_def is_multi_function_def device_at_code ide_functions_def
          PCI_FUNCTION_MAX_def ide_cfg_slot)
  next
    case False
    have "function_present ide_cfg bus d f = False" if "f < 7" for f
      using d that False by (auto simp: function_present_def ide_cfg_slot)
    then show ?thesis using False
      by (auto simp: slot_devices_def slot_functions_def PCI_FUNCTION_MAX_def filter_empty_conv)
  qed
qed

lemma ide_controller: "controller_on ide_cfg" "40 * length (bus_devices ide_cfg) + 8 \<le> 4096"
  by (simp_all add: controller_on_def ide_devices ide_functions_def pci_matches_def pci_device_of_def
      pci_device_zero_def pci_device.defs)

text \<open>An image with strings of one character.\<close>

definition image_memory :: memory where
  "image_memory = (\<lambda>_. 0)(0x9100 := 0x41, 0x9600 := 0x41, 0x9610 := 0x2d, 0x9620 := 0x54)"

definition image_kernel :: kernel_state where
  "image_kernel = boot_kernel\<lparr>mem := image_memory\<rparr>"

lemma regions_apart:
  assumes "unat p + n \<le> unat q" and "unat q + k \<le> 2 ^ 32"
  shows "region p n \<inter> region q k = {}"
  using region_range [of _ p n] region_range [of _ q k] assms by fastforce

lemma region_off_screen:
  assumes "unat p + n \<le> 0x8f000"
  shows "region p n \<inter> screen_area = {}" "region p n \<subseteq> {q. unat q < 0x8f000}"
  using region_range [of _ p n] screen_high assms by fastforce+

lemma image_memory_texts: "image_texts demo_entries image_memory [0x41] [0x2d] [0x54]"
proof -
  have "literal image_memory 0x9100 [0x41]" "literal image_memory 0x9600 [0x41]"
    "literal image_memory 0x9610 [0x2d]" "literal image_memory 0x9620 [0x54]"
    unfolding literal_def by (simp_all add: image_memory_def cstr_simps region_off_screen(1))
  moreover have "region 0x9200 512 \<inter> screen_area = {}" "region 0x9400 512 \<inter> screen_area = {}"
    by (simp_all add: region_off_screen(1))
  moreover have "region 0x9200 512 \<inter> region 0x9400 512 = {}" "region 0x9400 512 \<inter> region 0x9610 2 = {}"
    "region 0x9200 512 \<inter> region 0x9620 2 = {}" "region 0x9400 512 \<inter> region 0x9620 2 = {}"
    by (simp_all add: regions_apart)
  ultimately show ?thesis by (simp add: image_texts_def demo_entries_def Int_Un_distrib2 flip: numeral_2_eq_2)
qed

lemma image_memory_low:
  "region (ata_dev demo_entries) 2 \<union> region (lit_ata_disk demo_entries) 2
    \<union> region (lit_no_disk demo_entries) 2 \<union> region (lit_test_data demo_entries) 2 \<subseteq> {q. unat q < 0x8f000}"
  by (intro Un_least region_off_screen(2)) (simp_all add: demo_entries_def)

lemma image_kernel_ready: "before_init image_kernel" "drivers_initial image_kernel" "mem image_kernel = image_memory"
proof -
  show "before_init image_kernel" using boot_kernel_ready by (simp add: before_init_def image_kernel_def)
  note d = image_kernel_def boot_kernel_def boot_ata_def boot_pci_def boot_task_def boot_heap_def
    boot_con_def con_init_def boot_state_def kernel_state.defs ata_state.defs
    blk_state.defs pci_state.defs task_state.defs heap_state.defs con_state.defs timer_state.defs Let_def
  show "drivers_initial image_kernel" by (simp add: drivers_initial_def d)
  show "mem image_kernel = image_memory" by (simp add: image_kernel_def)
qed

theorem kern_init_completes_witness:
  "(\<exists>t p. kern_init (demo_board (\<lambda>_. True) (\<lambda>_ _. 200)) demo_entries image_kernel = Some (put_bytes [0x54] t)
      \<and> kernel_ok demo_entries (put_bytes [0x54] t) [p] [task_at p] [] [])
   \<and> (\<exists>t p. kern_init (demo_board Not (\<lambda>_ _. 200)) demo_entries image_kernel = Some (put_bytes [0x2d] t)
      \<and> kernel_ok demo_entries (put_bytes [0x2d] t) [p] [task_at p] [] [])"
proof -
  have l: "sector_limit (\<lambda>_. True) (\<lambda>_ _. 200) True = 200 * 0x10001" "sector_limit Not (\<lambda>_ _. 200) True = 0"
    by (simp_all add: sector_limit_def push_bit_eq_mult)
  note ready = image_kernel_ready(1,2) image_memory_texts [folded image_kernel_ready(3)]
  have low: "region (ata_dev demo_entries) (Suc (length [0x41 :: u8])) \<union> region (lit_ata_disk demo_entries) (Suc (length [0x41 :: u8]))
      \<union> region (lit_no_disk demo_entries) (Suc (length [0x2d :: u8])) \<union> region (lit_test_data demo_entries) (Suc (length [0x54 :: u8]))
      \<subseteq> {q. unat q < 0x8f000}" using image_memory_low by (simp flip: numeral_2_eq_2)
  have run: "\<exists>t p. let passed = 100 \<le> sector_limit present ident True; said = (if passed then [0x54] else [0x2d]); s' = put_bytes said t
      in kern_init (demo_board present ident) demo_entries image_kernel = Some s' \<and> kernel_ok demo_entries s' [p] [task_at p] [] []"
    for present ident
    using kern_init_completes [OF ready low demo_board_ok(1) ide_controller demo_board_ok(2,3)] unfolding Let_def by blast
  show ?thesis
    using run [of "\<lambda>_. True" "\<lambda>_ _. 200"] run [of Not "\<lambda>_ _. 200"] by (simp add: l Let_def)
qed

end
