(* ===== verification/Optional.thy ===== *)
theory Optional
  imports Kernel_Props
begin

text \<open>
  Code the preprocessor leaves out unless a switch is defined: the search for the PCI BIOS
  (\<^verbatim>\<open>USE_PCI_BIOS32\<close> in \<^verbatim>\<open>kernel/pci.c\<close>) and the sector test (\<^verbatim>\<open>USE_SECTOR_RW_TEST\<close> in
  \<^verbatim>\<open>kernel/ata.c\<close>).
\<close>

section \<open>The PCI BIOS\<close>

text \<open>The fields of \<^verbatim>\<open>union pci_bios32\<close> at an address; \<^verbatim>\<open>checksum\<close> and \<^verbatim>\<open>reserved\<close> are not read.\<close>

record pci_bios32 =
  bios_sig :: "u8 list"
  bios_entry :: u32
  bios_rev :: u8
  bios_len :: u8

definition bios32_at :: "memory \<Rightarrow> u32 \<Rightarrow> pci_bios32" where
  "bios32_at m p = \<lparr>bios_sig = [m p, m (p + 1), m (p + 2), m (p + 3)], bios_entry = read32 m (p + 4),
     bios_rev = m (p + 8), bios_len = m (p + 9)\<rparr>"

text \<open>The sum of \<open>len\<close> bytes in a \<^verbatim>\<open>char\<close>; more than 16 of them lie behind the union.\<close>

definition bios32_sum :: "memory \<Rightarrow> u32 \<Rightarrow> nat \<Rightarrow> u8" where
  "bios32_sum m p len = fold (\<lambda>i sum. sum + m (p + of_nat i)) [0..<len] 0"

definition bios32_found :: "u32 \<Rightarrow> pci_bios32 \<Rightarrow> 'a con_state_scheme \<Rightarrow> 'a con_state_scheme" where
  "bios32_found addr b s =
     (let s = printk_line ''found pci bios32 at 0x%lx'' [PInt addr] s;
          s = printk_line ''PCI BIOS32 entry point is 0x%lx'' [PInt (bios_entry b)] s
      in printk_line ''PCI BIOS32 revision is 0x%lx'' [PInt (ucast (bios_rev b))] s)"

function find_bios32_loop :: "u32 \<Rightarrow> 'a con_state_scheme \<Rightarrow> bool \<times> 'a con_state_scheme" where
  "find_bios32_loop addr s =
     (if addr < 0xffff0 then
        (let b = bios32_at (mem s) addr; len = unat (bios_len b) * 16
         in if addr \<noteq> 0 \<and> bios_sig b = bytes_of ''_32_'' \<and> len \<noteq> 0 \<and> bios32_sum (mem s) addr len = 0
            then (True, bios32_found addr b s)
            else find_bios32_loop (addr + 16) s)
      else (False, printk_line ''pci bios32 not found'' [] s))"
  by pat_completeness auto
termination
proof (relation "measure (\<lambda>(addr, _). 0x100000 - unat addr)")
  fix addr :: u32 and s :: "'a con_state_scheme" and b len
  assume "addr < 0xffff0"
  then have "unat addr < 0xffff0" by (simp add: word_less_nat_alt)
  then have "unat (addr + 16) = unat addr + 16" by (simp add: unat_word_ariths)
  with \<open>unat addr < 0xffff0\<close> show "((addr + 16, s), addr, s) \<in> measure (\<lambda>(addr, _). 0x100000 - unat addr)" by simp
qed simp

declare find_bios32_loop.simps [simp del]

definition find_pci_bios32 :: "'a con_state_scheme \<Rightarrow> bool \<times> 'a con_state_scheme" where
  "find_pci_bios32 s = find_bios32_loop 0xe0000 s"

section \<open>The sector test\<close>

definition BLOCK_SIZE :: u32 where "BLOCK_SIZE = SECTOR_SIZE * 2"

text \<open>
  \<open>block\<close> and \<open>buf\<close> are the arrays on the stack, \<open>hello\<close> the literal that is copied. \<^const>\<open>None\<close>: a
  string without end, or a read that stops the kernel.
\<close>

definition show_block :: "u32 \<Rightarrow> 'a con_state_scheme \<Rightarrow> 'a con_state_scheme option" where
  "show_block block s = put_str block (put_bytes (bytes_of ''Data at 0x1b8 is '') s)"

definition sector_rw_test :: "device \<Rightarrow> u32 \<Rightarrow> u32 \<Rightarrow> u32 \<Rightarrow> 'a ata_state_scheme \<Rightarrow> 'a ata_state_scheme option" where
  "sector_rw_test dev block buf hello s =
     do {
       let s = printk_line ''ATA: RW test'' [] s;
       let s = printk_line ''%s'' [PStr (bytes_of ''sector_rw_test'')] s;
       (ret, s) \<leftarrow> returned (read_sector dev 0 0x1b8 block SECTOR_SIZE s);
       let s = (if ret \<noteq> 0 then printk_line ''read error'' [] s else s);
       s \<leftarrow> show_block block s;
       s \<leftarrow> with_mem (strcpy buf hello (mem s)) s;
       let s = printk_line ''Writing Data at 0x1b8'' [] s;
       let (_, s) = write_sector dev 0 0x1b8 buf SECTOR_SIZE s;
       let s = s\<lparr>mem := memset block 0 BLOCK_SIZE (mem s)\<rparr>;
       (_, s) \<leftarrow> returned (read_sector dev 0 0x1b8 block SECTOR_SIZE s);
       show_block block s
     }"

section \<open>Lemmas\<close>

text \<open>What makes an address the start of the PCI BIOS, and the addresses searched.\<close>

definition valid_bios32 :: "memory \<Rightarrow> u32 \<Rightarrow> bool" where
  "valid_bios32 m p \<longleftrightarrow> [m p, m (p + 1), m (p + 2), m (p + 3)] = bytes_of ''_32_''
     \<and> m (p + 9) \<noteq> 0 \<and> (\<Sum>i < 16 * unat (m (p + 9)). m (p + of_nat i)) = 0"

definition para_addr :: "nat \<Rightarrow> u32" where
  "para_addr k = 0xe0000 + of_nat (16 * k)"

lemma bios32_sum_eq: "bios32_sum m p n = (\<Sum>i < n. m (p + of_nat i))"
  unfolding bios32_sum_def by (induction n) simp_all

lemma para_unat: "k \<le> 0x1fff \<Longrightarrow> unat (para_addr k) = 0xe0000 + 16 * k"
proof -
  assume "k \<le> 0x1fff"
  moreover have "para_addr k = of_nat (0xe0000 + 16 * k)" by (simp add: para_addr_def)
  ultimately show ?thesis by (simp only: unat_of_nat) simp
qed

lemma para_facts:
  assumes "k \<le> 0x1fff"
  shows "para_addr k < 0xffff0 \<longleftrightarrow> k < 0x1fff" "para_addr k \<noteq> 0" "para_addr k + 16 = para_addr (Suc k)"
proof -
  note u = para_unat [OF assms]
  show "para_addr k < 0xffff0 \<longleftrightarrow> k < 0x1fff" unfolding word_less_nat_alt u using assms by simp
  show "para_addr k \<noteq> 0" using u by auto
  show "para_addr k + 16 = para_addr (Suc k)" by (simp add: para_addr_def)
qed

lemma loop_test:
  "(let b = bios32_at m p; len = unat (bios_len b) * 16
    in bios_sig b = bytes_of ''_32_'' \<and> len \<noteq> 0 \<and> bios32_sum m p len = 0) \<longleftrightarrow> valid_bios32 m p"
proof -
  have "unat (m (p + 9)) * 16 \<noteq> 0 \<longleftrightarrow> m (p + 9) \<noteq> 0" by (simp add: unat_eq_zero)
  then show ?thesis
    by (simp add: bios32_at_def valid_bios32_def bios32_sum_eq mult.commute Let_def del: bytes_of_simps)
qed

lemma find_bios32_from:
  assumes "k \<le> 0x1fff"
  shows "find_bios32_loop (para_addr k) s =
    (case find (valid_bios32 (mem s)) (map para_addr [k..<0x1fff]) of
       None \<Rightarrow> (False, printk_line ''pci bios32 not found'' [] s)
     | Some p \<Rightarrow> (True, bios32_found p (bios32_at (mem s) p) s))"
  using assms
proof (induction "0x1fff - k" arbitrary: k)
  case 0
  then have "k = 0x1fff" by simp
  then show ?case
    using para_facts(1) [of k] by (subst find_bios32_loop.simps) simp
next
  case (Suc n)
  then have k: "k < 0x1fff" by simp
  then have up: "[k..<0x1fff] = k # [Suc k..<0x1fff]" by (rule upt_conv_Cons)
  note P = para_facts [OF Suc.prems]
  have IH: "find_bios32_loop (para_addr (Suc k)) s =
    (case find (valid_bios32 (mem s)) (map para_addr [Suc k..<0x1fff]) of
       None \<Rightarrow> (False, printk_line ''pci bios32 not found'' [] s)
     | Some p \<Rightarrow> (True, bios32_found p (bios32_at (mem s) p) s))"
    by (rule Suc(1)) (use Suc(2) k in auto)
  show ?case
    using k P(2) loop_test [of "mem s" "para_addr k"]
    by (subst find_bios32_loop.simps) (simp add: P(1,3) IH up Let_def del: upt_Suc bytes_of_simps)
qed

text \<open>The messages.\<close>

lemma printk_line_hex:
  assumes "of_char CHR ''%'' \<notin> set (bytes_of t)"
  shows "printk_line (t @ ''%lx'') [PInt n] s = put_bytes (bytes_of t @ hex_numeral (unat n) @ [0x0a]) s"
proof -
  have "bytes_of (t @ ''%lx'' @ [CHR 0x0a]) = bytes_of t @ bytes_of ''%lx'' @ [0x0a]" by (simp add: bytes_of_def)
  then show ?thesis
    using printk_segs [of "[Text (bytes_of t), LongHex n, Text [0x0a]]" s] assms
    by (simp add: printk_line_def printk_def del: bytes_of_simps)
qed

lemma found_message:
  "bios32_found p (bios32_at m p) s = put_bytes
     (bytes_of ''found pci bios32 at 0x'' @ hex_numeral (unat p) @ [0x0a]
      @ bytes_of ''PCI BIOS32 entry point is 0x'' @ hex_numeral (unat (read32 m (p + 4))) @ [0x0a]
      @ bytes_of ''PCI BIOS32 revision is 0x'' @ hex_numeral (unat (m (p + 8))) @ [0x0a]) s"
proof -
  have p: "of_char CHR ''%'' \<notin> set (bytes_of ''found pci bios32 at 0x'')"
    "of_char CHR ''%'' \<notin> set (bytes_of ''PCI BIOS32 entry point is 0x'')"
    "of_char CHR ''%'' \<notin> set (bytes_of ''PCI BIOS32 revision is 0x'')" by simp_all
  note L = printk_line_hex [OF p(1), unfolded append_Cons append_Nil]
    printk_line_hex [OF p(2), unfolded append_Cons append_Nil]
    printk_line_hex [OF p(3), unfolded append_Cons append_Nil]
  have r: "unat (ucast (x :: u8) :: u32) = unat x" for x
    by (simp add: unsigned_ucast_eq take_bit_nat_eq_self order.strict_trans [OF unsigned_less])
  show ?thesis
    by (simp only: bios32_found_def bios32_at_def Let_def L put_bytes_append r pci_bios32.simps)
qed

lemma not_found_message:
  "printk_line ''pci bios32 not found'' [] s = put_bytes (bytes_of ''pci bios32 not found'' @ [0x0a]) s"
  using printk_segs [of "[Text (bytes_of ''pci bios32 not found''), Text [0x0a]]" s]
  by (simp add: printk_line_def printk_def)

section \<open>Properties\<close>

text \<open>
  The search for the PCI BIOS. \<^verbatim>\<open>find_pci_bios32\<close> looks at every sixteenth address from 0xe0000 up to
  0xfffe0 and stops at the first one with the signature, a length that is not zero, and bytes of
  that length that add up to zero; it prints the address, the entry point and the revision. If there
  is none it says so. It always ends.
\<close>

lemma pci_bios32_search:
  "find_pci_bios32 s =
    (case find (valid_bios32 (mem s)) (map para_addr [0..<0x1fff]) of
       None \<Rightarrow> (False, put_bytes (bytes_of ''pci bios32 not found'' @ [0x0a]) s)
     | Some p \<Rightarrow> (True, put_bytes
         (bytes_of ''found pci bios32 at 0x'' @ hex_numeral (unat p) @ [0x0a]
          @ bytes_of ''PCI BIOS32 entry point is 0x'' @ hex_numeral (unat (read32 (mem s) (p + 4))) @ [0x0a]
          @ bytes_of ''PCI BIOS32 revision is 0x'' @ hex_numeral (unat (mem s (p + 8))) @ [0x0a]) s))"
proof -
  have "find_pci_bios32 s = find_bios32_loop (para_addr 0) s" by (simp add: find_pci_bios32_def para_addr_def)
  then show ?thesis
    using find_bios32_from [of 0 s] by (simp only: found_message not_found_message)
qed

end
