(* ===== verification/Traps.thy ===== *)
theory Traps
  imports Kernel_Props
begin

text \<open>
  How the processor enters the kernel: the code of \<^verbatim>\<open>kernel/sys.S\<close> (an assembly file) that fills
  the interrupt table before \<^verbatim>\<open>kern_init\<close>, its entry points for system calls and exceptions, and the
  self tests of \<^verbatim>\<open>kernel/debug.c\<close>, which provoke exceptions with instructions.
\<close>

section \<open>The first code of the kernel\<close>

text \<open>The loop at \<^verbatim>\<open>rp_sidt\<close>; \<open>edi\<close> counts in words of the table.\<close>

fun rp_sidt :: "nat \<Rightarrow> nat \<Rightarrow> u32 \<Rightarrow> u32 \<Rightarrow> (nat \<Rightarrow> u32) \<Rightarrow> (nat \<Rightarrow> u32)" where
  "rp_sidt edi 0 eax edx t = t"
| "rp_sidt edi (Suc ecx) eax edx t = rp_sidt (edi + 2) ecx eax edx (t(edi := eax, edi + 1 := edx))"

text \<open>\<^verbatim>\<open>movw\<close> replaces the lower half of a register.\<close>

definition movw :: "u16 \<Rightarrow> u32 \<Rightarrow> u32" where
  "movw v r = (r AND 0xffff0000) OR ucast v"

definition setup_idt :: "u32 \<Rightarrow> (nat \<Rightarrow> u32) \<Rightarrow> (nat \<Rightarrow> u32)" where
  "setup_idt ignore_int t =
     (let edx = ignore_int;
          eax = 0x00080000;
          eax = movw (ucast edx) eax;
          edx = movw 0x8E00 edx
      in rp_sidt 0 256 eax edx t)"

section \<open>System calls\<close>

record registers =
  eax :: u32
  ebx :: u32
  ecx :: u32
  edx :: u32
  esi :: u32
  edi :: u32
  ebp :: u32
  esp :: u32

text \<open>\<^verbatim>\<open>syscall_handler\<close>: the registers pushed, the top of the stack first, and popped again.\<close>

definition pushed :: "registers \<Rightarrow> u32 list" where
  "pushed r = [eax r, ebx r, ecx r, edx r, edi r, esi r, ebp r, esp r]"

fun popped :: "u32 \<Rightarrow> u32 list \<Rightarrow> registers option" where
  "popped result [a, b, c, d, di, si, bp, sp] =
     Some \<lparr>eax = result, ebx = b, ecx = c, edx = d, esi = si, edi = di, ebp = bp, esp = sp\<rparr>"
| "popped result _ = None"

definition sysret_value :: "sysret \<Rightarrow> u32 option" where
  "sysret_value r = (case r of Ret v \<Rightarrow> Some v | Sleeps i v \<Rightarrow> Some v | Reads i j \<Rightarrow> None)"

text \<open>
  The call reads its arguments from the top of the stack. The registers it comes back with are known
  unless the caller still waits in the middle of a line.
\<close>

definition syscall_handler :: "(fptr \<Rightarrow> u32) \<Rightarrow> registers \<Rightarrow> 'a kernel_state_scheme
    \<Rightarrow> (registers option \<times> sysret \<times> 'a kernel_state_scheme) option" where
  "syscall_handler addr r s =
     do {
       let st = pushed r;
       (ret, s) \<leftarrow> do_syscall addr (st ! 0) (st ! 1) (st ! 2) (st ! 3) s;
       let r = (case sysret_value ret of None \<Rightarrow> None | Some v \<Rightarrow> popped v st);
       Some (r, ret, s)
     }"

text \<open>\<^verbatim>\<open>syscall\<close> of \<^verbatim>\<open>apps/uptime.c\<close>: the interrupt 0x80 with the arguments in four registers.\<close>

definition syscall :: "(fptr \<Rightarrow> u32) \<Rightarrow> u32 \<Rightarrow> u32 \<Rightarrow> u32 \<Rightarrow> u32 \<Rightarrow> registers \<Rightarrow> 'a kernel_state_scheme
    \<Rightarrow> (u32 option \<times> registers option \<times> sysret \<times> 'a kernel_state_scheme) option" where
  "syscall addr syscall_id arg1 arg2 arg3 r s =
     do {
       (r, ret, s) \<leftarrow> syscall_handler addr (r\<lparr>eax := syscall_id, ebx := arg1, ecx := arg2, edx := arg3\<rparr>) s;
       Some (map_option eax r, r, ret, s)
     }"

section \<open>Exceptions\<close>

text \<open>
  Vector 14 reports a page fault; all other exceptions of the processor jump to themselves; a vector below
  21 without a name reports an exception.
\<close>

definition exception_entry :: "entry \<Rightarrow> u32 \<Rightarrow> u32 \<Rightarrow> 'a con_state_scheme \<Rightarrow> (unit, 'a con_state_scheme) run" where
  "exception_entry e error_code cr2 s =
     (case e of
        Exception_handler \<Rightarrow> do_exception s
      | Excp v \<Rightarrow> (if v = 14 then do_page_fault error_code cr2 s else Stuck s)
      | _ \<Rightarrow> Done () s)"

definition raise_exception :: "u8 \<Rightarrow> u32 \<Rightarrow> u32 \<Rightarrow> 'a con_state_scheme \<Rightarrow> (unit, 'a con_state_scheme) run" where
  "raise_exception v error_code cr2 s =
     (case handler_for v of None \<Rightarrow> Done () s | Some e \<Rightarrow> exception_entry e error_code cr2 s)"

section \<open>The self tests\<close>

text \<open>The only variable of \<^verbatim>\<open>kernel/debug.c\<close>, \<^verbatim>\<open>_flag\<close>; nothing reads it.\<close>

definition debug_init :: "u8 \<Rightarrow> u8" where "debug_init flag = 0"

text \<open>\<^verbatim>\<open>divb\<close>: quotient and remainder of AX; \<^const>\<open>None\<close> is exception 0.\<close>

definition divb :: "u16 \<Rightarrow> u8 \<Rightarrow> (u8 \<times> u8) option" where
  "divb ax v = (if v = 0 \<or> unat ax div unat v > 255 then None
     else Some (of_nat (unat ax div unat v), of_nat (unat ax mod unat v)))"

definition test_excp_de :: "'a con_state_scheme \<Rightarrow> (unit, 'a con_state_scheme) run" where
  "test_excp_de s =
     (case divb 8 0 of None \<Rightarrow> raise_exception 0 0 0 s | Some _ \<Rightarrow> Done () s)"

text \<open>A read of one byte by the kernel: through the page tables when paging is on.\<close>

definition kernel_load :: "u32 \<Rightarrow> 'a kernel_state_scheme \<Rightarrow> (u8, 'a kernel_state_scheme) run" where
  "kernel_load a s =
     (if bit (cr0 s) 31 then
        (case translate (mem s) (cr3 s AND NOT (mask 12)) a of
           None \<Rightarrow> (case raise_exception 14 0 a s of Done _ s \<Rightarrow> Done 0 s | Stuck s \<Rightarrow> Stuck s)
         | Some p \<Rightarrow> Done (mem s p) s)
      else Done (mem s a) s)"

definition test_excp_pf :: "'a kernel_state_scheme \<Rightarrow> (unit, 'a kernel_state_scheme) run" where
  "test_excp_pf s = (case kernel_load 0x000b8000 s of Done tmp s \<Rightarrow> Done () s | Stuck s \<Rightarrow> Stuck s)"

section \<open>Lemmas\<close>

text \<open>Every vector has a gate: first that of \<^verbatim>\<open>ignore_int\<close>, which returns at once.\<close>

lemma rp_sidt_words:
  "rp_sidt b n x y t i = (if b \<le> i \<and> i < b + 2 * n then if even (i - b) then x else y else t i)"
proof (induction n arbitrary: b t i)
  case (Suc n)
  consider "i < b" | "i = b" | "i = b + 1" | "b + 2 \<le> i" by linarith
  then show ?case
  proof cases
    case 4
    then have "even (i - (b + 2)) \<longleftrightarrow> even (i - b)" by presburger
    with 4 Suc show ?thesis by auto
  qed (simp_all add: Suc)
qed auto

lemma setup_idt_gates:
  "gate_of (setup_idt a t) v = \<lparr>gate_offset = a, gate_selector = 8, gate_type = 0x0e, gate_dpl = 0, gate_present = True\<rparr>"
proof -
  have "unat v < 256" using unsigned_less [of v, where 'a = nat] by simp
  then have v: "unat v * 2 < 512" "unat v * 2 + 1 < 512" by presburger+
  have "movw (ucast a) 0x00080000 = gate_top a" "movw 0x8E00 a = gate_bottom False a"
    unfolding movw_def gate_top_def gate_bottom_def Let_def masks
    by (rule bit_word_eqI; auto simp: bit_simps)+
  then have "setup_idt a t (unat v * 2) = gate_top a" "setup_idt a t (unat v * 2 + 1) = gate_bottom False a"
    using v by (simp_all add: setup_idt_def Let_def rp_sidt_words del: rp_sidt.simps)
  then show ?thesis
    by (simp add: gate_of_def Let_def gate_offset_join gate_selector_bits gate_type_bits gate_dpl_bits gate_present_bit)
qed

lemma every_vector_has_a_gate:
  assumes "before_init s" and "idt s = setup_idt a t0" and "kern_init_setup dev im s = Some s'"
  shows "gate_of (idt s') v = (case handler_for v of
     Some e \<Rightarrow> gate_to v (entries im e)
   | None \<Rightarrow> \<lparr>gate_offset = a, gate_selector = 8, gate_type = 0x0e, gate_dpl = 0, gate_present = True\<rparr>)"
proof (rule kern_task_started [OF assms(1), of im], goal_cases)
  case (1 t)
  obtain u where u: "task_init (data_base_addr (files t) FShell) t = Some u" "s' = setup_interrupts dev im u"
    using assms(3) 1(1) by (auto simp: kern_init_setup_eq)
  obtain p h m g T where "u = snd (sched_runq_enq p (t\<lparr>heap_alloc_table := h, mem := m,
      task_id_counter := task_id_counter t + 1, gdt := g, tasks := T\<rparr>))"
    using task_init_shape [OF u(1) 1(5)] by blast
  then have "idt u = idt t" by (simp add: sched_runq_enq_eq)
  then show ?case
    by (simp add: u(2) interrupts_facts(10) 1(14) gates_after_tables handler_for_def assms(2) setup_idt_gates)
qed

text \<open>The calling convention: the arguments arrive, the result comes back, the other registers are kept.\<close>

lemma syscall_eq:
  "syscall addr n a b c r s = map_option (\<lambda>(ret, s).
     (sysret_value ret, map_option (\<lambda>v. r\<lparr>eax := v, ebx := a, ecx := b, edx := c\<rparr>) (sysret_value ret), ret, s))
     (do_syscall addr n a b c s)"
  by (cases r; cases "do_syscall addr n a b c s")
    (auto simp: syscall_def syscall_handler_def pushed_def split: prod.split option.split)

text \<open>Paging is on, with what \<^verbatim>\<open>mem_init\<close> has set up.\<close>

definition on_kernel_tables :: "'a kernel_state_scheme \<Rightarrow> bool" where
  "on_kernel_tables s \<longleftrightarrow> bit (cr0 s) 31
     \<and> translate (mem s) (cr3 s AND NOT (mask 12)) = translate (snd (mem_init (0, \<lambda>_. 0))) 0x0008f000"

definition kernel_mapped :: "u32 \<Rightarrow> bool" where
  "kernel_mapped a \<longleftrightarrow> (let i = unat (drop_bit 12 a) in 0x007 \<le> i \<and> i \<le> 0x085 \<or> 0x095 \<le> i \<and> i \<le> 0x09f
     \<or> 0x0b8 \<le> i \<and> i \<le> 0x0bf \<or> 0x100 \<le> i \<and> i < 0x400)"

lemma kernel_load_eq:
  assumes "on_kernel_tables s"
  shows "kernel_load a s = (if kernel_mapped a then Done (mem s a) s
    else case raise_exception 14 0 a s of Done _ s \<Rightarrow> Done 0 s | Stuck s \<Rightarrow> Stuck s)"
  using assms by (simp add: kernel_load_def on_kernel_tables_def kernel_mapping kernel_mapped_def Let_def)

lemma exception_handlers:
  "raise_exception 0 e a s = Stuck s" "raise_exception 14 e a s = do_page_fault e a s"
  by (simp_all add: raise_exception_def handler_for_def exception_entry_def INTR_NUM_TIMER_def INTR_NUM_KB_def
      INTR_NUM_USER128_def EXCEPTION_MAX_def)

section \<open>Properties\<close>

text \<open>
  C34. Exceptions. With the kernel's tables, a read of the kernel from an address \<^verbatim>\<open>mem_init\<close> has mapped
  delivers the byte; from any other address it ends in \<^verbatim>\<open>do_page_fault\<close>, with that address. The test
  for page faults reads the video memory, which is mapped, and so it causes none; the test of
  the division hangs without a message, since the entry point of exception 0 jumps to itself.
\<close>

theorem exceptions_of_the_kernel:
  assumes "on_kernel_tables s"
  shows "(if kernel_mapped a then kernel_load a s = Done (mem s a) s
      else \<exists>t. (do_page_fault 0 a s :: (unit, _) run) = Stuck t \<and> kernel_load a s = Stuck t)
    \<and> test_excp_pf s = Done () s \<and> test_excp_de s = Stuck s"
proof -
  have "kernel_mapped 0x000b8000" by (simp add: kernel_mapped_def unat_drop_bit_eq)
  then have "test_excp_pf s = Done () s" by (simp add: test_excp_pf_def kernel_load_eq [OF assms])
  moreover have "test_excp_de s = Stuck s" by (simp add: test_excp_de_def divb_def exception_handlers)
  ultimately show ?thesis
    by (simp add: kernel_load_eq [OF assms] exception_handlers do_page_fault_def Let_def)
qed

text \<open>The kernel right after it has switched paging on.\<close>

definition paged_kernel :: kernel_state where
  "paged_kernel = boot_kernel\<lparr>mem := snd (mem_init (0, \<lambda>_. 0)), cr3 := 0x0008f018, cr0 := mem_page_start 0\<rparr>"

theorem exceptions_of_the_kernel_witness:
  "kernel_load 0x00100000 paged_kernel = Done (mem paged_kernel 0x00100000) paged_kernel
   \<and> (\<exists>t. (do_page_fault 0 0x00400000 paged_kernel :: (unit, _) run) = Stuck t \<and> kernel_load 0x00400000 paged_kernel = Stuck t)"
proof -
  have "(0x0008f018 :: u32) AND NOT (mask 12) = 0x0008f000" by (simp add: mask_eq_exp_minus_1)
  then have t: "on_kernel_tables paged_kernel"
    by (simp add: on_kernel_tables_def paged_kernel_def mem_page_start_def bit_simps)
  have "kernel_mapped 0x00100000" "\<not> kernel_mapped 0x00400000"
    by (simp_all add: kernel_mapped_def unat_drop_bit_eq)
  with exceptions_of_the_kernel [OF t, of "0x00100000"] exceptions_of_the_kernel [OF t, of "0x00400000"]
  show ?thesis by simp
qed

end
