(* ===== verification/Spec2Isabelle.thy ===== *)
theory Spec2Isabelle
  imports Sched_Fair Console_Line Task_Props Kernel_Props Net_Props Shell_Props System Boot_Whole Optional Traps
begin

text \<open>
  A model of Magical-OS5, a small kernel for 32-bit x86 in C with two user programs.

  \<^bold>\<open>The program.\<close> The boot loader (\<^verbatim>\<open>boot/boot.s\<close>) loads the kernel and a boot image with two files. The
  first code of \<^verbatim>\<open>kernel/sys.S\<close> fills the interrupt table and calls \<^verbatim>\<open>kern_init\<close> (\<^verbatim>\<open>kernel/init.c\<close>), which sets up
  the console, the interrupt gates, the page tables, the file list and the first task (the shell),
  enables the interrupts, and then scans the PCI bus and tests the disk as the kernel task. From then on
  the timer and the keyboard interrupt, system calls (interrupt 0x80) and the scheduler determine which
  task runs. Tasks switch by far jumps to task state segments.

  \<^bold>\<open>Theories and sources.\<close>
  \<^item> \<open>Prelude\<close>: words, lists, the collection \<open>frame\<close>. \<open>Machine\<close>: \<^verbatim>\<open>include/io_port.h\<close>, \<^verbatim>\<open>include/cpu.h\<close>,
    \<^verbatim>\<open>lock.c\<close>. \<open>Cpu\<close>: \<^verbatim>\<open>cpu.c\<close>, \<^verbatim>\<open>intr.c\<close>, the tables of \<^verbatim>\<open>sys.S\<close>.
  \<^item> \<open>Dlist_Chain\<close>: doubly linked rings as an interface (locale \<open>link_store\<close>), used by \<open>Klist\<close> (\<^verbatim>\<open>queue.c\<close>) and
    \<open>Sched\<close>. \<open>Name_Lookup\<close>: walks that compare names (locale \<open>name_lookup\<close>), used by \<open>Fs\<close> and \<open>Blk\<close>.
  \<^item> \<open>Stdlib_Conv\<close>: \<^verbatim>\<open>stdlib.c\<close>. \<open>Cstring\<close>: \<^verbatim>\<open>string.c\<close>, \<^verbatim>\<open>common.c\<close>.
  \<^item> \<open>Sched\<close>: \<^verbatim>\<open>sched.c\<close>. \<open>Timer\<close>: \<^verbatim>\<open>timer.c\<close>. \<open>Sched_Queues\<close> (the six queue operations on lists), \<open>Sched_Inv\<close>
    (the invariant \<open>sched_inv\<close>), \<open>Sched_Wake\<close> and \<open>Sched_Block\<close> (the loops that wake, the calls that block),
    \<open>Sched_Steps\<close> (the transition system \<open>sched_reach\<close>), \<open>Sched_Props\<close>,
    \<open>Sched_Sleep\<close> (how long tasks stay blocked), \<open>Sched_Fair\<close> (how long they stay runnable without running; locale
    \<open>patience\<close>).
  \<^item> \<open>Keyboard\<close> and \<open>Console\<close>: \<^verbatim>\<open>console_io.c\<close>; \<open>Console_Props\<close>; \<open>Console_Line\<close> (a
    line read as a system call, until it is complete or the key buffer is empty; locale \<open>line_steps\<close>). \<open>Debug\<close>: \<^verbatim>\<open>debug.c\<close>, \<^verbatim>\<open>excp.c\<close>, \<^verbatim>\<open>queue_dump\<close>.
  \<^item> \<open>Paging\<close> and \<open>Heap\<close>: \<^verbatim>\<open>memory.c\<close>. \<open>Task\<close>, \<open>Task_Props\<close>: \<^verbatim>\<open>task.c\<close>, \<^verbatim>\<open>kern_task_init.c\<close>. \<open>Fs\<close>: \<^verbatim>\<open>fs.c\<close>.
  \<^item> \<open>Pci\<close>, \<open>Pci_Props\<close>: \<^verbatim>\<open>pci.c\<close>. \<open>Blk\<close>, \<open>Blk_Props\<close>: \<^verbatim>\<open>block_driver.c\<close>. \<open>Ata\<close>, \<open>Ata_Props\<close>,
    \<open>Ata_Open\<close>: \<^verbatim>\<open>ata.c\<close>. \<open>Net\<close>, \<open>Net_Props\<close>: \<^verbatim>\<open>i825xx.c\<close>. \<open>Optional\<close>: code under \<^verbatim>\<open>USE_PCI_BIOS32\<close> and \<^verbatim>\<open>USE_SECTOR_RW_TEST\<close>.
  \<^item> \<open>Kernel\<close>, \<open>Kernel_Props\<close>: \<^verbatim>\<open>syscall.c\<close>, \<^verbatim>\<open>init.c\<close>. \<open>Traps\<close>: \<^verbatim>\<open>sys.S\<close> (the interrupt table, the system call and
    exception entries), the self tests of \<^verbatim>\<open>debug.c\<close>. \<open>System\<close>: all of it as one transition system.
  \<^item> \<open>Drivers\<close> (locales \<open>quiet_frame\<close>, \<open>bus_frame\<close>, \<open>driver_frame\<close>, \<open>drive_frame\<close>: views that the drivers do not change),
    \<open>Boot_Disk\<close> (the devices and the disk test of \<^verbatim>\<open>init.c\<close>), \<open>Boot_Whole\<close> (\<^verbatim>\<open>kern_init\<close> from end to end).
  \<^item> \<open>Shell\<close>, \<open>Shell_Props\<close>: \<^verbatim>\<open>apps/shell.c\<close>, \<^verbatim>\<open>apps/uptime.c\<close>.

  \<^bold>\<open>State.\<close> One record per component, each extending the one it builds on: \<open>machine\<close> (EFLAGS, task register,
  memory, trace of port accesses and jumps), \<open>sched_state\<close>, \<open>timer_state\<close>, \<open>con_state\<close>, \<open>heap_state\<close>, \<open>task_state\<close>,
  \<open>pci_state\<close>, \<open>blk_state\<close>, \<open>ata_state\<close>, \<open>kernel_state\<close>. Their fields are the file-level variables of the C files.
  \<open>mem\<close> is byte-addressed memory, as the running code sees it; the screen, the page tables, strings and
  buffers are in it. Linked structures (tasks, list nodes, PCI and driver nodes) are typed objects in
  stores of their own, indexed by pointers; writing memory does not change them. Operations are
  polymorphic in the rest of the record, so that they apply to the state of the whole kernel.

  \<^bold>\<open>Conventions.\<close> Integers are words of their C width; \<^verbatim>\<open>unsigned long\<close> and pointers have 32 bits. A loop
  that may run forever is a partial function with \<^const>\<open>None\<close> for not returning; a function that may stop the
  kernel returns \<open>run\<close>: \<open>Done\<close> or \<open>Stuck\<close> with the state it loops in. A call that gives up the processor
  returns at the switch, with what it does after it is switched to again: \<open>do_syscall\<close> gives \<open>Ret\<close>, \<open>Sleeps\<close> or, for
  \<^verbatim>\<open>SYSCALL_CON_GET_LINE\<close> on an empty key buffer, \<open>Reads\<close> with the place of the next byte of the line, and
  \<open>get_line_resume\<close> is the rest of the call when the reader runs again. \<open>get_line\<close> is the same call from its start
  to its end on the bytes typed meanwhile (\<open>Console_Line\<close> relates the two); the shell's turns use it.
  \<open>shell_main\<close> is given the number of its turns.

  \<^bold>\<open>Parameters.\<close> What is not code of the repository is an argument: \<open>device\<close>, a function from the trace so far
  and a port to the value read (the drive, the configuration space, the keyboard controller); the network
  card, a function of the accesses made so far; the addresses the linker chooses (\<open>image\<close>, \<open>addr\<close>, \<open>lit\<close>, the
  frames of the shell). Where a property needs a device that follows its protocol, the protocol is a
  named hypothesis, which a concrete device satisfies in the witness.

  \<^bold>\<open>Interrupts.\<close> All gates are interrupt gates, so handlers and system calls run with interrupts off until
  they return or sleep; this is why they are single steps in \<open>sched_reach\<close> and in \<open>kern_reach\<close>. The kernel task
  runs its part of the boot with interrupts on; its steps that touch shared state (allocations,
  output) are interleaved in \<open>kern_reach\<close>, while \<open>kern_init_devices\<close> is the run without interrupts in between.

  \<^bold>\<open>What is shown.\<close>
  \<^item> The whole kernel (\<open>System\<close>, \<open>Kernel_Props\<close>, \<open>Traps\<close>): an invariant over every interleaving, the running task is
    the current one on pages of its own, the types of the descriptors, what the boot sets up, what
    each system call does to the scheduler, which reads fault.
  \<^item> The boot (\<open>Boot_Whole\<close>): \<^verbatim>\<open>kern_init\<close> gets to its end, with what it prints and what it does to the disk.
  \<^item> Scheduling (\<open>Sched_Props\<close>, \<open>Keyboard\<close>): the queues hold every task exactly once, fairness of the round
    robin over all runs (\<open>Sched_Fair\<close>), termination of the handlers, exactly which tasks a tick or an event wakes, what blocking does, how
    long at least and at most a task sleeps or waits (\<open>Sched_Sleep\<close>).
  \<^item> Memory and tasks (\<open>Paging\<close>, \<open>Heap\<close>, \<open>Task_Props\<close>): the translation by the kernel's and the tasks' tables, the
    isolation of tasks, the two allocators.
  \<^item> Console and text (\<open>Console_Props\<close>, \<open>Stdlib_Conv\<close>, \<open>Cstring\<close>): the cells a string fills, line editing, formats, numerals,
    string routines against their specifications.
  \<^item> Devices (\<open>Pci_Props\<close>, \<open>Blk_Props\<close>, \<open>Ata_Props\<close>, \<open>Ata_Open\<close>, \<open>Net_Props\<close>, \<open>Optional\<close>): the scan finds what is there, opening
    identifies the drives, a sector written is read back, the receive ring is drained in order, the driver registry.
  \<^item> Programs (\<open>Shell_Props\<close>): a turn of the shell from the keys typed to the command run, hexadecimal
    arguments, the commands that write.

  \<^bold>\<open>Bounds.\<close> Four tasks (the descriptor table has eight entries), 3584 heap pages, one page for \<^verbatim>\<open>kmalloc\<close>, 256 bytes in
  the key buffer, 1000 and 5 rounds of the drive's waits are those of the code. No fuel is used except
  the number of turns of the shell's endless loop.

  \<^bold>\<open>Not modelled.\<close> \<^verbatim>\<open>boot/boot.s\<close> (real mode, BIOS calls); of \<^verbatim>\<open>sys.S\<close> the loading of the descriptor registers and the
  register saves of the interrupt entries; \<^verbatim>\<open>include/stdarg.h\<close> (a header of GCC); the video mode setup
  in \<^verbatim>\<open>con_init\<close>, which is commented out; instruction timing, caches, the TLB, the busy bit of state
  segments; what the processor does with a jump to a descriptor that is not a state segment (from the third
  task on; \<open>ljmp_tss\<close> loads TR there too, so what the model says of the third and fourth task running is
  what the code means to do). The copies of \<^verbatim>\<open>copy_mem\<close> and \<^verbatim>\<open>str_compare\<close> in \<^verbatim>\<open>shell.c\<close> are those of \<^verbatim>\<open>common.c\<close>. Local variables are
  values, except arrays whose address is passed on.
\<close>

end
